(* ===== verification/Prelude.thy ===== *)
theory Prelude
  imports Main "HOL-Library.Word" "HOL-Library.Sublist" "HOL-Library.Multiset"
begin

text \<open>
  Shared ground of the development: the machine integers of the C++ sources, reachability and
  invariants of step relations, and the generic facts on lists and words the components use.
  Every concurrent component (the box of acknowledged sequence numbers, the condition variable,
  the object lock, the replication protocol) is a step relation over a state record; its safety
  properties are invariants proved once per step and lifted by \<open>reach_invariant\<close>.
\<close>

section \<open>Machine integers\<close>

type_synonym u8 = "8 word"
type_synonym u16 = "16 word"
type_synonym u32 = "32 word"
type_synonym u64 = "64 word"
type_synonym bytes = "u8 list"

text \<open>Threads of a process are named by numbers.\<close>

type_synonym tid = nat

section \<open>Reachable states and invariants\<close>

inductive reach :: "('s \<Rightarrow> bool) \<Rightarrow> ('s \<Rightarrow> 's \<Rightarrow> bool) \<Rightarrow> 's \<Rightarrow> bool"
  for init :: "'s \<Rightarrow> bool" and step :: "'s \<Rightarrow> 's \<Rightarrow> bool" where
  reach_init: "init s \<Longrightarrow> reach init step s"
| reach_step: "reach init step s \<Longrightarrow> step s t \<Longrightarrow> reach init step t"

lemma reach_invariant:
  assumes "reach init step s"
    and "\<And>s. init s \<Longrightarrow> I s"
    and "\<And>s t. reach init step s \<Longrightarrow> I s \<Longrightarrow> step s t \<Longrightarrow> I t"
  shows "I s"
  using assms(1) by (induction rule: reach.induct) (use assms(2,3) in blast)+

text \<open>
  The contract of a component with an inductive invariant: the initial states satisfy it and
  every step keeps it. The components interpret the locale on their own step relations.
\<close>

locale invariant_system =
  fixes init :: "'s \<Rightarrow> bool" and step :: "'s \<Rightarrow> 's \<Rightarrow> bool" and inv :: "'s \<Rightarrow> bool"
  assumes inv_init: "init s \<Longrightarrow> inv s"
    and inv_step: "inv s \<Longrightarrow> step s t \<Longrightarrow> inv t"
begin

lemma reach_inv: "reach init step s \<Longrightarrow> inv s"
  by (erule reach_invariant) (auto intro: inv_init inv_step)

lemma reach_inv_step: "reach init step s \<Longrightarrow> step s t \<Longrightarrow> inv s \<and> inv t"
  by (meson inv_step reach_inv)

end

section \<open>Lists\<close>

lemma distinct_remove1_eq_filter: "distinct xs \<Longrightarrow> remove1 x xs = filter (\<lambda>y. y \<noteq> x) xs"
  by (simp add: distinct_remove1_removeAll removeAll_filter_not_eq eq_commute)

lemma filter_neq_length:
  "distinct xs \<Longrightarrow> x \<in> set xs \<Longrightarrow> length xs - length (filter (\<lambda>y. y \<noteq> x) xs) = 1"
  using length_pos_if_in_set [of x xs] length_remove1 [of x xs]
  by (subst distinct_remove1_eq_filter [symmetric]) arith+

lemma count_list_eq_count_mset: "count_list xs x = count (mset xs) x"
  by (induction xs) auto

lemma map_of_filter_neq: "map_of (filter (\<lambda>(n, _). n \<noteq> k) m) = (map_of m)(k := None)"
  by (induction m) auto

section \<open>Words\<close>

lemma unat_of_nat_small: "n < 2 ^ LENGTH('a::len) \<Longrightarrow> unat (of_nat n :: 'a word) = n"
  by (simp add: unat_of_nat take_bit_nat_eq_self)

lemma fold_max_ge: "(m :: 'a::linorder) \<le> fold max ns m"
  by (induction ns arbitrary: m) (auto intro: order.trans max.cobounded2 dest: meta_spec)

lemma fold_max_ge_mem: "n \<in> set ns \<Longrightarrow> (n :: 'a::linorder) \<le> fold max ns m"
  by (induction ns arbitrary: m) (auto intro: order.trans [OF _ fold_max_ge])

lemma fold_max_attained: "fold max ns (m :: 'a::linorder) \<in> insert m (set ns)"
proof (induction ns arbitrary: m)
  case (Cons n ns)
  from Cons [of "max n m"] show ?case by (auto simp: max_def split: if_splits)
qed simp

section \<open>Text\<close>

definition digit_char :: "nat \<Rightarrow> char" where
  "digit_char d = char_of (48 + d)"

fun show_nat :: "nat \<Rightarrow> string" where
  "show_nat n = (if n < 10 then [digit_char n] else show_nat (n div 10) @ [digit_char (n mod 10)])"

declare show_nat.simps [simp del]

definition show_int :: "int \<Rightarrow> string" where
  "show_int i = (if i < 0 then CHR ''-'' # show_nat (nat (- i)) else show_nat (nat i))"

text \<open>\<open>folly::split\<close> at a character, with empty tokens.\<close>

fun split_at :: "char \<Rightarrow> string \<Rightarrow> string list" where
  "split_at c [] = [[]]"
| "split_at c (x # xs) =
    (if x = c then [] # split_at c xs
     else case split_at c xs of [] \<Rightarrow> [[x]] | t # ts \<Rightarrow> (x # t) # ts)"

section \<open>Statistics\<close>

text \<open>The calls of the process-wide \<open>common::Stats\<close> object that the components make.\<close>

datatype stat_event = AddMetric string int | Incr string u64

end
