(* ===== verification/Rocksdb_Api.thy ===== *)
theory Rocksdb_Api
  imports Prelude
begin

text \<open>
  The part of RocksDB the replicator calls, as a record of functions: RocksDB is not part of this
  repository, so its functions are a parameter of everything that uses them. \<open>rocksdb_spec\<close> states
  the documented behaviour the replicator relies on (the same facts
  \<open>rocksdb_replicator/tests/rocksdb_assumption_test.cpp\<close> exercises): a write that succeeds appends one
  batch to the log, every operation takes one sequence number, and an iterator obtained for a
  sequence number delivers the batches of the log from there on, without gaps.

  Also here: the byte representation of the timestamp that the replicator stores in a batch.
\<close>

section \<open>The interface\<close>

datatype rdb_status = StOk | StNotFound | StError string

definition status_ok :: "rdb_status \<Rightarrow> bool" where
  "status_ok st \<longleftrightarrow> st = StOk"

text \<open>
  \<open>'db\<close> is an open database, \<open>'it\<close> a \<open>TransactionLogIterator\<close>, \<open>'wb\<close> a \<open>WriteBatch\<close>, and \<open>'raw\<close> the
  serialized batch, whose length is \<open>raw_size\<close>. \<open>wb_Iterate\<close> yields the blobs it hands to
  \<open>Handler::LogData\<close>, in order.
\<close>

record ('db, 'it, 'wb, 'raw) rocksdb_api =
  db_Write :: "'db \<Rightarrow> 'wb \<Rightarrow> rdb_status \<times> 'db"
  db_GetLatestSequenceNumber :: "'db \<Rightarrow> u64"
  db_GetUpdatesSince :: "'db \<Rightarrow> u64 \<Rightarrow> rdb_status \<times> 'it option"
  it_Valid :: "'it \<Rightarrow> bool"
  it_Next :: "'db \<Rightarrow> 'it \<Rightarrow> 'it"
  it_GetBatch :: "'it \<Rightarrow> 'wb"
  wb_Count :: "'wb \<Rightarrow> u32"
  wb_Data :: "'wb \<Rightarrow> 'raw"
  wb_of_Data :: "'raw \<Rightarrow> 'wb"
  wb_PutLogData :: "bytes \<Rightarrow> 'wb \<Rightarrow> 'wb"
  wb_GetDataSize :: "'wb \<Rightarrow> u64"
  wb_Iterate :: "'wb \<Rightarrow> rdb_status \<times> bytes list"
  raw_size :: "'raw \<Rightarrow> u64"

section \<open>What the replicator relies on\<close>

text \<open>
  The content of a batch: its operations and its log data blobs. The log of a database is the list
  of the contents of the batches written to it.
\<close>

type_synonym 'op batch = "'op list \<times> bytes list"

definition seq_len :: "'op batch list \<Rightarrow> nat" where
  "seq_len l = sum_list (map (length \<circ> fst) l)"

text \<open>RocksDB keeps sequence numbers below \<open>2 ^ 56\<close> (\<open>kMaxSequenceNumber\<close>).\<close>

definition max_sequence :: nat where
  "max_sequence = 2 ^ 56"

record ('db, 'it, 'wb, 'op) rocksdb_abs =
  abs_log :: "'db \<Rightarrow> 'op batch list"
  abs_batch :: "'wb \<Rightarrow> 'op batch"
  abs_pos :: "'it \<Rightarrow> nat"

definition write_spec ::
  "('db, 'it, 'wb, 'raw) rocksdb_api \<Rightarrow> ('db, 'it, 'wb, 'op) rocksdb_abs \<Rightarrow> bool" where
  "write_spec api a \<longleftrightarrow>
    (\<forall>db wb st db'. db_Write api db wb = (st, db') \<longrightarrow>
       abs_log a db' = (if st = StOk then abs_log a db @ [abs_batch a wb] else abs_log a db)) \<and>
    (\<forall>db. seq_len (abs_log a db) < max_sequence) \<and>
    (\<forall>db. db_GetLatestSequenceNumber api db = of_nat (seq_len (abs_log a db)))"

text \<open>
  An iterator stands at a batch of the log (\<open>abs_pos\<close>): the one it delivers when it is valid, the one
  it will deliver when it becomes valid otherwise. \<open>Next\<close> on a valid iterator moves on, on an invalid
  one it retries; it may fail to become valid (a new log file).
\<close>

definition delivers ::
  "('db, 'it, 'wb, 'raw) rocksdb_api \<Rightarrow> ('db, 'it, 'wb, 'op) rocksdb_abs \<Rightarrow> 'op batch list \<Rightarrow> 'it \<Rightarrow> bool" where
  "delivers api a l it \<longleftrightarrow> abs_pos a it \<le> length l \<and>
    (it_Valid api it \<longrightarrow> abs_pos a it < length l \<and> abs_batch a (it_GetBatch api it) = l ! abs_pos a it)"

text \<open>
  \<open>GetUpdatesSince\<close> with the number after the first \<open>n\<close> batches yields an iterator at batch \<open>n\<close>. A batch
  without operations takes no sequence number, so this is stated for logs without such batches.
\<close>

definition no_empty_batch :: "'op batch list \<Rightarrow> bool" where
  "no_empty_batch l \<longleftrightarrow> (\<forall>b \<in> set l. fst b \<noteq> [])"

definition iter_spec ::
  "('db, 'it, 'wb, 'raw) rocksdb_api \<Rightarrow> ('db, 'it, 'wb, 'op) rocksdb_abs \<Rightarrow> bool" where
  "iter_spec api a \<longleftrightarrow>
    (\<forall>db it. delivers api a (abs_log a db) it \<longrightarrow> delivers api a (abs_log a db) (it_Next api db it)) \<and>
    (\<forall>db it. abs_pos a (it_Next api db it) = abs_pos a it + (if it_Valid api it then 1 else 0)) \<and>
    (\<forall>db n st it. no_empty_batch (abs_log a db) \<longrightarrow> n \<le> length (abs_log a db) \<longrightarrow>
       db_GetUpdatesSince api db (of_nat (seq_len (take n (abs_log a db)) + 1)) = (st, Some it) \<longrightarrow>
       abs_pos a it = n \<and> delivers api a (abs_log a db) it)"

definition batch_spec ::
  "('db, 'it, 'wb, 'raw) rocksdb_api \<Rightarrow> ('db, 'it, 'wb, 'op) rocksdb_abs \<Rightarrow> bool" where
  "batch_spec api a \<longleftrightarrow>
    (\<forall>wb. wb_Count api wb = of_nat (length (fst (abs_batch a wb))) \<and>
          length (fst (abs_batch a wb)) < 2 ^ 32) \<and>
    (\<forall>wb. abs_batch a (wb_of_Data api (wb_Data api wb)) = abs_batch a wb) \<and>
    (\<forall>b wb. abs_batch a (wb_PutLogData api b wb) =
       (fst (abs_batch a wb), snd (abs_batch a wb) @ [b])) \<and>
    (\<forall>wb. fst (wb_Iterate api wb) = StOk \<longrightarrow> snd (wb_Iterate api wb) = snd (abs_batch a wb))"

definition rocksdb_spec ::
  "('db, 'it, 'wb, 'raw) rocksdb_api \<Rightarrow> ('db, 'it, 'wb, 'op) rocksdb_abs \<Rightarrow> bool" where
  "rocksdb_spec api a \<longleftrightarrow> write_spec api a \<and> iter_spec api a \<and> batch_spec api a"

lemma seq_len_simps [simp]:
  "seq_len [] = 0" "seq_len (b # l) = length (fst b) + seq_len l"
  "seq_len (l @ m) = seq_len l + seq_len m"
  by (simp_all add: seq_len_def)

lemma seq_len_take_Suc: "n < length l \<Longrightarrow> seq_len (take (Suc n) l) = seq_len (take n l) + length (fst (l ! n))"
  by (simp add: take_Suc_conv_app_nth)

lemma seq_len_prefix: "prefix l m \<Longrightarrow> seq_len l \<le> seq_len m"
  by (auto simp: prefix_def)

text \<open>The consequences of the specification in the form the proofs use.\<close>

lemma rocksdb_write:
  assumes "rocksdb_spec api a" "db_Write api db wb = (st, db')"
  shows "abs_log a db' = (if st = StOk then abs_log a db @ [abs_batch a wb] else abs_log a db)"
  using assms unfolding rocksdb_spec_def write_spec_def by blast

lemma rocksdb_latest:
  assumes "rocksdb_spec api a"
  shows "db_GetLatestSequenceNumber api db = of_nat (seq_len (abs_log a db))"
    and "seq_len (abs_log a db) < max_sequence"
  using assms unfolding rocksdb_spec_def write_spec_def by blast+

lemma rocksdb_next:
  assumes "rocksdb_spec api a" "delivers api a (abs_log a db) it"
  shows "delivers api a (abs_log a db) (it_Next api db it)"
    and "abs_pos a (it_Next api db it) = abs_pos a it + (if it_Valid api it then 1 else 0)"
  using assms unfolding rocksdb_spec_def iter_spec_def by blast+

lemma rocksdb_updates_since:
  assumes "rocksdb_spec api a" "no_empty_batch (abs_log a db)" "n \<le> length (abs_log a db)"
    and "db_GetUpdatesSince api db (of_nat (seq_len (take n (abs_log a db)) + 1)) = (st, Some it)"
  shows "abs_pos a it = n \<and> delivers api a (abs_log a db) it"
  using assms unfolding rocksdb_spec_def iter_spec_def by blast

lemma rocksdb_batch:
  assumes "rocksdb_spec api a"
  shows "wb_Count api wb = of_nat (length (fst (abs_batch a wb)))"
    and "length (fst (abs_batch a wb)) < 2 ^ 32"
    and "abs_batch a (wb_of_Data api (wb_Data api wb)) = abs_batch a wb"
    and "abs_batch a (wb_PutLogData api b wb) = (fst (abs_batch a wb), snd (abs_batch a wb) @ [b])"
    and "wb_Iterate api wb = (StOk, blobs) \<Longrightarrow> blobs = snd (abs_batch a wb)"
  using assms unfolding rocksdb_spec_def batch_spec_def by (simp_all, metis fst_conv snd_conv)

lemma delivers_append: "delivers api a l it \<Longrightarrow> delivers api a (l @ m) it"
  by (auto simp: delivers_def nth_append)

lemma no_empty_batch_append [simp]: "no_empty_batch (l @ m) \<longleftrightarrow> no_empty_batch l \<and> no_empty_batch m"
  by (auto simp: no_empty_batch_def)

text \<open>In a log without empty batches a position is determined by its sequence number.\<close>

lemma seq_len_take_less:
  assumes "no_empty_batch l" "i < j" "j \<le> length l"
  shows "seq_len (take i l) < seq_len (take j l)"
proof -
  have "l ! i \<in> set l" using assms by simp
  then have "0 < length (fst (l ! i))" using assms(1) by (auto simp: no_empty_batch_def)
  then have "seq_len (take i l) < seq_len (take (Suc i) l)"
    using assms by (simp add: seq_len_take_Suc)
  also have "\<dots> \<le> seq_len (take j l)"
    using assms by (intro seq_len_prefix) (metis Suc_leI take_is_prefix min.absorb1 take_take)
  finally show ?thesis .
qed

lemma seq_len_take_inj:
  assumes "no_empty_batch l" "i \<le> length l" "j \<le> length l" "seq_len (take i l) = seq_len (take j l)"
  shows "i = j"
  using seq_len_take_less [of l i j] seq_len_take_less [of l j i] assms by (metis less_irrefl nat_neq_iff)

lemma seq_len_take_le: "seq_len (take n l) \<le> seq_len l"
  by (intro seq_len_prefix take_is_prefix)

lemma of_nat_seq_inj:
  assumes "m < max_sequence" "n < max_sequence" "(of_nat (m + 1) :: u64) = of_nat (n + 1)"
  shows "m = n"
proof -
  have "unat (of_nat (m + 1) :: u64) = unat (of_nat (n + 1) :: u64)" using assms(3) by simp
  with assms(1,2) show ?thesis
    using unat_of_nat_small [of "m + 1", where 'a = 64] unat_of_nat_small [of "n + 1", where 'a = 64]
    by (simp add: max_sequence_def)
qed

section \<open>Timestamps\<close>

text \<open>
  \<open>Write\<close> stores the address range of a \<open>uint64_t\<close>, \<open>LogExtractor\<close> copies such a range back; the
  machine is little endian.
\<close>

unbundle bit_operations_syntax

primrec le_bytes :: "nat \<Rightarrow> u64 \<Rightarrow> bytes" where
  "le_bytes 0 w = []"
| "le_bytes (Suc n) w = ucast w # le_bytes n (drop_bit 8 w)"

definition u64_bytes :: "u64 \<Rightarrow> bytes" where
  "u64_bytes ms = le_bytes 8 ms"

definition bytes_u64 :: "bytes \<Rightarrow> u64" where
  "bytes_u64 bs = foldr (\<lambda>b w. ucast b OR push_bit 8 w) bs 0"

lemma length_le_bytes: "length (le_bytes n w) = n"
  by (induction n arbitrary: w) auto

lemma bytes_u64_le_bytes: "bytes_u64 (le_bytes n w) = take_bit (8 * n) w"
proof (induction n arbitrary: w)
  case (Suc n)
  have "ucast (ucast w :: u8) OR push_bit 8 (take_bit (8 * n) (drop_bit 8 w)) = take_bit (8 * Suc n) w"
    by (rule bit_word_eqI) (auto simp: bit_simps)
  with Suc show ?case by (simp add: bytes_u64_def)
qed (simp add: bytes_u64_def)

lemma length_u64_bytes [simp]: "length (u64_bytes ms) = 8"
  by (simp add: u64_bytes_def length_le_bytes)

lemma bytes_u64_inverse [simp]: "bytes_u64 (u64_bytes ms) = ms"
  by (simp add: u64_bytes_def bytes_u64_le_bytes take_bit_word_eq_self)

section \<open>The specification can be met\<close>

text \<open>
  A database as the list of its batches, bounded as the specification asks, and iterators as positions.
  It shows that \<open>rocksdb_spec\<close> is satisfiable and serves the examples.
\<close>

type_synonym list_db = "nat batch list"
type_synonym list_it = "nat \<times> nat batch option"

definition list_batch :: "nat batch \<Rightarrow> nat batch" where
  "list_batch b = (if length (fst b) < 2 ^ 32 then fst b else [], snd b)"

definition list_log :: "list_db \<Rightarrow> nat batch list" where
  "list_log db = (let l = map list_batch db in if seq_len l < max_sequence then l else [])"

definition list_at :: "nat batch list \<Rightarrow> nat \<Rightarrow> list_it" where
  "list_at l n = (n, if n < length l then Some (l ! n) else None)"

definition list_position :: "nat batch list \<Rightarrow> u64 \<Rightarrow> nat option" where
  "list_position l seq = find (\<lambda>n. of_nat (seq_len (take n l) + 1) = seq) [0..<Suc (length l)]"

definition list_api :: "(list_db, list_it, nat batch, nat batch) rocksdb_api" where
  "list_api = \<lparr>
     db_Write = (\<lambda>db wb. let l = list_log db @ [list_batch wb] in
       if seq_len l < max_sequence then (StOk, l) else (StError ''full'', db)),
     db_GetLatestSequenceNumber = (\<lambda>db. of_nat (seq_len (list_log db))),
     db_GetUpdatesSince = (\<lambda>db seq. case list_position (list_log db) seq of
         None \<Rightarrow> (StNotFound, None) | Some n \<Rightarrow> (StOk, Some (list_at (list_log db) n))),
     it_Valid = (\<lambda>it. snd it \<noteq> None),
     it_Next = (\<lambda>db it. list_at (list_log db) (if snd it \<noteq> None then fst it + 1 else fst it)),
     it_GetBatch = (\<lambda>it. the (snd it)),
     wb_Count = (\<lambda>wb. of_nat (length (fst (list_batch wb)))),
     wb_Data = (\<lambda>wb. wb), wb_of_Data = (\<lambda>raw. raw),
     wb_PutLogData = (\<lambda>b wb. (fst wb, snd wb @ [b])),
     wb_GetDataSize = (\<lambda>wb. of_nat (length (fst wb))),
     wb_Iterate = (\<lambda>wb. (StOk, snd wb)),
     raw_size = (\<lambda>raw. of_nat (length (fst raw)))\<rparr>"

definition list_abs :: "(list_db, list_it, nat batch, nat) rocksdb_abs" where
  "list_abs = \<lparr>abs_log = list_log, abs_batch = list_batch, abs_pos = fst\<rparr>"

lemma list_batch_idem [simp]: "list_batch (list_batch b) = list_batch b"
  by (simp add: list_batch_def)

lemma list_log_bound: "seq_len (list_log db) < max_sequence"
  by (simp add: list_log_def Let_def max_sequence_def)

lemma list_log_nth: "n < length (list_log db) \<Longrightarrow> list_batch (list_log db ! n) = list_log db ! n"
  by (auto simp: list_log_def Let_def split: if_splits)

lemma list_log_append:
  "seq_len (list_log db @ [list_batch wb]) < max_sequence \<Longrightarrow>
     list_log (list_log db @ [list_batch wb]) = list_log db @ [list_batch wb]"
  by (auto simp: list_log_def Let_def o_def split: if_splits)

lemma list_position_Some:
  assumes "list_position l (1 + of_nat (seq_len (take n l))) = Some k"
    and "no_empty_batch l" "n \<le> length l" "seq_len l < max_sequence"
  shows "k = n"
proof -
  from assms(1) have k: "k \<le> length l" "(of_nat (seq_len (take k l) + 1) :: u64) = of_nat (seq_len (take n l) + 1)"
    unfolding list_position_def
    by (auto simp: find_Some_iff less_Suc_eq_le add.commute simp del: upt_Suc)
  have "seq_len (take m l) < max_sequence" for m using seq_len_take_le [of m l] assms(4) by simp
  with of_nat_seq_inj k(2) have "seq_len (take k l) = seq_len (take n l)" by blast
  then show ?thesis using seq_len_take_inj [OF assms(2) k(1) assms(3)] by simp
qed

lemma list_api_write: "write_spec list_api list_abs"
  unfolding write_spec_def
  by (auto simp: list_api_def list_abs_def Let_def list_log_bound list_log_append split: if_splits)

lemma list_api_iter: "iter_spec list_api list_abs"
  unfolding iter_spec_def
  by (auto simp: list_api_def list_abs_def list_at_def delivers_def list_log_nth list_log_bound
      split: option.splits if_splits dest: list_position_Some [OF _ _ _ list_log_bound])

lemma list_api_batch: "batch_spec list_api list_abs"
  unfolding batch_spec_def
  by (auto simp: list_api_def list_abs_def list_batch_def)

lemma list_api_spec: "rocksdb_spec list_api list_abs"
  by (simp add: rocksdb_spec_def list_api_write list_api_iter list_api_batch)

end
