(* ===== verification/Max_Number_Box.thy ===== *)
theory Max_Number_Box
  imports Prelude
begin

text \<open>
  \<open>rocksdb_replicator/max_number_box.{h,cpp}\<close>: the box in which a master collects the largest
  sequence number a slave has acknowledged, and on which writing threads block in replication
  modes 1 and 2.

  A \<open>Waiter\<close> is thread local, so a pointer to it is the thread's name and its field
  \<open>num_to_wait\<close> is a map from threads. \<open>post\<close> and the pieces of \<open>wait\<close> that run while the mutex is
  held are functions; the interleavings of posts, calls, notifications delivered after the mutex
  was released, spurious wake-ups and timeouts are the steps of \<open>box_step\<close>.
\<close>

section \<open>The operations\<close>

record max_number_box =
  max_number :: u64
  waiters :: "tid list"

definition MaxNumberBox_ctor :: "u64 \<Rightarrow> max_number_box" where
  "MaxNumberBox_ctor init_num = \<lparr>max_number = init_num, waiters = []\<rparr>"

text \<open>The destructor checks that nobody waits; \<open>None\<close> is the failed \<open>CHECK\<close>.\<close>

definition MaxNumberBox_dtor :: "max_number_box \<Rightarrow> unit option" where
  "MaxNumberBox_dtor b = (if waiters b = [] then Some () else None)"

text \<open>
  \<open>post\<close>: the new box and the waiters to notify once the mutex is released.
\<close>

definition MaxNumberBox_post ::
  "(tid \<Rightarrow> u64) \<Rightarrow> u64 \<Rightarrow> max_number_box \<Rightarrow> max_number_box \<times> tid list" where
  "MaxNumberBox_post num_to_wait num b =
    (if num \<le> max_number b then (b, [])
     else let b = b\<lparr>max_number := num\<rparr> in
       if waiters b = [] then (b, [])
       else let (waiters_to_notify, waiters_to_wait) =
                  partition (\<lambda>w. num_to_wait w \<le> max_number b) (waiters b)
            in (b\<lparr>waiters := waiters_to_wait\<rparr>, waiters_to_notify))"

text \<open>
  \<open>wait\<close> up to the point where the thread sleeps on its condition variable: it returns at once,
  or it has registered itself and must sleep.
\<close>

datatype wait_entry = WaitReturns bool | WaitSleeps

definition MaxNumberBox_wait_enter ::
  "tid \<Rightarrow> u64 \<Rightarrow> max_number_box \<Rightarrow> (tid \<Rightarrow> u64) \<Rightarrow> wait_entry \<times> max_number_box \<times> (tid \<Rightarrow> u64)" where
  "MaxNumberBox_wait_enter me num b num_to_wait =
    (if num \<le> max_number b then (WaitReturns True, b, num_to_wait)
     else (WaitSleeps, b\<lparr>waiters := waiters b @ [me]\<rparr>, num_to_wait(me := num)))"

text \<open>The predicate handed to \<open>cv.wait\<close> and \<open>cv.wait_for\<close>.\<close>

definition MaxNumberBox_wait_pred :: "u64 \<Rightarrow> max_number_box \<Rightarrow> bool" where
  "MaxNumberBox_wait_pred num b \<longleftrightarrow> num \<le> max_number b"

text \<open>
  \<open>wait\<close> when \<open>wait_for\<close> comes back at its deadline: the predicate is evaluated once more, and when it
  is still false the waiter removes itself. \<open>None\<close> is the failed \<open>CHECK\<close> that the number is above
  the maximum and that exactly one entry was removed.
\<close>

definition MaxNumberBox_wait_deadline ::
  "tid \<Rightarrow> u64 \<Rightarrow> max_number_box \<Rightarrow> (bool \<times> max_number_box) option" where
  "MaxNumberBox_wait_deadline me num b =
    (if MaxNumberBox_wait_pred num b then Some (True, b)
     else let new_waiters = filter (\<lambda>w. w \<noteq> me) (waiters b) in
       if num > max_number b \<and> length (waiters b) - length new_waiters = 1
       then Some (False, b\<lparr>waiters := new_waiters\<rparr>)
       else None)"

section \<open>Interleavings\<close>

text \<open>
  A thread is outside \<open>wait\<close>, asleep on its condition variable, or woken and about to take the
  mutex again. \<open>outstanding\<close> are the threads some \<open>post\<close> still has to call \<open>notify_one\<close> for;
  \<open>posted\<close> and \<open>returned\<close> record the calls for the statements, and \<open>check_failed\<close> an aborted process.
\<close>

datatype wait_pc = Outside | Asleep u64 u64 | Woken u64 u64

record box_sys =
  box :: max_number_box
  num_to_wait :: "tid \<Rightarrow> u64"
  wait_pc :: "tid \<Rightarrow> wait_pc"
  outstanding :: "tid list"
  posted :: "u64 list"
  returned :: "(tid \<times> u64 \<times> bool) list"
  check_failed :: bool

definition box_init :: "u64 \<Rightarrow> box_sys \<Rightarrow> bool" where
  "box_init n s \<longleftrightarrow> box s = MaxNumberBox_ctor n \<and> (\<forall>t. wait_pc s t = Outside) \<and> outstanding s = [] \<and>
     posted s = [] \<and> returned s = [] \<and> \<not> check_failed s"

definition do_post :: "u64 \<Rightarrow> box_sys \<Rightarrow> box_sys" where
  "do_post num s = (let (b, ws) = MaxNumberBox_post (num_to_wait s) num (box s) in
     s\<lparr>box := b, outstanding := outstanding s @ ws, posted := posted s @ [num]\<rparr>)"

definition do_call :: "tid \<Rightarrow> u64 \<Rightarrow> u64 \<Rightarrow> box_sys \<Rightarrow> box_sys" where
  "do_call t num timeout_ms s =
    (case MaxNumberBox_wait_enter t num (box s) (num_to_wait s) of
       (WaitReturns r, b, ntw) \<Rightarrow>
         s\<lparr>box := b, num_to_wait := ntw, returned := (t, num, r) # returned s\<rparr>
     | (WaitSleeps, b, ntw) \<Rightarrow>
         s\<lparr>box := b, num_to_wait := ntw, wait_pc := (wait_pc s)(t := Asleep num timeout_ms)\<rparr>)"

fun wake :: "wait_pc \<Rightarrow> wait_pc" where
  "wake (Asleep num tmo) = Woken num tmo"
| "wake pc = pc"

definition do_notify :: "tid \<Rightarrow> box_sys \<Rightarrow> box_sys" where
  "do_notify t s = s\<lparr>outstanding := remove1 t (outstanding s),
                     wait_pc := (wait_pc s)(t := wake (wait_pc s t))\<rparr>"

definition do_recheck :: "tid \<Rightarrow> u64 \<Rightarrow> u64 \<Rightarrow> box_sys \<Rightarrow> box_sys" where
  "do_recheck t num tmo s =
    (if MaxNumberBox_wait_pred num (box s)
     then s\<lparr>wait_pc := (wait_pc s)(t := Outside), returned := (t, num, True) # returned s\<rparr>
     else s\<lparr>wait_pc := (wait_pc s)(t := Asleep num tmo)\<rparr>)"

definition do_deadline :: "tid \<Rightarrow> u64 \<Rightarrow> box_sys \<Rightarrow> box_sys" where
  "do_deadline t num s =
    (case MaxNumberBox_wait_deadline t num (box s) of
       None \<Rightarrow> s\<lparr>check_failed := True\<rparr>
     | Some (r, b) \<Rightarrow> s\<lparr>box := b, wait_pc := (wait_pc s)(t := Outside),
                        returned := (t, num, r) # returned s\<rparr>)"

inductive box_step :: "box_sys \<Rightarrow> box_sys \<Rightarrow> bool" where
  post: "box_step s (do_post num s)"
| call: "wait_pc s t = Outside \<Longrightarrow> box_step s (do_call t num tmo s)"
| notify: "t \<in> set (outstanding s) \<Longrightarrow> box_step s (do_notify t s)"
| spurious: "wait_pc s t = Asleep num tmo \<Longrightarrow> box_step s (s\<lparr>wait_pc := (wait_pc s)(t := Woken num tmo)\<rparr>)"
| recheck: "wait_pc s t = Woken num tmo \<Longrightarrow> box_step s (do_recheck t num tmo s)"
| deadline: "wait_pc s t = Asleep num tmo \<or> wait_pc s t = Woken num tmo \<Longrightarrow> tmo \<noteq> 0 \<Longrightarrow>
    box_step s (do_deadline t num s)"

text \<open>
  The invariant: the box holds the maximum of the initial and the posted numbers; the waiters are
  exactly the threads blocked on a number above it; and a sleeping thread whose number has been
  reached is owed a notification.
\<close>

definition waiter_ok :: "max_number_box \<Rightarrow> (tid \<Rightarrow> u64) \<Rightarrow> tid list \<Rightarrow> tid \<Rightarrow> wait_pc \<Rightarrow> bool" where
  "waiter_ok b ntw out t pc \<longleftrightarrow>
    (case pc of
       Outside \<Rightarrow> t \<notin> set (waiters b)
     | Asleep num tmo \<Rightarrow> ntw t = num \<and> (t \<in> set (waiters b) \<longleftrightarrow> max_number b < num) \<and>
                        (num \<le> max_number b \<longrightarrow> t \<in> set out)
     | Woken num tmo \<Rightarrow> ntw t = num \<and> (t \<in> set (waiters b) \<longleftrightarrow> max_number b < num))"

definition box_inv :: "u64 \<Rightarrow> box_sys \<Rightarrow> bool" where
  "box_inv n s \<longleftrightarrow>
     max_number (box s) = fold max (posted s) n \<and>
     distinct (waiters (box s)) \<and>
     (\<forall>t. waiter_ok (box s) (num_to_wait s) (outstanding s) t (wait_pc s t)) \<and>
     (\<forall>(t, num, r) \<in> set (returned s). r \<longrightarrow> num \<le> max_number (box s)) \<and>
     \<not> check_failed s"

lemmas box_defs = MaxNumberBox_wait_pred_def MaxNumberBox_wait_enter_def MaxNumberBox_wait_deadline_def
  do_call_def do_notify_def do_recheck_def do_deadline_def

lemma MaxNumberBox_post_eq:
  "MaxNumberBox_post ntw num b =
     (if num \<le> max_number b then (b, [])
      else (b\<lparr>max_number := num, waiters := [w \<leftarrow> waiters b. num < ntw w]\<rparr>,
            [w \<leftarrow> waiters b. ntw w \<le> num]))"
  by (cases b) (auto simp: MaxNumberBox_post_def Let_def o_def not_le)

lemma waiter_ok_simps [simp]:
  "waiter_ok b ntw out t Outside \<longleftrightarrow> t \<notin> set (waiters b)"
  "waiter_ok b ntw out t (Asleep num tmo) \<longleftrightarrow>
     ntw t = num \<and> (t \<in> set (waiters b) \<longleftrightarrow> max_number b < num) \<and> (num \<le> max_number b \<longrightarrow> t \<in> set out)"
  "waiter_ok b ntw out t (Woken num tmo) \<longleftrightarrow>
     ntw t = num \<and> (t \<in> set (waiters b) \<longleftrightarrow> max_number b < num)"
  by (simp_all add: waiter_ok_def)

lemma box_inv_waiter: "box_inv n s \<Longrightarrow> waiter_ok (box s) (num_to_wait s) (outstanding s) t (wait_pc s t)"
  by (simp add: box_inv_def)

text \<open>A step of one thread keeps the invariant when it leaves the other threads' entries alone.\<close>

lemma box_inv_thread:
  assumes inv: "box_inv n s"
    and frame: "posted s' = posted s" "max_number (box s') = max_number (box s)"
      "\<And>u. u \<noteq> t \<Longrightarrow> wait_pc s' u = wait_pc s u \<and> num_to_wait s' u = num_to_wait s u \<and>
        (u \<in> set (waiters (box s')) \<longleftrightarrow> u \<in> set (waiters (box s))) \<and>
        (u \<in> set (outstanding s) \<longrightarrow> u \<in> set (outstanding s'))"
    and own: "distinct (waiters (box s'))" "\<not> check_failed s'"
      "waiter_ok (box s') (num_to_wait s') (outstanding s') t (wait_pc s' t)"
      "\<forall>(u, num, r) \<in> set (returned s') - set (returned s). r \<longrightarrow> num \<le> max_number (box s)"
  shows "box_inv n s'"
proof -
  have "waiter_ok (box s') (num_to_wait s') (outstanding s') u (wait_pc s' u)" for u
    using box_inv_waiter [OF inv, of u] frame(2,3) own(3)
    by (cases "u = t"; cases "wait_pc s u") auto
  with inv frame(1,2) own(1,2,4) show ?thesis by (fastforce simp: box_inv_def)
qed

lemma box_inv_post:
  assumes "box_inv n s"
  shows "box_inv n (do_post num s)"
proof -
  let ?s = "do_post num s"
  have "waiter_ok (box ?s) (num_to_wait ?s) (outstanding ?s) t (wait_pc ?s t)" for t
    using box_inv_waiter [OF assms, of t]
    by (cases "wait_pc s t") (auto simp: do_post_def MaxNumberBox_post_eq not_le)
  moreover have "max_number (box ?s) = max num (max_number (box s))"
    by (auto simp: do_post_def MaxNumberBox_post_eq max_def)
  moreover have "posted ?s = posted s @ [num]" "returned ?s = returned s"
      "check_failed ?s = check_failed s" "distinct (waiters (box ?s)) \<or> \<not> distinct (waiters (box s))"
    by (auto simp: do_post_def MaxNumberBox_post_eq)
  ultimately show ?thesis
    using assms by (auto simp: box_inv_def le_max_iff_disj)
qed

lemma box_inv_distinct: "box_inv n s \<Longrightarrow> distinct (waiters (box s))"
  by (simp add: box_inv_def)

lemma box_inv_not_failed: "box_inv n s \<Longrightarrow> \<not> check_failed s"
  by (simp add: box_inv_def)

lemma box_inv_call:
  assumes "box_inv n s" "wait_pc s t = Outside"
  shows "box_inv n (do_call t num tmo s)"
  using box_inv_waiter [OF assms(1), of t] assms
  by (intro box_inv_thread [OF assms(1), where t = t]) (auto simp: box_defs box_inv_distinct box_inv_not_failed)

lemma box_inv_wake:
  assumes "box_inv n s"
  shows "box_inv n (do_notify t s)" "box_inv n (s\<lparr>wait_pc := (wait_pc s)(t := wake (wait_pc s t))\<rparr>)"
  using box_inv_waiter [OF assms, of t] assms
  by (intro box_inv_thread [OF assms, where t = t]; cases "wait_pc s t"; auto simp: box_defs box_inv_distinct box_inv_not_failed)+

lemma box_inv_recheck:
  assumes "box_inv n s" "wait_pc s t = Woken num tmo"
  shows "box_inv n (do_recheck t num tmo s)"
  using box_inv_waiter [OF assms(1), of t] assms
  by (intro box_inv_thread [OF assms(1), where t = t]) (auto simp: box_defs box_inv_distinct box_inv_not_failed)

lemma box_inv_deadline:
  assumes "box_inv n s" "wait_pc s t = Asleep num tmo \<or> wait_pc s t = Woken num tmo"
  shows "box_inv n (do_deadline t num s)"
proof -
  let ?new = "filter (\<lambda>w. w \<noteq> t) (waiters (box s))"
  have ok: "t \<in> set (waiters (box s)) \<longleftrightarrow> max_number (box s) < num"
    using box_inv_waiter [OF assms(1), of t] assms(2) by auto
  have "do_deadline t num s = s\<lparr>box := if num \<le> max_number (box s) then box s else box s\<lparr>waiters := ?new\<rparr>,
      wait_pc := (wait_pc s)(t := Outside), returned := (t, num, num \<le> max_number (box s)) # returned s\<rparr>"
    using ok filter_neq_length [of "waiters (box s)" t] assms(1)
    by (auto simp: box_defs Let_def box_inv_distinct)
  then show ?thesis
    by (simp only:) (rule box_inv_thread [OF assms(1), where t = t]; use ok assms in \<open>auto simp: not_less box_inv_distinct box_inv_not_failed\<close>)
qed

lemma box_inv_step: "box_step s s' \<Longrightarrow> box_inv n s \<Longrightarrow> box_inv n s'"
proof (induction rule: box_step.induct)
  case (spurious s t num tmo)
  then show ?case using box_inv_wake(2) [of n s t] by simp
qed (rule box_inv_post box_inv_call box_inv_wake(1) box_inv_recheck box_inv_deadline, assumption+)+

interpretation boxes: invariant_system "box_init n" box_step "box_inv n" for n
  by unfold_locales
    (simp add: box_init_def box_inv_def MaxNumberBox_ctor_def, rule box_inv_step)

section \<open>Properties\<close>

text \<open>
  \<open>post\<close> keeps the maximum of the old and the posted number, wakes exactly the waiters whose
  number has been reached by it, keeps the others registered in their order, and loses none.
\<close>

theorem MaxNumberBox_post_correct:
  assumes "MaxNumberBox_post ntw num b = (b', to_notify)"
    and "\<forall>w \<in> set (waiters b). max_number b < ntw w"
  shows "max_number b' = max (max_number b) num \<and>
    waiters b' = [w \<leftarrow> waiters b. max_number b' < ntw w] \<and>
    to_notify = [w \<leftarrow> waiters b. ntw w \<le> max_number b'] \<and>
    mset (waiters b') + mset to_notify = mset (waiters b)"
proof -
  have "mset [w \<leftarrow> waiters b. num < ntw w] + mset [w \<leftarrow> waiters b. ntw w \<le> num] = mset (waiters b)"
    using multiset_partition [of "mset (waiters b)" "\<lambda>w. num < ntw w"] by (simp add: not_less)
  with assms show ?thesis
    by (auto simp: MaxNumberBox_post_eq max_def not_le filter_empty_conv filter_id_conv
        split: if_splits)
qed

theorem MaxNumberBox_post_correct_witness:
  "max_number (fst (MaxNumberBox_post (\<lambda>w. of_nat w) 7 \<lparr>max_number = 5, waiters = [9, 6, 7]\<rparr>)) = 7"
  using MaxNumberBox_post_correct [of "\<lambda>w. of_nat w" 7 "\<lparr>max_number = 5, waiters = [9, 6, 7]\<rparr>"
      "\<lparr>max_number = 7, waiters = [9]\<rparr>" "[6, 7]"]
  by (simp add: MaxNumberBox_post_def)

text \<open>A concrete run: thread 1 waits for 7, number 9 is posted, the notification is outstanding.\<close>

definition box_example :: box_sys where
  "box_example = do_post 9 (do_call 1 7 0
     \<lparr>box = MaxNumberBox_ctor 5, num_to_wait = (\<lambda>_. 0), wait_pc = (\<lambda>_. Outside), outstanding = [],
      posted = [], returned = [], check_failed = False\<rparr>)"

lemma box_example_eq:
  "box_example = \<lparr>box = \<lparr>max_number = 9, waiters = []\<rparr>, num_to_wait = (\<lambda>_. 0)(1 := 7),
     wait_pc = (\<lambda>_. Outside)(1 := Asleep 7 0), outstanding = [1], posted = [9], returned = [],
     check_failed = False\<rparr>"
  by (simp add: box_example_def do_post_def MaxNumberBox_post_def do_call_def
      MaxNumberBox_wait_enter_def MaxNumberBox_ctor_def)

lemma box_example_reach: "reach (box_init 5) box_step box_example"
  unfolding box_example_def
  by (rule reach_step [rotated], rule box_step.post, rule reach_step [rotated], rule box_step.call,
      simp, rule reach_init) (simp add: box_init_def)

text \<open>
  (C37) However posts, waits, notifications, spurious wake-ups and timeouts interleave, the box
  holds the maximum of its initial number and everything posted, the \<open>CHECK\<close> of a timed out wait
  never fails, and a wait that returned true had its number reached by the initial number or a
  post.
\<close>

theorem MaxNumberBox_wait_sound:
  assumes "reach (box_init n) box_step s"
  shows "max_number (box s) = fold max (posted s) n \<and> \<not> check_failed s \<and>
    (\<forall>t num. (t, num, True) \<in> set (returned s) \<longrightarrow> (\<exists>m \<in> insert n (set (posted s)). num \<le> m))"
  using boxes.reach_inv [OF assms] fold_max_attained [of "posted s" n]
  by (fastforce simp: box_inv_def)

theorem MaxNumberBox_wait_sound_witness: "max_number (box box_example) = fold max (posted box_example) 5"
  using MaxNumberBox_wait_sound [OF box_example_reach] by simp

text \<open>
  (C36) No wake-up is lost: a thread asleep in \<open>wait\<close> whose number has been reached is owed a
  notification by some post, and when that is delivered the thread returns true, whatever its
  timeout.
\<close>

theorem MaxNumberBox_no_lost_wakeup:
  assumes "reach (box_init n) box_step s" "wait_pc s t = Asleep num tmo" "num \<le> max_number (box s)"
  shows "t \<in> set (outstanding s) \<and>
    (\<exists>s' s''. box_step s s' \<and> box_step s' s'' \<and> wait_pc s'' t = Outside \<and>
      returned s'' = (t, num, True) # returned s)"
proof -
  have owed: "t \<in> set (outstanding s)"
    using box_inv_waiter [OF boxes.reach_inv [OF assms(1)], of t] assms(2,3) by simp
  let ?s' = "do_notify t s"
  have "box_step ?s' (do_recheck t num tmo ?s')"
    by (rule box_step.recheck) (simp add: do_notify_def assms)
  moreover have "box_step s ?s'" using owed by (rule box_step.notify)
  moreover have "wait_pc (do_recheck t num tmo ?s') t = Outside"
    and "returned (do_recheck t num tmo ?s') = (t, num, True) # returned s"
    by (simp_all add: box_defs assms)
  ultimately show ?thesis using owed by blast
qed

theorem MaxNumberBox_no_lost_wakeup_witness: "(1 :: tid) \<in> set (outstanding box_example)"
  using MaxNumberBox_no_lost_wakeup [OF box_example_reach, of 1 7 0] by (simp add: box_example_eq)

text \<open>
  Once no thread is inside \<open>wait\<close> the box can be destroyed: the \<open>CHECK\<close> of the destructor holds.
\<close>

theorem MaxNumberBox_dtor_ok:
  assumes "reach (box_init n) box_step s" "\<And>t. wait_pc s t = Outside"
  shows "MaxNumberBox_dtor (box s) = Some ()"
proof -
  have "t \<notin> set (waiters (box s))" for t
    using box_inv_waiter [OF boxes.reach_inv [OF assms(1)], of t] assms(2) by simp
  then show ?thesis by (cases "waiters (box s)") (auto simp: MaxNumberBox_dtor_def)
qed

theorem MaxNumberBox_dtor_ok_witness:
  "MaxNumberBox_dtor (box (do_recheck 1 7 0 (do_notify 1 box_example))) = Some ()"
proof (rule MaxNumberBox_dtor_ok [of 5])
  show "reach (box_init 5) box_step (do_recheck 1 7 0 (do_notify 1 box_example))"
    by (rule reach_step [OF reach_step [OF box_example_reach box_step.notify] box_step.recheck])
      (simp_all add: box_example_eq do_notify_def)
qed (simp add: box_example_eq box_defs)

end
