(* ===== verification/Non_Blocking_CV.thy ===== *)
theory Non_Blocking_CV
  imports Prelude
begin

text \<open>
  \<open>rocksdb_replicator/non_blocking_condition_variable.h\<close>: tasks that wait for a condition without
  holding a thread. A master parks the replication requests of its slaves on one and wakes them
  with \<open>notifyAll\<close> after every write.

  A call of \<open>runIfConditionOrWaitForNotify\<close> is named by a number, which also names its \<open>Task\<close> and
  the function it submits; the executor is the list of functions added to it. The predicate of a
  call is a bit of the environment that may become true at any time; whoever makes it true owes a
  \<open>notifyAll\<close>.
\<close>

section \<open>The operations\<close>

record nbcv =
  cv_tasks :: "nat list"
  has_done :: "nat set"
  executor :: "nat list"

definition NBCV_ctor :: nbcv where
  "NBCV_ctor = \<lparr>cv_tasks = [], has_done = {}, executor = []\<rparr>"

text \<open>\<open>should_i_run\<close> is an atomic exchange: true for the first caller only.\<close>

definition Task_should_i_run :: "nat \<Rightarrow> nbcv \<Rightarrow> bool \<times> nbcv" where
  "Task_should_i_run c cv = (c \<notin> has_done cv, cv\<lparr>has_done := insert c (has_done cv)\<rparr>)"

definition executor_add :: "nat \<Rightarrow> nbcv \<Rightarrow> nbcv" where
  "executor_add c cv = cv\<lparr>executor := executor cv @ [c]\<rparr>"

text \<open>The body that \<open>runATaskList\<close>, the recheck and the timer share.\<close>

definition run_once :: "nat \<Rightarrow> nbcv \<Rightarrow> nbcv" where
  "run_once c cv = (let (mine, cv) = Task_should_i_run c cv in if mine then executor_add c cv else cv)"

fun NBCV_runATaskList :: "nat list \<Rightarrow> nbcv \<Rightarrow> nbcv" where
  "NBCV_runATaskList [] cv = cv"
| "NBCV_runATaskList (c # tasks) cv = NBCV_runATaskList tasks (run_once c cv)"

text \<open>\<open>runIfConditionOrWaitForNotify\<close>, cut where other threads can intervene: the first test of the
  predicate, the insertion under the mutex, and the second test with the registration of the timer.\<close>

definition NBCV_first_test :: "bool \<Rightarrow> nat \<Rightarrow> nbcv \<Rightarrow> bool \<times> nbcv" where
  "NBCV_first_test p c cv = (if p then (True, executor_add c cv) else (False, cv))"

definition NBCV_push :: "nat \<Rightarrow> nbcv \<Rightarrow> nbcv" where
  "NBCV_push c cv = cv\<lparr>cv_tasks := c # cv_tasks cv\<rparr>"

definition NBCV_second_test :: "bool \<Rightarrow> nat \<Rightarrow> u64 \<Rightarrow> nbcv \<Rightarrow> bool \<times> nbcv" where
  "NBCV_second_test p c timeout_ms cv =
    (if p then
       let (mine, cv) = Task_should_i_run c cv in
       if mine then (False, executor_add c cv) else (timeout_ms > 0, cv)
     else (timeout_ms > 0, cv))"

text \<open>The whole call when nobody intervenes; the result says whether a timer was registered.\<close>

definition NBCV_runIfConditionOrWaitForNotify :: "bool \<Rightarrow> bool \<Rightarrow> nat \<Rightarrow> u64 \<Rightarrow> nbcv \<Rightarrow> bool \<times> nbcv" where
  "NBCV_runIfConditionOrWaitForNotify p p' c timeout_ms cv =
    (let (ran, cv) = NBCV_first_test p c cv in
     if ran then (False, cv) else NBCV_second_test p' c timeout_ms (NBCV_push c cv))"

text \<open>The timer holds a \<open>weak_ptr\<close>: a task nothing refers to any more is gone.\<close>

definition NBCV_timer :: "bool \<Rightarrow> nat \<Rightarrow> nbcv \<Rightarrow> nbcv" where
  "NBCV_timer alive c cv = (if alive then run_once c cv else cv)"

text \<open>\<open>notifyAll\<close>: the swap under the mutex; the list it returns is then run without it.\<close>

definition NBCV_notifyAll_swap :: "nbcv \<Rightarrow> nat list \<times> nbcv" where
  "NBCV_notifyAll_swap cv = (cv_tasks cv, cv\<lparr>cv_tasks := []\<rparr>)"

definition NBCV_notifyAll :: "nbcv \<Rightarrow> nbcv" where
  "NBCV_notifyAll cv = (let (local_tasks, cv) = NBCV_notifyAll_swap cv in NBCV_runATaskList local_tasks cv)"

definition NBCV_dtor :: "nbcv \<Rightarrow> nbcv" where
  "NBCV_dtor cv = NBCV_runATaskList (cv_tasks cv) (cv\<lparr>cv_tasks := []\<rparr>)"

lemma run_once_eq:
  "run_once c cv = (if c \<in> has_done cv then cv
     else cv\<lparr>has_done := insert c (has_done cv), executor := executor cv @ [c]\<rparr>)"
  by (cases cv) (auto simp: run_once_def Task_should_i_run_def executor_add_def insert_absorb)

lemma NBCV_runATaskList_eq:
  "distinct cs \<Longrightarrow> NBCV_runATaskList cs cv =
     cv\<lparr>has_done := has_done cv \<union> set cs, executor := executor cv @ [c \<leftarrow> cs. c \<notin> has_done cv]\<rparr>"
proof (induction cs arbitrary: cv)
  case (Cons c cs)
  then have "[x \<leftarrow> cs. x \<noteq> c \<and> x \<notin> has_done cv] = [x \<leftarrow> cs. x \<notin> has_done cv]"
    by (intro filter_cong) auto
  with Cons show ?case by (cases cv) (auto simp: run_once_eq insert_absorb)
qed simp

section \<open>Interleavings\<close>

text \<open>
  A call has tested its predicate once (\<open>Tested\<close>), is in the list (\<open>Pushed\<close>), or has returned.
  \<open>running\<close> are the lists the active \<open>notifyAll\<close> calls still have to go through, one per thread;
  \<open>cond\<close> the calls whose predicate holds, and \<open>owed\<close> counts the changes of \<open>cond\<close> whose \<open>notifyAll\<close> has
  not started.
\<close>

datatype call_pc = Uncalled | Tested u64 | Pushed u64 | Returned

record cv_sys =
  cv :: nbcv
  call_pc :: "nat \<Rightarrow> call_pc"
  running :: "tid \<Rightarrow> nat list"
  timers :: "nat set"
  cond :: "nat set"
  owed :: nat
  destroyed :: bool

definition cv_init :: "cv_sys \<Rightarrow> bool" where
  "cv_init s \<longleftrightarrow> cv s = NBCV_ctor \<and> (\<forall>c. call_pc s c = Uncalled) \<and> (\<forall>t. running s t = []) \<and>
     timers s = {} \<and> owed s = 0 \<and> \<not> destroyed s"

definition do_first_test :: "nat \<Rightarrow> u64 \<Rightarrow> cv_sys \<Rightarrow> cv_sys" where
  "do_first_test c tmo s = (let (ret, cv') = NBCV_first_test (c \<in> cond s) c (cv s) in
     s\<lparr>cv := cv', call_pc := (call_pc s)(c := if ret then Returned else Tested tmo)\<rparr>)"

definition do_push :: "nat \<Rightarrow> u64 \<Rightarrow> cv_sys \<Rightarrow> cv_sys" where
  "do_push c tmo s = s\<lparr>cv := NBCV_push c (cv s), call_pc := (call_pc s)(c := Pushed tmo)\<rparr>"

definition do_second_test :: "nat \<Rightarrow> u64 \<Rightarrow> cv_sys \<Rightarrow> cv_sys" where
  "do_second_test c tmo s = (let (timer, cv') = NBCV_second_test (c \<in> cond s) c tmo (cv s) in
     s\<lparr>cv := cv', call_pc := (call_pc s)(c := Returned),
       timers := (if timer then insert c (timers s) else timers s)\<rparr>)"

definition task_alive :: "cv_sys \<Rightarrow> nat \<Rightarrow> bool" where
  "task_alive s c \<longleftrightarrow> c \<in> set (cv_tasks (cv s)) \<or> (\<exists>t. c \<in> set (running s t))"

definition do_timer :: "nat \<Rightarrow> cv_sys \<Rightarrow> cv_sys" where
  "do_timer c s = s\<lparr>cv := NBCV_timer (task_alive s c) c (cv s), timers := timers s - {c}\<rparr>"

definition do_swap :: "tid \<Rightarrow> cv_sys \<Rightarrow> cv_sys" where
  "do_swap t s = (let (local_tasks, cv') = NBCV_notifyAll_swap (cv s) in
     s\<lparr>cv := cv', running := (running s)(t := local_tasks), owed := owed s - 1\<rparr>)"

definition do_run :: "tid \<Rightarrow> nat \<Rightarrow> nat list \<Rightarrow> cv_sys \<Rightarrow> cv_sys" where
  "do_run t c cs s = s\<lparr>cv := run_once c (cv s), running := (running s)(t := cs)\<rparr>"

definition do_change :: "nat set \<Rightarrow> cv_sys \<Rightarrow> cv_sys" where
  "do_change C s = s\<lparr>cond := cond s \<union> C, owed := owed s + 1\<rparr>"

text \<open>The destructor runs when no call and no \<open>notifyAll\<close> is active, which its client guarantees.\<close>

definition cv_quiescent :: "cv_sys \<Rightarrow> bool" where
  "cv_quiescent s \<longleftrightarrow> (\<forall>c. call_pc s c = Uncalled \<or> call_pc s c = Returned) \<and> (\<forall>t. running s t = [])"

definition do_dtor :: "cv_sys \<Rightarrow> cv_sys" where
  "do_dtor s = s\<lparr>cv := NBCV_dtor (cv s), destroyed := True\<rparr>"

inductive cv_step :: "cv_sys \<Rightarrow> cv_sys \<Rightarrow> bool" where
  first_test: "\<not> destroyed s \<Longrightarrow> call_pc s c = Uncalled \<Longrightarrow> cv_step s (do_first_test c tmo s)"
| push: "\<not> destroyed s \<Longrightarrow> call_pc s c = Tested tmo \<Longrightarrow> cv_step s (do_push c tmo s)"
| second_test: "\<not> destroyed s \<Longrightarrow> call_pc s c = Pushed tmo \<Longrightarrow> cv_step s (do_second_test c tmo s)"
| timer: "c \<in> timers s \<Longrightarrow> cv_step s (do_timer c s)"
| swap: "\<not> destroyed s \<Longrightarrow> running s t = [] \<Longrightarrow> cv_step s (do_swap t s)"
| run: "\<not> destroyed s \<Longrightarrow> running s t = c # cs \<Longrightarrow> cv_step s (do_run t c cs s)"
| change: "\<not> destroyed s \<Longrightarrow> cv_step s (do_change C s)"
| dtor: "\<not> destroyed s \<Longrightarrow> cv_quiescent s \<Longrightarrow> cv_step s (do_dtor s)"

section \<open>The invariant\<close>

text \<open>
  A function is added to the executor at most once; a call that got past the insertion and has not
  run is still in the list or in front of an active \<open>notifyAll\<close>; and once its predicate holds it is
  in front of an active \<open>notifyAll\<close> or one is still owed.
\<close>

fun call_ok :: "call_pc \<Rightarrow> bool \<Rightarrow> bool \<Rightarrow> bool \<Rightarrow> bool \<Rightarrow> bool \<Rightarrow> bool \<Rightarrow> bool" where
  "call_ok Uncalled added done listed run p due \<longleftrightarrow> \<not> added \<and> \<not> done \<and> \<not> listed \<and> \<not> run"
| "call_ok (Tested _) added done listed run p due \<longleftrightarrow> \<not> added \<and> \<not> done \<and> \<not> listed \<and> \<not> run"
| "call_ok (Pushed _) added done listed run p due \<longleftrightarrow> (added \<longleftrightarrow> done) \<and> (added \<or> listed \<or> run)"
| "call_ok Returned added done listed run p due \<longleftrightarrow>
     (done \<longrightarrow> added) \<and> (listed \<or> run \<longrightarrow> (added \<longleftrightarrow> done)) \<and> (added \<or> listed \<or> run) \<and>
     (p \<longrightarrow> added \<or> run \<or> due)"

definition in_running :: "cv_sys \<Rightarrow> nat \<Rightarrow> bool" where
  "in_running s c \<longleftrightarrow> (\<exists>t. c \<in> set (running s t))"

abbreviation cv_call_ok :: "cv_sys \<Rightarrow> nat \<Rightarrow> bool" where
  "cv_call_ok s c \<equiv> call_ok (call_pc s c) (c \<in> set (executor (cv s))) (c \<in> has_done (cv s))
     (c \<in> set (cv_tasks (cv s))) (in_running s c) (c \<in> cond s) (0 < owed s)"

definition cv_inv :: "cv_sys \<Rightarrow> bool" where
  "cv_inv s \<longleftrightarrow> distinct (executor (cv s)) \<and> distinct (cv_tasks (cv s)) \<and> (\<forall>c. cv_call_ok s c) \<and>
     (\<forall>c \<in> timers s. call_pc s c = Returned)"

lemmas cv_ops = NBCV_first_test_def NBCV_push_def NBCV_second_test_def NBCV_timer_def
  NBCV_notifyAll_swap_def NBCV_dtor_def Task_should_i_run_def executor_add_def run_once_eq
  do_first_test_def do_push_def do_second_test_def do_timer_def do_swap_def do_run_def do_change_def
  do_dtor_def Let_def

lemma cv_invI:
  assumes "distinct (executor (cv s))" "distinct (cv_tasks (cv s))" "\<And>c. cv_call_ok s c"
    "\<And>c. c \<in> timers s \<Longrightarrow> call_pc s c = Returned"
  shows "cv_inv s"
  using assms by (simp add: cv_inv_def)

lemma cv_invD:
  assumes "cv_inv s"
  shows "distinct (executor (cv s))" "distinct (cv_tasks (cv s))" "cv_call_ok s c"
    "c \<in> timers s \<Longrightarrow> call_pc s c = Returned"
  using assms by (simp_all add: cv_inv_def)

lemma in_running_upd [simp]:
  "in_running (s\<lparr>running := r\<rparr>) c \<longleftrightarrow> (\<exists>t. c \<in> set (r t))"
  "in_running (s\<lparr>cv := v\<rparr>) c \<longleftrightarrow> in_running s c"
  "in_running (s\<lparr>call_pc := p\<rparr>) c \<longleftrightarrow> in_running s c"
  "in_running (s\<lparr>timers := ts\<rparr>) c \<longleftrightarrow> in_running s c"
  "in_running (s\<lparr>cond := C\<rparr>) c \<longleftrightarrow> in_running s c"
  "in_running (s\<lparr>owed := n\<rparr>) c \<longleftrightarrow> in_running s c"
  "in_running (s\<lparr>destroyed := b\<rparr>) c \<longleftrightarrow> in_running s c"
  by (simp_all add: in_running_def)

lemma distinct_count_list: "distinct xs \<Longrightarrow> x \<in> set xs \<Longrightarrow> count_list xs x = 1"
  by (induction xs) (auto simp: count_list_0_iff)

lemma cv_inv_first_test:
  assumes "cv_inv s" "call_pc s c = Uncalled"
  shows "cv_inv (do_first_test c tmo s)"
proof (rule cv_invI)
  show "cv_call_ok (do_first_test c tmo s) d" for d
    using cv_invD(3) [OF assms(1), of d] assms(2) by (cases "d = c") (auto simp: cv_ops)
qed (use cv_invD [OF assms(1)] cv_invD(3) [OF assms(1), of c] assms(2) in \<open>force simp: cv_ops split: if_splits\<close>)+

lemma cv_inv_push:
  assumes "cv_inv s" "call_pc s c = Tested tmo"
  shows "cv_inv (do_push c tmo s)"
proof (rule cv_invI)
  show "cv_call_ok (do_push c tmo s) d" for d
    using cv_invD(3) [OF assms(1), of d] assms(2) by (cases "d = c") (auto simp: cv_ops)
qed (use cv_invD [OF assms(1)] cv_invD(3) [OF assms(1), of c] assms(2) in \<open>force simp: cv_ops\<close>)+

lemma cv_inv_second_test:
  assumes "cv_inv s" "call_pc s c = Pushed tmo"
  shows "cv_inv (do_second_test c tmo s)"
proof (rule cv_invI)
  show "cv_call_ok (do_second_test c tmo s) d" for d
    using cv_invD(3) [OF assms(1), of d] assms(2) by (cases "d = c") (auto simp: cv_ops)
qed (use cv_invD [OF assms(1)] cv_invD(3) [OF assms(1), of c] assms(2) in \<open>force simp: cv_ops split: if_splits\<close>)+

text \<open>Running a task that some list refers to.\<close>

lemma call_ok_run:
  "call_ok pc added done listed run p due \<Longrightarrow> listed \<or> run \<Longrightarrow> call_ok pc True True listed' run' p due'"
  by (cases pc) auto

lemma call_ok_drop:
  "call_ok pc added done listed run p due \<Longrightarrow> done \<Longrightarrow> call_ok pc added done listed' run' p due'"
  by (cases pc) auto

lemma call_ok_change: "call_ok pc added done listed run p due \<Longrightarrow> call_ok pc added done listed run p' True"
  by (cases pc) auto

lemma call_ok_swap:
  "call_ok pc added done listed run p due \<Longrightarrow> run' = (listed \<or> run) \<Longrightarrow> call_ok pc added done False run' p due'"
  by (cases pc) auto

lemma cv_inv_timer:
  assumes "cv_inv s"
  shows "cv_inv (do_timer c s)"
proof (rule cv_invI)
  show "cv_call_ok (do_timer c s) d" for d
    using cv_invD(3) [OF assms, of d]
    by (cases "d = c") (auto simp: cv_ops task_alive_def in_running_def [symmetric] intro: call_ok_run)
  show "distinct (executor (cv (do_timer c s)))"
    using cv_invD(1) [OF assms] cv_invD(3) [OF assms, of c]
    by (cases "call_pc s c") (auto simp: cv_ops task_alive_def in_running_def)
qed (use cv_invD [OF assms] in \<open>force simp: cv_ops split: if_splits\<close>)+

lemma cv_inv_change: "cv_inv s \<Longrightarrow> cv_inv (do_change C s)"
  by (auto simp: cv_inv_def cv_ops intro: call_ok_change)

lemma cv_inv_swap:
  assumes "cv_inv s" "running s t = []"
  shows "cv_inv (do_swap t s)"
proof (rule cv_invI)
  have "(\<exists>u. d \<in> set (((running s)(t := cv_tasks (cv s))) u)) \<longleftrightarrow>
      d \<in> set (cv_tasks (cv s)) \<or> in_running s d" for d
    using assms(2) by (auto simp: in_running_def split: if_splits) (metis empty_iff list.set(1))
  then show "cv_call_ok (do_swap t s) d" for d
    using cv_invD(3) [OF assms(1), of d] by (auto simp: cv_ops intro: call_ok_swap)
qed (use cv_invD [OF assms(1)] in \<open>force simp: cv_ops\<close>)+

lemma cv_inv_run:
  assumes "cv_inv s" "running s t = c # cs"
  shows "cv_inv (do_run t c cs s)"
proof (rule cv_invI)
  have others: "d \<noteq> c \<Longrightarrow> (\<exists>u. d \<in> set (((running s)(t := cs)) u)) \<longleftrightarrow> in_running s d" for d
    using assms(2) by (auto simp: in_running_def split: if_splits)
      (metis set_ConsD list.set_intros(2))+
  have c: "in_running s c" unfolding in_running_def by (rule exI [of _ t]) (simp add: assms(2))
  show "cv_call_ok (do_run t c cs s) d" for d
    using cv_invD(3) [OF assms(1), of d] c others [of d]
    by (cases "d = c") (auto simp: cv_ops intro: call_ok_run call_ok_drop)
  show "distinct (executor (cv (do_run t c cs s)))"
    using cv_invD(1) [OF assms(1)] cv_invD(3) [OF assms(1), of c] c
    by (cases "call_pc s c") (auto simp: cv_ops)
qed (use cv_invD [OF assms(1)] in \<open>force simp: cv_ops split: if_splits\<close>)+

lemma cv_inv_dtor:
  assumes "cv_inv s" "cv_quiescent s"
  shows "cv_inv (do_dtor s)"
proof (rule cv_invI)
  note eq = NBCV_runATaskList_eq [OF cv_invD(2) [OF assms(1)]]
  show "cv_call_ok (do_dtor s) d" for d
    using cv_invD(3) [OF assms(1), of d]
    by (cases "d \<in> set (cv_tasks (cv s))"; cases "d \<in> has_done (cv s)")
      (auto simp: cv_ops eq intro: call_ok_run call_ok_drop)
  have "c \<notin> set (executor (cv s))" if "c \<in> set (cv_tasks (cv s))" "c \<notin> has_done (cv s)" for c
    using cv_invD(3) [OF assms(1), of c] that by (cases "call_pc s c") auto
  then show "distinct (executor (cv (do_dtor s)))"
    using cv_invD(1,2) [OF assms(1)] by (auto simp: cv_ops eq)
qed (use cv_invD [OF assms(1)] in \<open>force simp: cv_ops NBCV_runATaskList_eq\<close>)+

lemma cv_inv_step: "cv_step s s' \<Longrightarrow> cv_inv s \<Longrightarrow> cv_inv s'"
  by (induction rule: cv_step.induct)
    (simp_all add: cv_inv_first_test cv_inv_push cv_inv_second_test cv_inv_timer cv_inv_swap
      cv_inv_run cv_inv_change cv_inv_dtor)

interpretation nbcvs: invariant_system cv_init cv_step cv_inv
  by unfold_locales
    (simp add: cv_init_def cv_inv_def NBCV_ctor_def in_running_def, rule cv_inv_step)

section \<open>Properties\<close>

text \<open>
  (C28) \<open>f\<close> of a call runs at most once: in every interleaving the executor receives each function
  once, only for calls made, and a call that returned without its function having been added is
  still held by the list or by an active \<open>notifyAll\<close>, so that it cannot be forgotten.
\<close>

theorem NBCV_runs_at_most_once:
  assumes "reach cv_init cv_step s"
  shows "distinct (executor (cv s)) \<and>
    (\<forall>c. c \<in> set (executor (cv s)) \<longrightarrow> call_pc s c \<noteq> Uncalled) \<and>
    (\<forall>c. call_pc s c = Returned \<and> c \<notin> set (executor (cv s)) \<longrightarrow> task_alive s c)"
proof -
  have ok: "cv_call_ok s c" for c by (rule cv_invD(3) [OF nbcvs.reach_inv [OF assms]])
  have "call_pc s c = Uncalled \<Longrightarrow> c \<notin> set (executor (cv s))"
    and "call_pc s c = Returned \<Longrightarrow> c \<notin> set (executor (cv s)) \<Longrightarrow> task_alive s c" for c
    using ok [of c] by (auto simp: task_alive_def in_running_def)
  then show ?thesis using cv_invD(1) [OF nbcvs.reach_inv [OF assms]] by blast
qed

text \<open>A run in which call 1 waits with a timeout and call 2 without one.\<close>

definition cv_start :: cv_sys where
  "cv_start = \<lparr>cv = NBCV_ctor, call_pc = (\<lambda>_. Uncalled), running = (\<lambda>_. []), timers = {}, cond = {},
     owed = 0, destroyed = False\<rparr>"

definition cv_example :: cv_sys where
  "cv_example = do_second_test 2 0 (do_push 2 0 (do_first_test 2 0
     (do_second_test 1 50 (do_push 1 50 (do_first_test 1 50 cv_start)))))"

lemma cv_example_eq:
  "cv_example = \<lparr>cv = \<lparr>cv_tasks = [2, 1], has_done = {}, executor = []\<rparr>,
     call_pc = (\<lambda>_. Uncalled)(1 := Returned, 2 := Returned), running = (\<lambda>_. []), timers = {1}, cond = {},
     owed = 0, destroyed = False\<rparr>"
  by (simp add: cv_example_def cv_start_def NBCV_ctor_def cv_ops fun_upd_twist)

lemma cv_example_reach: "reach cv_init cv_step cv_example"
  unfolding cv_example_def
  by ((rule reach_step [rotated], rule cv_step.push cv_step.first_test cv_step.second_test) |
      (rule reach_init, simp add: cv_init_def cv_start_def) |
      (simp add: cv_ops cv_start_def NBCV_ctor_def; fail))+

theorem NBCV_runs_at_most_once_witness: "task_alive cv_example 1"
  using NBCV_runs_at_most_once [OF cv_example_reach] by (simp add: cv_example_eq)

text \<open>
  (C18) No notification is missed: when the predicate of a call that has returned holds and its
  function has not been added to the executor, an active \<open>notifyAll\<close> still has it in its list, or a
  \<open>notifyAll\<close> for a change of the predicate has not started. This is what the second test of the
  predicate after the insertion is for.
\<close>

theorem NBCV_no_missed_notification:
  assumes "reach cv_init cv_step s" "call_pc s c = Returned" "c \<in> cond s" "c \<notin> set (executor (cv s))"
  shows "(\<exists>t. c \<in> set (running s t)) \<or> 0 < owed s"
  using cv_invD(3) [OF nbcvs.reach_inv [OF assms(1)], of c] assms(2-4) by (simp add: in_running_def)

theorem NBCV_no_missed_notification_witness: "0 < owed (do_change {2} cv_example)"
proof -
  have "reach cv_init cv_step (do_change {2} cv_example)"
    by (rule reach_step [OF cv_example_reach]) (rule cv_step.change, simp add: cv_example_eq)
  from NBCV_no_missed_notification [OF this, of 2] show ?thesis
    by (simp add: cv_example_eq do_change_def)
qed

text \<open>
  A waiting call with a positive timeout gets a timer unless its function was added during the
  call, and a timer that fires leaves the function added to the executor exactly once; with
  \<open>timeout_ms = 0\<close> no timer is registered.
\<close>

theorem NBCV_timeout_runs:
  assumes "reach cv_init cv_step s"
  shows "(c \<in> timers s \<longrightarrow> count_list (executor (cv (do_timer c s))) c = 1) \<and>
    (call_pc s c = Pushed tmo \<longrightarrow>
       (c \<in> timers (do_second_test c tmo s) \<longrightarrow> 0 < tmo) \<and>
       (0 < tmo \<longrightarrow> c \<in> timers (do_second_test c tmo s) \<or> c \<in> set (executor (cv (do_second_test c tmo s)))))"
proof -
  note inv = nbcvs.reach_inv [OF assms]
  have "count_list (executor (cv (do_timer c s))) c = 1" if "c \<in> timers s"
  proof -
    have "c \<in> set (executor (cv (do_timer c s)))"
      using cv_invD(3) [OF inv, of c] cv_invD(4) [OF inv that]
      by (auto simp: cv_ops task_alive_def in_running_def)
    then show ?thesis
      using cv_invD(1) [OF cv_inv_timer [OF inv, of c]] by (simp add: distinct_count_list)
  qed
  moreover have "c \<notin> timers s" if "call_pc s c = Pushed tmo" using cv_invD(4) [OF inv, of c] that by auto
  ultimately show ?thesis by (auto simp: do_second_test_def NBCV_second_test_def Let_def
        Task_should_i_run_def executor_add_def)
qed

theorem NBCV_timeout_runs_witness: "count_list (executor (cv (do_timer 1 cv_example))) 1 = 1"
  using NBCV_timeout_runs [OF cv_example_reach, of 1 0] by (simp add: cv_example_eq)

text \<open>
  (C29) The destructor runs what is left: after it every call that was made has had its function
  added to the executor exactly once.
\<close>

theorem NBCV_dtor_runs_all:
  assumes "reach cv_init cv_step s" "cv_quiescent s" "call_pc s c = Returned"
  shows "count_list (executor (cv (do_dtor s))) c = 1"
proof -
  note inv = nbcvs.reach_inv [OF assms(1)]
  have "c \<in> set (executor (cv (do_dtor s)))"
    using cv_invD(3) [OF inv, of c] assms(2,3)
    by (auto simp: cv_ops NBCV_runATaskList_eq [OF cv_invD(2) [OF inv]] in_running_def cv_quiescent_def)
  then show ?thesis
    using cv_invD(1) [OF cv_inv_dtor [OF inv assms(2)]] by (simp add: distinct_count_list)
qed

theorem NBCV_dtor_runs_all_witness: "count_list (executor (cv (do_dtor cv_example))) 2 = 1"
  by (rule NBCV_dtor_runs_all [OF cv_example_reach]) (simp_all add: cv_example_eq cv_quiescent_def)

end
