(* ===== verification/Replicated_Db.thy ===== *)
theory Replicated_Db
  imports Rocksdb_Api Max_Number_Box Non_Blocking_CV
begin

text \<open>
  \<open>rocksdb_replicator/replicated_db.cpp\<close> and the parts of \<open>rocksdb_replicator.h\<close>,
  \<open>replicator_stats.cpp\<close> and \<open>thrift/replicator.thrift\<close> it uses: one replicated database, its writes,
  the pull loop of a slave and the handler of replication requests, with the cache of log iterators.

  The database behind \<open>db_\<close> is passed next to the \<open>ReplicatedDB\<close>, because others hold the same pointer.
  The clock is an argument. Counters and metrics go to the log \<open>rdb_stats\<close>. A failed \<open>CHECK\<close> is \<open>None\<close>.
\<close>

section \<open>Data\<close>

datatype db_role = MASTER | SLAVE | NOOP

datatype return_code = RC_OK | DB_NOT_FOUND | DB_PRE_EXIST | WRITE_TO_SLAVE | WRITE_ERROR | WAIT_SLAVE_TIMEOUT

record replicator_flags =
  replicator_max_server_wait_time_ms :: int
  replicator_max_updates_per_response :: int
  replicator_pull_delay_on_error_ms :: int
  replicator_replication_mode :: int
  replicator_timeout_ms :: u64
  replicator_idle_iter_timeout_ms :: int
  replicator_enable_per_db_stats :: bool

text \<open>The thrift structures; an \<open>i64\<close> is its bit pattern, an \<open>i32\<close> an integer.\<close>

record replicate_request =
  req_seq_no :: u64
  req_db_name :: string
  req_max_wait_ms :: int
  req_max_updates :: int

record 'raw update =
  raw_data :: 'raw
  timestamp :: u64

datatype error_code = OTHER | SOURCE_NOT_FOUND | SOURCE_READ_ERROR

datatype replicate_exception = ReplicateException string error_code

text \<open>
  \<open>cached_iters_\<close> is a multimap from the next sequence number to an iterator and the time it was put
  back. \<open>max_seq_no_acked_\<close> is the box together with the threads that wait on it.
\<close>

record 'it replicated_db =
  rdb_name :: string
  rdb_role :: db_role
  rdb_upstream_addr :: string
  rdb_client :: "string option"
  rdb_cond_var :: nbcv
  rdb_cached_iters :: "(u64 \<times> 'it \<times> u64) list"
  rdb_max_seq_no_acked :: box_sys
  rdb_stats :: "stat_event list"

section \<open>Statistics\<close>

definition logMetric :: "replicator_flags \<Rightarrow> string \<Rightarrow> int \<Rightarrow> string \<Rightarrow> stat_event list" where
  "logMetric fl metric_name value db_name =
    AddMetric metric_name value #
    (if replicator_enable_per_db_stats fl \<and> db_name \<noteq> [] then [AddMetric (metric_name @ '' db='' @ db_name) value] else [])"

definition incCounter :: "replicator_flags \<Rightarrow> string \<Rightarrow> u64 \<Rightarrow> string \<Rightarrow> stat_event list" where
  "incCounter fl counter_name value db_name =
    Incr counter_name value #
    (if replicator_enable_per_db_stats fl \<and> db_name \<noteq> [] then [Incr (counter_name @ '' db='' @ db_name) value] else [])"

text \<open>Differences of clock readings: \<open>start < end ? end - start : 0\<close>, passed as \<open>int64_t\<close>.\<close>

definition elapsed :: "u64 \<Rightarrow> u64 \<Rightarrow> int" where
  "elapsed t u = (if t < u then sint (u - t) else 0)"

definition report :: "stat_event list \<Rightarrow> 'it replicated_db \<Rightarrow> 'it replicated_db" where
  "report evs rdb = rdb\<lparr>rdb_stats := rdb_stats rdb @ evs\<rparr>"

section \<open>Construction and write\<close>

definition box_idle :: "u64 \<Rightarrow> box_sys" where
  "box_idle n = \<lparr>box = MaxNumberBox_ctor n, num_to_wait = (\<lambda>_. 0), wait_pc = (\<lambda>_. Outside),
     outstanding = [], posted = [], returned = [], check_failed = False\<rparr>"

definition ReplicatedDB_ctor :: "string \<Rightarrow> db_role \<Rightarrow> string \<Rightarrow> 'it replicated_db" where
  "ReplicatedDB_ctor db_name role upstream_addr =
    \<lparr>rdb_name = db_name, rdb_role = role, rdb_upstream_addr = upstream_addr,
     rdb_client = (if role = SLAVE then Some upstream_addr else None),
     rdb_cond_var = NBCV_ctor, rdb_cached_iters = [], rdb_max_seq_no_acked = box_idle 0, rdb_stats = []\<rparr>"

text \<open>
  \<open>Write\<close> up to the wait for a slave: it throws, it is done with RocksDB's status, it must wait for
  the acknowledgement of a sequence number, or the \<open>CHECK\<close> of the replication mode fails. \<open>seq\<close> is what
  \<open>*seq_no\<close> was set to.
\<close>

datatype write_outcome =
    WriteThrows return_code
  | WriteDone rdb_status "u64 option"
  | WriteWaits u64
  | WriteFatal

definition ReplicatedDB_Write_commit ::
  "replicator_flags \<Rightarrow> ('db, 'it, 'wb, 'raw) rocksdb_api \<Rightarrow> u64 \<Rightarrow> u64 \<Rightarrow> u64 \<Rightarrow> 'wb \<Rightarrow>
   'it replicated_db \<Rightarrow> 'db \<Rightarrow> write_outcome \<times> 'it replicated_db \<times> 'db" where
  "ReplicatedDB_Write_commit fl api ms t_start t_end updates rdb db =
    (if rdb_role rdb = SLAVE then (WriteThrows WRITE_TO_SLAVE, rdb, db)
     else
       let rdb = report (incCounter fl ''replicator_write_bytes'' (wb_GetDataSize api updates) (rdb_name rdb)) rdb;
           updates = wb_PutLogData api (u64_bytes ms) updates;
           (status, db) = db_Write api db updates;
           rdb = report (logMetric fl ''replicator_write_ms'' (elapsed t_start t_end) (rdb_name rdb)) rdb
       in if status_ok status then
            let rdb = rdb\<lparr>rdb_cond_var := NBCV_notifyAll (rdb_cond_var rdb)\<rparr>;
                cur_seq_no = db_GetLatestSequenceNumber api db
            in (if replicator_replication_mode fl = 1 \<or> replicator_replication_mode fl = 2
                then WriteWaits cur_seq_no
                else if replicator_replication_mode fl = 0 then WriteDone status (Some cur_seq_no)
                else WriteFatal, rdb, db)
          else (WriteDone status None, rdb, db))"

text \<open>The rest of \<open>Write\<close>, with the answer of \<open>max_seq_no_acked_.wait\<close>.\<close>

definition ReplicatedDB_Write_acked :: "bool \<Rightarrow> u64 \<Rightarrow> write_outcome" where
  "ReplicatedDB_Write_acked acked cur_seq_no =
    (if \<not> acked then WriteThrows WAIT_SLAVE_TIMEOUT else WriteDone StOk (Some cur_seq_no))"

section \<open>Pulling from upstream\<close>

definition ReplicatedDB_pullFromUpstream ::
  "replicator_flags \<Rightarrow> ('db, 'it, 'wb, 'raw) rocksdb_api \<Rightarrow> 'it replicated_db \<Rightarrow> 'db \<Rightarrow> replicate_request option" where
  "ReplicatedDB_pullFromUpstream fl api rdb db =
    (if rdb_role rdb \<noteq> SLAVE then None
     else Some \<lparr>req_seq_no = db_GetLatestSequenceNumber api db, req_db_name = rdb_name rdb,
                req_max_wait_ms = replicator_max_server_wait_time_ms fl,
                req_max_updates = replicator_max_updates_per_response fl\<rparr>)"

text \<open>What the future of the call delivers.\<close>

datatype 'raw pull_result =
    PullResponse "'raw update list"
  | PullAppException replicate_exception
  | PullStdException

datatype next_pull = PullNow | PullAfterDelay int

text \<open>
  The loop over the updates of a response: metrics, the bytes seen, the database, and whether a
  write failed (which ends the loop).
\<close>

fun apply_updates ::
  "replicator_flags \<Rightarrow> ('db, 'it, 'wb, 'raw) rocksdb_api \<Rightarrow> string \<Rightarrow> u64 \<Rightarrow> 'raw update list \<Rightarrow> u64 \<Rightarrow> 'db \<Rightarrow>
   stat_event list \<times> u64 \<times> 'db \<times> bool" where
  "apply_updates fl api name now [] write_bytes db = ([], write_bytes, db, False)"
| "apply_updates fl api name now (u # us) write_bytes db =
    (let evs = (if timestamp u \<noteq> 0
                then logMetric fl ''replicator_latency_ms'' (elapsed (timestamp u) now) name else []);
         write_bytes = write_bytes + raw_size api (raw_data u);
         write_batch = wb_PutLogData api (u64_bytes (timestamp u)) (wb_of_Data api (raw_data u));
         (status, db) = db_Write api db write_batch
     in if \<not> status_ok status then (evs, write_bytes, db, True)
        else let (evs', r) = apply_updates fl api name now us write_bytes db in (evs @ evs', r))"

definition ReplicatedDB_onPullResult ::
  "replicator_flags \<Rightarrow> ('db, 'it, 'wb, 'raw) rocksdb_api \<Rightarrow> u64 \<Rightarrow> 'raw pull_result \<Rightarrow> 'it replicated_db \<Rightarrow> 'db \<Rightarrow>
   next_pull \<times> 'it replicated_db \<times> 'db" where
  "ReplicatedDB_onPullResult fl api now t rdb db =
    (case t of
       PullAppException ex \<Rightarrow>
         (PullAfterDelay (replicator_pull_delay_on_error_ms fl),
          report (incCounter fl ''replicator_remote_app_exceptions'' 1 (rdb_name rdb)) rdb, db)
     | PullStdException \<Rightarrow>
         (PullAfterDelay (replicator_pull_delay_on_error_ms fl),
          (report (incCounter fl ''replicator_connection_errors'' 1 (rdb_name rdb)) rdb)
            \<lparr>rdb_client := Some (rdb_upstream_addr rdb)\<rparr>, db)
     | PullResponse updates \<Rightarrow>
         let (evs, write_bytes, db, failed) = apply_updates fl api (rdb_name rdb) now updates 0 db;
             rdb = report evs rdb;
             rdb = (if updates \<noteq> [] then rdb\<lparr>rdb_cond_var := NBCV_notifyAll (rdb_cond_var rdb)\<rparr> else rdb);
             rdb = report (incCounter fl ''replicator_in_bytes'' write_bytes (rdb_name rdb)) rdb
         in (if failed then PullAfterDelay (replicator_pull_delay_on_error_ms fl) else PullNow, rdb, db))"

section \<open>The cache of iterators\<close>

text \<open>\<open>find\<close> on the multimap yields one entry of the key, which is taken out.\<close>

fun ReplicatedDB_getCachedIter :: "u64 \<Rightarrow> (u64 \<times> 'it \<times> u64) list \<Rightarrow> 'it option \<times> (u64 \<times> 'it \<times> u64) list" where
  "ReplicatedDB_getCachedIter seq_no [] = (None, [])"
| "ReplicatedDB_getCachedIter seq_no ((s, it, t) # cs) =
    (if s = seq_no then (Some it, cs)
     else let (r, cs) = ReplicatedDB_getCachedIter seq_no cs in (r, (s, it, t) # cs))"

definition ReplicatedDB_putCachedIter ::
  "u64 \<Rightarrow> u64 \<Rightarrow> 'it \<Rightarrow> (u64 \<times> 'it \<times> u64) list \<Rightarrow> (u64 \<times> 'it \<times> u64) list" where
  "ReplicatedDB_putCachedIter now seq_no it cs = cs @ [(seq_no, it, now)]"

fun ReplicatedDB_cleanIdleCachedIters ::
  "replicator_flags \<Rightarrow> u64 \<Rightarrow> (u64 \<times> 'it \<times> u64) list \<Rightarrow> (u64 \<times> 'it \<times> u64) list" where
  "ReplicatedDB_cleanIdleCachedIters fl now [] = []"
| "ReplicatedDB_cleanIdleCachedIters fl now ((s, it, t) # cs) =
    (if t + of_int (replicator_idle_iter_timeout_ms fl) < now
     then ReplicatedDB_cleanIdleCachedIters fl now cs
     else (s, it, t) # ReplicatedDB_cleanIdleCachedIters fl now cs)"

section \<open>Serving a replication request\<close>

text \<open>
  \<open>LogExtractor\<close> keeps the last blob; its member starts out uninitialised (the first argument). A blob
  of another size fails the \<open>CHECK\<close>.
\<close>

fun LogExtractor_LogData :: "u64 \<Rightarrow> bytes list \<Rightarrow> u64 option" where
  "LogExtractor_LogData ms [] = Some ms"
| "LogExtractor_LogData ms (blob # blobs) =
    (if length blob = 8 then LogExtractor_LogData (bytes_u64 blob) blobs else None)"

text \<open>
  The loop that fills the response: at most \<open>n\<close> more updates. \<open>junk\<close> are the values of the
  uninitialised extractors.
\<close>

fun collect_updates ::
  "('db, 'it, 'wb, 'raw) rocksdb_api \<Rightarrow> (nat \<Rightarrow> u64) \<Rightarrow> 'db \<Rightarrow> nat \<Rightarrow> 'it \<Rightarrow> u64 \<Rightarrow> u64 \<Rightarrow>
   ('raw update list \<times> 'it \<times> u64 \<times> u64) option" where
  "collect_updates api junk db 0 it next_seq_no read_bytes = Some ([], it, next_seq_no, read_bytes)"
| "collect_updates api junk db (Suc n) it next_seq_no read_bytes =
    (if \<not> it_Valid api it then Some ([], it, next_seq_no, read_bytes)
     else
       let wb = it_GetBatch api it;
           next_seq_no = next_seq_no + ucast (wb_Count api wb);
           str = wb_Data api wb;
           read_bytes = read_bytes + raw_size api str;
           (ret, blobs) = wb_Iterate api wb
       in case LogExtractor_LogData (junk n) blobs of
            None \<Rightarrow> None
          | Some ms \<Rightarrow>
              map_option (\<lambda>(us, r). (\<lparr>raw_data = str, timestamp = if status_ok ret then ms else 0\<rparr> # us, r))
                (collect_updates api junk db n (it_Next api db it) next_seq_no read_bytes))"

text \<open>The iterator to read from: a cached one that is or becomes valid, or a new one.\<close>

definition serve_cached_iter ::
  "('db, 'it, 'wb, 'raw) rocksdb_api \<Rightarrow> u64 \<Rightarrow> 'it replicated_db \<Rightarrow> 'db \<Rightarrow> 'it option \<times> 'it replicated_db" where
  "serve_cached_iter api expected_seq_no rdb db =
    (let (iter, cs) = ReplicatedDB_getCachedIter expected_seq_no (rdb_cached_iters rdb);
         rdb = rdb\<lparr>rdb_cached_iters := cs\<rparr>
     in case iter of
          None \<Rightarrow> (None, rdb)
        | Some it \<Rightarrow>
            if it_Valid api it then (Some it, rdb)
            else let it = it_Next api db it in (if it_Valid api it then Some it else None, rdb))"

definition serve_iter ::
  "replicator_flags \<Rightarrow> ('db, 'it, 'wb, 'raw) rocksdb_api \<Rightarrow> u64 \<Rightarrow> u64 \<Rightarrow> u64 \<Rightarrow> 'it replicated_db \<Rightarrow> 'db \<Rightarrow>
   rdb_status \<times> 'it option \<times> 'it replicated_db" where
  "serve_iter fl api t_start t_end expected_seq_no rdb db =
    (case serve_cached_iter api expected_seq_no rdb db of
       (Some it, rdb) \<Rightarrow> (StOk, Some it, rdb)
     | (None, rdb) \<Rightarrow>
         let (status, iter) = db_GetUpdatesSince api db expected_seq_no
         in (status, iter,
             report (logMetric fl ''replicator_get_update_since_ms'' (elapsed t_start t_end) (rdb_name rdb)) rdb))"

text \<open>The operation of the request, run on the executor; \<open>msg\<close> is the text of RocksDB's status.\<close>

definition ReplicatedDB_serve ::
  "replicator_flags \<Rightarrow> ('db, 'it, 'wb, 'raw) rocksdb_api \<Rightarrow> (nat \<Rightarrow> u64) \<Rightarrow> (rdb_status \<Rightarrow> string) \<Rightarrow>
   u64 \<Rightarrow> u64 \<Rightarrow> u64 \<Rightarrow> replicate_request \<Rightarrow> 'it replicated_db \<Rightarrow> 'db \<Rightarrow>
   ((replicate_exception + 'raw update list) \<times> 'it replicated_db) option" where
  "ReplicatedDB_serve fl api junk msg t_start t_end now request rdb db =
    (let expected_seq_no = req_seq_no request + 1;
         (status, iter, rdb) = serve_iter fl api t_start t_end expected_seq_no rdb db
     in if status = StOk \<or> status = StNotFound then
          case (case iter of
                  None \<Rightarrow> Some ([], None, expected_seq_no, 0)
                | Some it \<Rightarrow> map_option (\<lambda>(us, it, r). (us, Some it, r))
                    (collect_updates api junk db (nat (req_max_updates request)) it expected_seq_no 0)) of
            None \<Rightarrow> None
          | Some (updates, iter, next_seq_no, read_bytes) \<Rightarrow>
              let rdb = (if replicator_replication_mode fl = 1
                         then rdb\<lparr>rdb_max_seq_no_acked := do_post (next_seq_no - 1) (rdb_max_seq_no_acked rdb)\<rparr>
                         else rdb);
                  rdb = report (incCounter fl ''replicator_out_bytes'' read_bytes (rdb_name rdb)) rdb;
                  rdb = (case iter of None \<Rightarrow> rdb
                         | Some it \<Rightarrow> rdb\<lparr>rdb_cached_iters :=
                             ReplicatedDB_putCachedIter now next_seq_no it (rdb_cached_iters rdb)\<rparr>)
              in Some (Inr updates, rdb)
        else
          let rdb = report (incCounter fl ''replicator_get_update_since_errors'' 1 (rdb_name rdb)) rdb;
              rdb = (case iter of None \<Rightarrow> rdb
                     | Some it \<Rightarrow> rdb\<lparr>rdb_cached_iters :=
                         ReplicatedDB_putCachedIter now expected_seq_no it (rdb_cached_iters rdb)\<rparr>)
          in Some (Inl (ReplicateException (msg status) SOURCE_READ_ERROR), rdb))"

text \<open>
  The operation starts with \<open>weak_db.lock()\<close>: the answer when the \<open>ReplicatedDB\<close> is gone.
\<close>

definition ReplicatedDB_serve_removed :: "replicate_request \<Rightarrow> replicate_exception" where
  "ReplicatedDB_serve_removed request =
    ReplicateException (req_db_name request @ '' has been removed'') SOURCE_NOT_FOUND"

text \<open>
  \<open>handleReplicateRequest\<close> itself: post the slave's sequence number, then submit the operation as
  call \<open>c\<close> of the condition variable, whose predicate asks for data beyond it. The outer \<open>None\<close> is the
  failed \<open>CHECK\<close> of the name; the boolean says whether a timer was registered.
\<close>

definition handleReplicateRequest_pred ::
  "('db, 'it, 'wb, 'raw) rocksdb_api \<Rightarrow> replicate_request \<Rightarrow> 'db \<Rightarrow> bool" where
  "handleReplicateRequest_pred api request db \<longleftrightarrow> req_seq_no request < db_GetLatestSequenceNumber api db"

definition ReplicatedDB_handleReplicateRequest ::
  "replicator_flags \<Rightarrow> ('db, 'it, 'wb, 'raw) rocksdb_api \<Rightarrow> nat \<Rightarrow> replicate_request \<Rightarrow>
   'it replicated_db \<Rightarrow> 'db \<Rightarrow> (bool \<times> 'it replicated_db) option" where
  "ReplicatedDB_handleReplicateRequest fl api c request rdb db =
    (if req_db_name request \<noteq> rdb_name rdb then None
     else
       let seq_no = req_seq_no request;
           rdb = (if replicator_replication_mode fl = 1 \<or> replicator_replication_mode fl = 2
                  then rdb\<lparr>rdb_max_seq_no_acked := do_post seq_no (rdb_max_seq_no_acked rdb)\<rparr> else rdb);
           p = handleReplicateRequest_pred api request db;
           (timer, cv) = NBCV_runIfConditionOrWaitForNotify p p c (of_int (req_max_wait_ms request)) (rdb_cond_var rdb)
       in Some (timer, rdb\<lparr>rdb_cond_var := cv\<rparr>))"

section \<open>What a request is answered with\<close>

definition upd_batch ::
  "('db, 'it, 'wb, 'raw) rocksdb_api \<Rightarrow> ('db, 'it, 'wb, 'op) rocksdb_abs \<Rightarrow> 'raw update \<Rightarrow> 'op batch" where
  "upd_batch api a u = abs_batch a (wb_of_Data api (raw_data u))"

text \<open>Every cached iterator stands where its key says.\<close>

definition cached_ok ::
  "('db, 'it, 'wb, 'raw) rocksdb_api \<Rightarrow> ('db, 'it, 'wb, 'op) rocksdb_abs \<Rightarrow> 'op batch list \<Rightarrow>
   (u64 \<times> 'it \<times> u64) list \<Rightarrow> bool" where
  "cached_ok api a l cs \<longleftrightarrow> (\<forall>(s, it, t) \<in> set cs.
     delivers api a l it \<and> s = of_nat (seq_len (take (abs_pos a it) l) + 1))"

lemma cached_ok_append:
  assumes "cached_ok api a l cs"
  shows "cached_ok api a (l @ m) cs"
proof -
  have "take (abs_pos a it) (l @ m) = take (abs_pos a it) l" if "delivers api a l it" for it
    using that by (simp add: delivers_def)
  with assms show ?thesis by (fastforce simp: cached_ok_def intro: delivers_append)
qed

lemma getCachedIter_set:
  "ReplicatedDB_getCachedIter seq_no cs = (r, cs') \<Longrightarrow>
     set cs' \<subseteq> set cs \<and> (\<forall>it. r = Some it \<longrightarrow> (\<exists>t. (seq_no, it, t) \<in> set cs))"
proof (induction seq_no cs arbitrary: cs' rule: ReplicatedDB_getCachedIter.induct)
  case (2 seq_no s it t cs)
  then show ?case by (fastforce split: if_splits prod.splits)
qed simp

lemma cleanIdle_set: "set (ReplicatedDB_cleanIdleCachedIters fl now cs) \<subseteq> set cs"
  by (induction cs rule: ReplicatedDB_cleanIdleCachedIters.induct) auto

lemma cached_ok_subset: "cached_ok api a l cs \<Longrightarrow> set cs' \<subseteq> set cs \<Longrightarrow> cached_ok api a l cs'"
  by (auto simp: cached_ok_def)

lemma ucast_count:
  assumes "rocksdb_spec api a"
  shows "ucast (wb_Count api wb) = (of_nat (length (fst (abs_batch a wb))) :: u64)"
  using rocksdb_batch(2) [OF assms, of wb]
  by (simp add: rocksdb_batch(1) [OF assms] unsigned_of_nat take_bit_nat_eq_self)

lemma collect_updates_correct:
  assumes spec: "rocksdb_spec api a"
    and "collect_updates api junk db n it next_seq_no read_bytes = Some (us, it', next', rb)"
    and "delivers api a (abs_log a db) it"
    and "next_seq_no = of_nat (seq_len (take (abs_pos a it) (abs_log a db)) + 1)"
  shows "length us \<le> n \<and> delivers api a (abs_log a db) it' \<and> abs_pos a it' = abs_pos a it + length us \<and>
    map (upd_batch api a) us = take (length us) (drop (abs_pos a it) (abs_log a db)) \<and>
    next' = of_nat (seq_len (take (abs_pos a it') (abs_log a db)) + 1)"
  using assms(2-)
proof (induction n arbitrary: it next_seq_no read_bytes us)
  case (Suc n)
  let ?l = "abs_log a db" and ?p = "abs_pos a it" and ?wb = "it_GetBatch api it"
  show ?case
  proof (cases "it_Valid api it")
    case True
    obtain ret blobs where it: "wb_Iterate api ?wb = (ret, blobs)" by fastforce
    with Suc.prems True obtain ms us' where
      us: "us = \<lparr>raw_data = wb_Data api ?wb, timestamp = if status_ok ret then ms else 0\<rparr> # us'" and
      rec: "collect_updates api junk db n (it_Next api db it) (next_seq_no + ucast (wb_Count api ?wb))
        (read_bytes + raw_size api (wb_Data api ?wb)) = Some (us', it', next', rb)"
      by (auto simp: Let_def split: option.splits)
    have p: "?p < length ?l" and b: "abs_batch a ?wb = ?l ! ?p"
      using Suc.prems(2) True by (simp_all add: delivers_def)
    note nxt = rocksdb_next [OF spec Suc.prems(2)]
    have "next_seq_no + ucast (wb_Count api ?wb) = of_nat (seq_len (take (abs_pos a (it_Next api db it)) ?l) + 1)"
      by (simp add: Suc.prems(3) ucast_count [OF spec] nxt(2) True seq_len_take_Suc [OF p] b)
    from Suc.IH [OF rec nxt(1) this] nxt(2) True show ?thesis
      using p by (simp add: us upd_batch_def rocksdb_batch(3) [OF spec] b Cons_nth_drop_Suc [symmetric])
  qed (use Suc.prems in auto)
qed auto

text \<open>A request for the sequence number after the first \<open>n\<close> batches is read from position \<open>n\<close>.\<close>

lemma cached_iter_position:
  assumes spec: "rocksdb_spec api a" and ne: "no_empty_batch (abs_log a db)"
    and n: "n \<le> length (abs_log a db)" and ok: "cached_ok api a (abs_log a db) cs"
    and mem: "(of_nat (seq_len (take n (abs_log a db)) + 1), it, t) \<in> set cs"
  shows "abs_pos a it = n \<and> delivers api a (abs_log a db) it"
proof -
  let ?l = "abs_log a db"
  have d: "delivers api a ?l it"
    and eq: "(of_nat (seq_len (take n ?l) + 1) :: u64) = of_nat (seq_len (take (abs_pos a it) ?l) + 1)"
    using ok mem by (auto simp: cached_ok_def)
  have "seq_len (take m ?l) < max_sequence" for m
    using seq_len_take_le [of m ?l] rocksdb_latest(2) [OF spec, of db] by simp
  then have "seq_len (take n ?l) = seq_len (take (abs_pos a it) ?l)"
    using of_nat_seq_inj [OF _ _ eq] by blast
  moreover have "abs_pos a it \<le> length ?l" using d by (simp add: delivers_def)
  ultimately show ?thesis using seq_len_take_inj [OF ne n] d by simp
qed

lemma serve_cached_iter_correct:
  assumes "rocksdb_spec api a" "no_empty_batch (abs_log a db)" "n \<le> length (abs_log a db)"
    and "cached_ok api a (abs_log a db) (rdb_cached_iters rdb)"
    and "serve_cached_iter api (of_nat (seq_len (take n (abs_log a db)) + 1)) rdb db = (iter, rdb')"
  shows "(\<forall>it. iter = Some it \<longrightarrow> abs_pos a it = n \<and> delivers api a (abs_log a db) it) \<and>
    cached_ok api a (abs_log a db) (rdb_cached_iters rdb') \<and>
    rdb' = rdb\<lparr>rdb_cached_iters := rdb_cached_iters rdb'\<rparr>"
proof -
  let ?s = "of_nat (seq_len (take n (abs_log a db)) + 1) :: u64"
  obtain r cs where g: "ReplicatedDB_getCachedIter ?s (rdb_cached_iters rdb) = (r, cs)" by fastforce
  note gs = getCachedIter_set [OF g]
  have pos: "abs_pos a it = n \<and> delivers api a (abs_log a db) it" if "r = Some it" for it
    using cached_iter_position [OF assms(1-4)] gs that by blast
  have "cached_ok api a (abs_log a db) cs" using cached_ok_subset [OF assms(4)] gs by blast
  with assms(5) g pos show ?thesis
    by (auto simp: serve_cached_iter_def Let_def rocksdb_next [OF assms(1)] split: option.splits if_splits)
qed

lemma serve_iter_correct:
  assumes "rocksdb_spec api a" "no_empty_batch (abs_log a db)" "n \<le> length (abs_log a db)"
    and "cached_ok api a (abs_log a db) (rdb_cached_iters rdb)"
    and "serve_iter fl api t_start t_end (of_nat (seq_len (take n (abs_log a db)) + 1)) rdb db = (st, iter, rdb')"
  shows "(\<forall>it. iter = Some it \<longrightarrow> abs_pos a it = n \<and> delivers api a (abs_log a db) it) \<and>
    cached_ok api a (abs_log a db) (rdb_cached_iters rdb') \<and>
    rdb' = rdb\<lparr>rdb_cached_iters := rdb_cached_iters rdb', rdb_stats := rdb_stats rdb'\<rparr>"
proof -
  obtain it0 rdb0 where c: "serve_cached_iter api (of_nat (seq_len (take n (abs_log a db)) + 1)) rdb db = (it0, rdb0)"
    by fastforce
  note cc = serve_cached_iter_correct [OF assms(1-4) c]
  show ?thesis
  proof (cases it0)
    case None
    with cc c assms(5) rocksdb_updates_since [OF assms(1-3)] show ?thesis
      by (auto simp: serve_iter_def report_def split: prod.splits)
  next
    case (Some it)
    with cc c assms(5) show ?thesis by (auto simp: serve_iter_def)
  qed
qed

text \<open>The effect of a serve, for the system below.\<close>

lemma ReplicatedDB_serve_correct:
  assumes "rocksdb_spec api a" "no_empty_batch (abs_log a db)" "n \<le> length (abs_log a db)"
    and "cached_ok api a (abs_log a db) (rdb_cached_iters rdb)"
    and seq: "req_seq_no request = of_nat (seq_len (take n (abs_log a db)))"
    and serve: "ReplicatedDB_serve fl api junk msg t_start t_end now request rdb db = Some (r, rdb')"
  shows "cached_ok api a (abs_log a db) (rdb_cached_iters rdb') \<and>
    rdb_name rdb' = rdb_name rdb \<and> rdb_role rdb' = rdb_role rdb \<and>
    (case r of
       Inl e \<Rightarrow> rdb_max_seq_no_acked rdb' = rdb_max_seq_no_acked rdb
     | Inr us \<Rightarrow> length us \<le> nat (req_max_updates request) \<and>
         map (upd_batch api a) us = take (length us) (drop n (abs_log a db)) \<and>
         rdb_max_seq_no_acked rdb' =
           (if replicator_replication_mode fl = 1
            then do_post (of_nat (seq_len (take (n + length us) (abs_log a db)))) (rdb_max_seq_no_acked rdb)
            else rdb_max_seq_no_acked rdb))"
proof -
  let ?l = "abs_log a db"
  define e where "e = req_seq_no request + 1"
  have e: "e = of_nat (seq_len (take n ?l) + 1)" and e1: "e - 1 = of_nat (seq_len (take n ?l))"
    by (simp_all add: e_def seq)
  obtain st iter rdb0 where i: "serve_iter fl api t_start t_end e rdb db = (st, iter, rdb0)"
    by (metis prod_cases3)
  note sv = serve [unfolded ReplicatedDB_serve_def Let_def, folded e_def, unfolded i, simplified]
  note si = serve_iter_correct [OF assms(1-4) i [unfolded e]]
  then obtain cs sts where rdb0: "rdb0 = rdb\<lparr>rdb_cached_iters := cs, rdb_stats := sts\<rparr>"
    and cs: "cached_ok api a ?l cs" by metis
  have ok: "cached_ok api a ?l (cs @ [(of_nat (seq_len (take (abs_pos a it) ?l) + 1), it, now)])"
    if "delivers api a ?l it" for it
    using cs that by (auto simp: cached_ok_def)
  show ?thesis
  proof (cases iter)
    case None
    with sv rdb0 cs e1 show ?thesis by (auto simp: report_def split: if_splits)
  next
    case (Some it)
    with si have it: "abs_pos a it = n" "delivers api a ?l it" by auto
    show ?thesis
    proof (cases "st = StOk \<or> st = StNotFound")
      case True
      with sv Some obtain us it' next' rb where
        c: "collect_updates api junk db (nat (req_max_updates request)) it e 0 = Some (us, it', next', rb)"
        by (auto split: option.splits)
      from collect_updates_correct [OF assms(1) c it(2)] it(1) e
      have "length us \<le> nat (req_max_updates request)" "delivers api a ?l it'" "abs_pos a it' = n + length us"
        "map (upd_batch api a) us = take (length us) (drop n ?l)"
        "next' = of_nat (seq_len (take (abs_pos a it') ?l) + 1)" by auto
      with True sv Some c ok [of it'] rdb0 show ?thesis
        by (auto simp: report_def ReplicatedDB_putCachedIter_def)
    next
      case False
      with sv Some ok [OF it(2)] it(1) rdb0 e show ?thesis
        by (auto simp: report_def ReplicatedDB_putCachedIter_def)
    qed
  qed
qed

section \<open>What a write and a response do to the log\<close>

text \<open>The batch as it is stored: with the timestamp as its last blob.\<close>

definition stamped :: "u64 \<Rightarrow> 'op batch \<Rightarrow> 'op batch" where
  "stamped ms b = (fst b, snd b @ [u64_bytes ms])"

lemma fst_stamped [simp]: "fst (stamped ms b) = fst b"
  by (simp add: stamped_def)

lemma rdb_report_simps [simp]:
  "rdb_name (report evs rdb) = rdb_name rdb" "rdb_role (report evs rdb) = rdb_role rdb"
  "rdb_cond_var (report evs rdb) = rdb_cond_var rdb" "rdb_upstream_addr (report evs rdb) = rdb_upstream_addr rdb"
  "rdb_cached_iters (report evs rdb) = rdb_cached_iters rdb"
  "rdb_max_seq_no_acked (report evs rdb) = rdb_max_seq_no_acked rdb"
  by (simp_all add: report_def)

lemma Write_commit_correct:
  assumes spec: "rocksdb_spec api a"
    and w: "ReplicatedDB_Write_commit fl api ms t_start t_end wb rdb db = (out, rdb', db')"
  shows "rdb_name rdb' = rdb_name rdb \<and> rdb_role rdb' = rdb_role rdb \<and>
    rdb_cached_iters rdb' = rdb_cached_iters rdb \<and> rdb_max_seq_no_acked rdb' = rdb_max_seq_no_acked rdb \<and>
    (if rdb_role rdb = SLAVE then out = WriteThrows WRITE_TO_SLAVE \<and> rdb' = rdb \<and> db' = db
     else if \<exists>st. out = WriteDone st None then abs_log a db' = abs_log a db
     else abs_log a db' = abs_log a db @ [stamped ms (abs_batch a wb)] \<and>
       rdb_cond_var rdb' = NBCV_notifyAll (rdb_cond_var rdb) \<and>
       (let cur = of_nat (seq_len (abs_log a db')) in
        out = (if replicator_replication_mode fl = 1 \<or> replicator_replication_mode fl = 2 then WriteWaits cur
               else if replicator_replication_mode fl = 0 then WriteDone StOk (Some cur) else WriteFatal)))"
proof -
  obtain st db1 where d: "db_Write api db (wb_PutLogData api (u64_bytes ms) wb) = (st, db1)" by fastforce
  from rocksdb_write [OF spec d] w d show ?thesis
    by (auto simp: ReplicatedDB_Write_commit_def Let_def status_ok_def stamped_def rocksdb_latest(1) [OF spec]
        rocksdb_batch(4) [OF spec] split: if_splits)
qed

lemma apply_updates_correct:
  assumes spec: "rocksdb_spec api a"
    and "apply_updates fl api name now us wb db = (evs, wb', db', failed)"
  shows "\<exists>k \<le> length us. (failed \<longleftrightarrow> k < length us) \<and>
    abs_log a db' = abs_log a db @ map (\<lambda>u. stamped (timestamp u) (upd_batch api a u)) (take k us)"
  using assms(2)
proof (induction us arbitrary: wb db evs)
  case (Cons u us)
  let ?wb = "wb_PutLogData api (u64_bytes (timestamp u)) (wb_of_Data api (raw_data u))"
  obtain st db1 where d: "db_Write api db ?wb = (st, db1)" by fastforce
  note w = rocksdb_write [OF spec d]
  show ?case
  proof (cases "st = StOk")
    case True
    with Cons.prems d obtain evs' where
      "apply_updates fl api name now us (wb + raw_size api (raw_data u)) db1 = (evs', wb', db', failed)"
      by (auto simp: Let_def status_ok_def split: prod.splits)
    from Cons.IH [OF this] obtain k where "k \<le> length us" "failed \<longleftrightarrow> k < length us"
      "abs_log a db' = abs_log a db1 @ map (\<lambda>u. stamped (timestamp u) (upd_batch api a u)) (take k us)" by blast
    with True w show ?thesis
      by (intro exI [of _ "Suc k"]) (simp add: stamped_def upd_batch_def rocksdb_batch(4) [OF spec])
  next
    case False
    with Cons.prems d w show ?thesis by (intro exI [of _ 0]) (auto simp: Let_def status_ok_def)
  qed
qed simp

lemma onPullResult_correct:
  assumes "rocksdb_spec api a" "ReplicatedDB_onPullResult fl api now t rdb db = (np, rdb', db')"
  shows "rdb_name rdb' = rdb_name rdb \<and> rdb_role rdb' = rdb_role rdb \<and>
    rdb_cached_iters rdb' = rdb_cached_iters rdb \<and> rdb_max_seq_no_acked rdb' = rdb_max_seq_no_acked rdb \<and>
    (case t of
       PullResponse us \<Rightarrow> \<exists>k \<le> length us. (np = PullNow \<longleftrightarrow> k = length us) \<and>
         abs_log a db' = abs_log a db @ map (\<lambda>u. stamped (timestamp u) (upd_batch api a u)) (take k us)
     | _ \<Rightarrow> db' = db \<and> np \<noteq> PullNow)"
proof (cases t)
  case (PullResponse us)
  obtain evs wb db1 failed where ap: "apply_updates fl api (rdb_name rdb) now us 0 db = (evs, wb, db1, failed)"
    by (metis prod_cases4)
  from apply_updates_correct [OF assms(1) ap] obtain k where
    "k \<le> length us" "failed \<longleftrightarrow> k < length us"
    "abs_log a db1 = abs_log a db @ map (\<lambda>u. stamped (timestamp u) (upd_batch api a u)) (take k us)" by blast
  with ap assms(2) PullResponse show ?thesis
    by (auto simp: ReplicatedDB_onPullResult_def Let_def split: if_splits intro!: exI [of _ k])
qed (use assms(2) in \<open>auto simp: ReplicatedDB_onPullResult_def\<close>)

section \<open>Properties of one database\<close>

lemma LogExtractor_last:
  "(\<forall>b \<in> set blobs. length b = 8) \<Longrightarrow>
     LogExtractor_LogData ms blobs = Some (if blobs = [] then ms else bytes_u64 (last blobs))"
  by (induction blobs arbitrary: ms) auto

text \<open>
  (C30) The time a batch was first written survives replication: the timestamp extracted from a batch to
  which \<open>Write\<close> (or a slave applying an update) has just attached \<open>ms\<close> is \<open>ms\<close>, whatever the extractor's
  uninitialised member held, provided the blobs already in the batch have the size of a timestamp.
\<close>

theorem timestamp_round_trip:
  assumes "rocksdb_spec api a" "\<forall>b \<in> set (snd (abs_batch a wb)). length b = 8"
  shows "LogExtractor_LogData junk (snd (abs_batch a (wb_PutLogData api (u64_bytes ms) wb))) = Some ms"
  using assms(2) by (auto simp: rocksdb_batch(4) [OF assms(1)] LogExtractor_last)

theorem timestamp_round_trip_witness:
  "LogExtractor_LogData 0 (snd (abs_batch list_abs (wb_PutLogData list_api (u64_bytes 1234) ([5], [u64_bytes 77])))) = Some 1234"
  using timestamp_round_trip [OF list_api_spec, of "([5], [u64_bytes 77])" 0 1234]
  by (simp add: list_abs_def list_batch_def)

text \<open>
  A batch that carries a log data blob of another size is committed by \<open>Write\<close>, but the \<open>CHECK\<close> of
  \<open>LogExtractor\<close> then aborts the process that serves it to a slave.
\<close>

theorem foreign_log_data_aborts:
  assumes "it_Valid api it" "0 < n" "wb_Iterate api (it_GetBatch api it) = (st, blobs)"
    and "\<exists>b \<in> set blobs. length b \<noteq> 8"
  shows "collect_updates api junk db n it next_seq_no read_bytes = None"
proof -
  have "LogExtractor_LogData ms blobs = None" for ms
    using assms(4) by (induction blobs arbitrary: ms) auto
  with assms show ?thesis by (cases n) (auto simp: Let_def)
qed

theorem foreign_log_data_aborts_witness:
  "collect_updates list_api (\<lambda>_. 0) [([5], [[1, 2]])] 50 (0, Some ([5], [[1, 2]])) 1 0 = None"
  by (rule foreign_log_data_aborts [where blobs = "[[1, 2]]" and st = StOk]) (simp_all add: list_api_def)

lemma collect_updates_returns:
  assumes spec: "rocksdb_spec api a" and "delivers api a (abs_log a db) it"
    and iterate: "\<And>wb. fst (wb_Iterate api wb) = StOk"
    and size: "\<forall>b \<in> set (abs_log a db). \<forall>x \<in> set (snd b). length x = 8"
  shows "\<exists>us it' nx rb. collect_updates api junk db n it next_seq_no read_bytes = Some (us, it', nx, rb) \<and>
    (0 < n \<and> it_Valid api it \<longrightarrow> us \<noteq> [])"
  using assms(2)
proof (induction n arbitrary: it next_seq_no read_bytes)
  case (Suc n)
  let ?wb = "it_GetBatch api it"
  show ?case
  proof (cases "it_Valid api it")
    case True
    obtain blobs where it: "wb_Iterate api ?wb = (StOk, blobs)" using iterate by (metis prod.collapse)
    have "abs_batch a ?wb \<in> set (abs_log a db)" using Suc.prems True by (simp add: delivers_def)
    then have "LogExtractor_LogData (junk n) blobs \<noteq> None"
      using rocksdb_batch(5) [OF spec it] size by (simp add: LogExtractor_last)
    with True it Suc.IH [OF rocksdb_next(1) [OF spec Suc.prems]] show ?thesis
      by (fastforce simp: Let_def)
  qed simp
qed simp

text \<open>
  (C8) Progress: when the log extends beyond the requested position, the request allows at least one
  update and RocksDB hands out a valid iterator for the position, the request is answered with at least
  one update, and the updates are the batches from the requested position on.
\<close>

theorem serve_progress:
  assumes "rocksdb_spec api a" "no_empty_batch (abs_log a db)" "n < length (abs_log a db)"
    and "cached_ok api a (abs_log a db) (rdb_cached_iters rdb)"
    and "req_seq_no request = of_nat (seq_len (take n (abs_log a db)))" "0 < req_max_updates request"
    and since: "db_GetUpdatesSince api db (req_seq_no request + 1) = (StOk, Some it)" "it_Valid api it"
    and iterate: "\<And>wb. fst (wb_Iterate api wb) = StOk"
    and size: "\<forall>b \<in> set (abs_log a db). \<forall>x \<in> set (snd b). length x = 8"
  shows "\<exists>us rdb'. ReplicatedDB_serve fl api junk msg t_start t_end now request rdb db = Some (Inr us, rdb') \<and>
    us \<noteq> [] \<and> map (upd_batch api a) us = take (length us) (drop n (abs_log a db))"
proof -
  let ?e = "req_seq_no request + 1"
  obtain st iter rdb0 where i: "serve_iter fl api t_start t_end ?e rdb db = (st, iter, rdb0)" by (metis prod_cases3)
  then obtain it' where it': "iter = Some it'" "st = StOk" "it_Valid api it'"
    using since by (auto simp: serve_iter_def serve_cached_iter_def Let_def split: prod.splits option.splits if_splits)
  from i assms(5) serve_iter_correct [OF assms(1,2) _ assms(4), of n fl t_start t_end st iter rdb0] it' assms(3)
  have "delivers api a (abs_log a db) it'" by (simp add: add.commute)
  from collect_updates_returns [OF assms(1) this iterate size, of junk "nat (req_max_updates request)" ?e 0]
  obtain us it'' nx rb where c: "us \<noteq> []" "collect_updates api junk db (nat (req_max_updates request)) it' ?e 0
      = Some (us, it'', nx, rb)" using it'(3) assms(6) by auto
  then obtain rdb' where s: "ReplicatedDB_serve fl api junk msg t_start t_end now request rdb db = Some (Inr us, rdb')"
    using i it' by (simp add: ReplicatedDB_serve_def Let_def)
  from ReplicatedDB_serve_correct [OF assms(1,2) _ assms(4,5) s] assms(3) c(1) s show ?thesis by simp
qed

definition ex_flags :: replicator_flags where
  "ex_flags = \<lparr>replicator_max_server_wait_time_ms = 10000, replicator_max_updates_per_response = 50,
     replicator_pull_delay_on_error_ms = 5000, replicator_replication_mode = 2, replicator_timeout_ms = 5000,
     replicator_idle_iter_timeout_ms = 60000, replicator_enable_per_db_stats = True\<rparr>"

definition ex_db :: list_db where
  "ex_db = [([7], [u64_bytes 3]), ([8, 9], [u64_bytes 4])]"

lemma ex_db_log [simp]: "list_log ex_db = ex_db" "abs_log list_abs ex_db = ex_db"
  by (simp_all add: ex_db_def list_abs_def list_log_def list_batch_def max_sequence_def)

lemma ex_db_position: "list_position ex_db 2 = Some 1" "list_position ex_db 10 = None"
  by (simp_all add: list_position_def ex_db_def upt_rec)

theorem serve_progress_witness:
  "\<exists>us rdb'. ReplicatedDB_serve ex_flags list_api (\<lambda>_. 0) (\<lambda>_. []) 0 0 0
      \<lparr>req_seq_no = 1, req_db_name = ''db'', req_max_wait_ms = 0, req_max_updates = 50\<rparr>
      (ReplicatedDB_ctor ''db'' MASTER []) ex_db = Some (Inr us, rdb') \<and>
    us \<noteq> [] \<and> map (upd_batch list_api list_abs) us = take (length us) (drop 1 (abs_log list_abs ex_db))"
proof (rule serve_progress [OF list_api_spec])
  show "db_GetUpdatesSince list_api ex_db (req_seq_no
      \<lparr>req_seq_no = 1, req_db_name = ''db'', req_max_wait_ms = 0, req_max_updates = 50\<rparr> + 1)
      = (StOk, Some (1, Some ([8, 9], [u64_bytes 4])))"
    by (simp add: list_api_def ex_db_position list_at_def) (simp add: ex_db_def)
qed (simp_all add: ex_db_def no_empty_batch_def ReplicatedDB_ctor_def cached_ok_def list_api_def
    list_abs_def list_log_def list_batch_def max_sequence_def)

text \<open>
  A request with \<open>max_updates\<close> zero is answered without any update, although the interface describes
  zero as no limit.
\<close>

theorem max_updates_zero_answers_nothing:
  assumes "ReplicatedDB_serve fl api junk msg t_start t_end now request rdb db = Some (Inr us, rdb')"
    and "req_max_updates request \<le> 0"
  shows "us = []"
  using assms by (auto simp: ReplicatedDB_serve_def Let_def split: prod.splits if_splits option.splits)

theorem max_updates_zero_answers_nothing_witness:
  "fst (the (ReplicatedDB_serve ex_flags list_api (\<lambda>_. 0) (\<lambda>_. []) 0 0 0
      \<lparr>req_seq_no = 9, req_db_name = ''db'', req_max_wait_ms = 0, req_max_updates = 0\<rparr>
      (ReplicatedDB_ctor ''db'' MASTER []) ex_db)) = Inr []"
proof -
  obtain us rdb' where s: "ReplicatedDB_serve ex_flags list_api (\<lambda>_. 0) (\<lambda>_. []) 0 0 0
      \<lparr>req_seq_no = 9, req_db_name = ''db'', req_max_wait_ms = 0, req_max_updates = 0\<rparr>
      (ReplicatedDB_ctor ''db'' MASTER []) ex_db = Some (Inr us, rdb')"
    by (simp add: ReplicatedDB_serve_def serve_iter_def serve_cached_iter_def ReplicatedDB_ctor_def
        list_api_def Let_def ex_db_position)
  from max_updates_zero_answers_nothing [OF s] s show ?thesis by simp
qed

text \<open>
  A request with \<open>max_wait_ms\<close> zero for data that does not exist yet is parked without a timer: it is
  answered only by a later notification or the destruction of the database, although the interface
  describes zero as no wait at all.
\<close>

theorem no_wait_request_is_parked:
  assumes "req_db_name request = rdb_name rdb" "req_max_wait_ms request = 0"
    and "\<not> handleReplicateRequest_pred api request db"
  shows "\<exists>rdb'. ReplicatedDB_handleReplicateRequest fl api c request rdb db = Some (False, rdb') \<and>
    c \<in> set (cv_tasks (rdb_cond_var rdb')) \<and> executor (rdb_cond_var rdb') = executor (rdb_cond_var rdb)"
  using assms by (simp add: ReplicatedDB_handleReplicateRequest_def NBCV_runIfConditionOrWaitForNotify_def
      NBCV_first_test_def NBCV_push_def NBCV_second_test_def Let_def)

theorem no_wait_request_is_parked_witness:
  "\<exists>rdb'. ReplicatedDB_handleReplicateRequest ex_flags list_api 6
      \<lparr>req_seq_no = 3, req_db_name = ''db'', req_max_wait_ms = 0, req_max_updates = 50\<rparr>
      (ReplicatedDB_ctor ''db'' MASTER []) ex_db = Some (False, rdb') \<and>
    6 \<in> set (cv_tasks (rdb_cond_var rdb')) \<and> executor (rdb_cond_var rdb') = []"
  using no_wait_request_is_parked [of "\<lparr>req_seq_no = 3, req_db_name = ''db'', req_max_wait_ms = 0, req_max_updates = 50\<rparr>"
      "ReplicatedDB_ctor ''db'' MASTER []" list_api ex_db ex_flags 6]
  by (simp add: ReplicatedDB_ctor_def handleReplicateRequest_pred_def list_api_def NBCV_ctor_def)
    (simp add: ex_db_def)

end
