(* ===== verification/Replication.thy ===== *)
theory Replication
  imports Replicated_Db
begin

text \<open>
  The replication protocol: databases that pull from an upstream (\<open>up\<close>), in any topology, each with
  the handlers of \<open>Replicated_Db\<close>. The network may lose and delay calls, a caller may give up at any
  time and its request be served later, the condition variable may schedule a parked request at any
  time, writers block on the acknowledgement box, iterators are cleaned up. RocksDB satisfies
  \<open>rocksdb_spec\<close>.

  The theorems: the operations of a slave are a prefix of those of its upstream, whatever happens; and
  in replication mode 2 a write that was acknowledged is in the log of a slave.
\<close>

section \<open>The system\<close>

datatype 'raw call_phase = Sent | Parked | Answered "'raw pull_result"

text \<open>
  \<open>pulls i\<close> is the call whose future database \<open>i\<close> is waiting for; \<open>calls\<close> are all calls the network or
  an upstream still knows, with the caller, the request and how far they got.
\<close>

record ('db, 'it, 'raw) repl_sys =
  rdbs :: "nat \<Rightarrow> 'it replicated_db"
  dbs :: "nat \<Rightarrow> 'db"
  pulls :: "nat \<Rightarrow> nat option"
  calls :: "nat \<rightharpoonup> nat \<times> replicate_request \<times> 'raw call_phase"

text \<open>A writer whose write must be acknowledged goes on into \<open>max_seq_no_acked_.wait\<close>.\<close>

definition begin_wait :: "replicator_flags \<Rightarrow> tid \<Rightarrow> write_outcome \<Rightarrow> 'it replicated_db \<Rightarrow> 'it replicated_db" where
  "begin_wait fl t out rdb =
    (case out of
       WriteWaits cur_seq_no \<Rightarrow>
         rdb\<lparr>rdb_max_seq_no_acked := do_call t cur_seq_no (replicator_timeout_ms fl) (rdb_max_seq_no_acked rdb)\<rparr>
     | _ \<Rightarrow> rdb)"

definition answer :: "replicate_exception + 'raw update list \<Rightarrow> 'raw pull_result" where
  "answer r = (case r of Inl e \<Rightarrow> PullAppException e | Inr us \<Rightarrow> PullResponse us)"

definition set_node :: "nat \<Rightarrow> 'it replicated_db \<Rightarrow> 'db \<Rightarrow> ('db, 'it, 'raw) repl_sys \<Rightarrow> ('db, 'it, 'raw) repl_sys" where
  "set_node u rdb db s = s\<lparr>rdbs := (rdbs s)(u := rdb), dbs := (dbs s)(u := db)\<rparr>"

inductive repl_step ::
  "replicator_flags \<Rightarrow> ('db, 'it, 'wb, 'raw) rocksdb_api \<Rightarrow> (nat \<Rightarrow> nat) \<Rightarrow>
   ('db, 'it, 'raw) repl_sys \<Rightarrow> ('db, 'it, 'raw) repl_sys \<Rightarrow> bool"
  for fl :: replicator_flags and api :: "('db, 'it, 'wb, 'raw) rocksdb_api" and up :: "nat \<Rightarrow> nat" where
  writes:
    "ReplicatedDB_Write_commit fl api ms t_start t_end wb (rdbs s u) (dbs s u) = (out, rdb', db') \<Longrightarrow>
     wb_Count api wb \<noteq> 0 \<Longrightarrow> wait_pc (rdb_max_seq_no_acked (rdbs s u)) t = Outside \<Longrightarrow>
     repl_step fl api up s (set_node u (begin_wait fl t out rdb') db' s)"
| waiters:
    "box_step (rdb_max_seq_no_acked (rdbs s u)) b \<Longrightarrow> posted b = posted (rdb_max_seq_no_acked (rdbs s u)) \<Longrightarrow>
     repl_step fl api up s (set_node u ((rdbs s u)\<lparr>rdb_max_seq_no_acked := b\<rparr>) (dbs s u) s)"
| pull:
    "pulls s i = None \<Longrightarrow> calls s c = None \<Longrightarrow>
     ReplicatedDB_pullFromUpstream fl api (rdbs s i) (dbs s i) = Some req \<Longrightarrow>
     repl_step fl api up s (s\<lparr>pulls := (pulls s)(i \<mapsto> c), calls := (calls s)(c \<mapsto> (i, req, Sent))\<rparr>)"
| arrive:
    "calls s c = Some (i, req, Sent) \<Longrightarrow>
     ReplicatedDB_handleReplicateRequest fl api c req (rdbs s (up i)) (dbs s (up i)) = Some (timer, rdb') \<Longrightarrow>
     repl_step fl api up s (set_node (up i) rdb' (dbs s (up i)) (s\<lparr>calls := (calls s)(c \<mapsto> (i, req, Parked))\<rparr>))"
| serve:
    "calls s c = Some (i, req, Parked) \<Longrightarrow>
     ReplicatedDB_serve fl api junk msg t_start t_end now req (rdbs s (up i)) (dbs s (up i)) = Some (r, rdb') \<Longrightarrow>
     repl_step fl api up s (set_node (up i) rdb' (dbs s (up i))
       (s\<lparr>calls := (calls s)(c \<mapsto> (i, req, Answered (answer r)))\<rparr>))"
| receive:
    "pulls s i = Some c \<Longrightarrow> calls s c = Some (i, req, Answered t) \<Longrightarrow>
     ReplicatedDB_onPullResult fl api now t (rdbs s i) (dbs s i) = (np, rdb', db') \<Longrightarrow>
     repl_step fl api up s (set_node i rdb' db' (s\<lparr>pulls := (pulls s)(i := None), calls := (calls s)(c := None)\<rparr>))"
| give_up:
    "pulls s i = Some c \<Longrightarrow>
     ReplicatedDB_onPullResult fl api now PullStdException (rdbs s i) (dbs s i) = (np, rdb', db') \<Longrightarrow>
     repl_step fl api up s (set_node i rdb' db' (s\<lparr>pulls := (pulls s)(i := None)\<rparr>))"
| clean:
    "repl_step fl api up s (set_node u ((rdbs s u)\<lparr>rdb_cached_iters :=
       ReplicatedDB_cleanIdleCachedIters fl now (rdb_cached_iters (rdbs s u))\<rparr>) (dbs s u) s)"

section \<open>The invariant\<close>

abbreviation log_of :: "('db, 'it, 'wb, 'op) rocksdb_abs \<Rightarrow> ('db, 'it, 'raw) repl_sys \<Rightarrow> nat \<Rightarrow> 'op batch list" where
  "log_of a s u \<equiv> abs_log a (dbs s u)"

definition node_inv where
  "node_inv api a s u \<longleftrightarrow> no_empty_batch (log_of a s u) \<and>
     cached_ok api a (log_of a s u) (rdb_cached_iters (rdbs s u)) \<and> box_inv 0 (rdb_max_seq_no_acked (rdbs s u))"

definition link_inv where
  "link_inv a up s i \<longleftrightarrow> (rdb_role (rdbs s i) = SLAVE \<longrightarrow>
     prefix (map fst (log_of a s i)) (map fst (log_of a s (up i))))"

text \<open>
  A request asks from a batch boundary of the upstream, not beyond what its sender has; the request a
  slave waits for asks from the end of its log, and its answer continues there.
\<close>

definition call_inv where
  "call_inv api a up s c \<longleftrightarrow> (\<forall>i req ph. calls s c = Some (i, req, ph) \<longrightarrow>
     rdb_role (rdbs s i) = SLAVE \<and>
     (\<exists>n \<le> length (log_of a s (up i)). req_seq_no req = of_nat (seq_len (take n (log_of a s (up i)))) \<and>
        seq_len (take n (log_of a s (up i))) \<le> seq_len (log_of a s i)) \<and>
     (pulls s i = Some c \<longrightarrow> req_seq_no req = of_nat (seq_len (log_of a s i)) \<and>
       (\<forall>us. ph = Answered (PullResponse us) \<longrightarrow>
          prefix (map fst (log_of a s i) @ map (fst \<circ> upd_batch api a) us) (map fst (log_of a s (up i))))))"

definition pull_inv where
  "pull_inv s i \<longleftrightarrow> (\<forall>c. pulls s i = Some c \<longrightarrow> (\<exists>req ph. calls s c = Some (i, req, ph)))"

text \<open>In mode 2 whatever was posted to the box of \<open>u\<close> is in the log of a slave of \<open>u\<close>.\<close>

definition post_inv where
  "post_inv fl a up s u \<longleftrightarrow> (replicator_replication_mode fl = 2 \<longrightarrow>
     (\<forall>p \<in> set (posted (rdb_max_seq_no_acked (rdbs s u))).
        \<exists>i. up i = u \<and> rdb_role (rdbs s i) = SLAVE \<and> unat p \<le> seq_len (log_of a s i)))"

definition repl_inv where
  "repl_inv fl api a up s \<longleftrightarrow> (\<forall>u. node_inv api a s u \<and> link_inv a up s u \<and> pull_inv s u \<and> post_inv fl a up s u) \<and>
     (\<forall>c. call_inv api a up s c)"

definition repl_init where
  "repl_init a up s \<longleftrightarrow> (\<forall>u. no_empty_batch (log_of a s u) \<and> rdb_cached_iters (rdbs s u) = [] \<and>
      rdb_max_seq_no_acked (rdbs s u) = box_idle 0 \<and> link_inv a up s u \<and> pulls s u = None) \<and> calls s = Map.empty"

lemma set_node_simps [simp]:
  "rdbs (set_node u rdb db s) = (rdbs s)(u := rdb)" "dbs (set_node u rdb db s) = (dbs s)(u := db)"
  "pulls (set_node u rdb db s) = pulls s" "calls (set_node u rdb db s) = calls s"
  by (simp_all add: set_node_def)

lemma repl_invD:
  assumes "repl_inv fl api a up s"
  shows "no_empty_batch (log_of a s u)" "cached_ok api a (log_of a s u) (rdb_cached_iters (rdbs s u))"
    "box_inv 0 (rdb_max_seq_no_acked (rdbs s u))" "link_inv a up s u" "pull_inv s u" "post_inv fl a up s u"
    "call_inv api a up s c"
  using assms by (simp_all add: repl_inv_def node_inv_def)

text \<open>
  A step of node \<open>u\<close> that extends its log by \<open>m\<close> keeps the invariant, provided it keeps the node's own
  part, and provided \<open>u\<close> waits for no answer in case it is a slave and its log changes.
\<close>

lemma grown_log:
  assumes "abs_log a db = log_of a s u @ m"
  shows "\<exists>m'. log_of a (set_node u rdb db s) v = log_of a s v @ m' \<and> (m' \<noteq> [] \<longrightarrow> v = u \<and> m' = m)"
  using assms by auto

lemma call_inv_set_node:
  assumes inv: "call_inv api a up s c"
    and log: "abs_log a db = log_of a s u @ m" and role: "rdb_role rdb = rdb_role (rdbs s u)"
    and idle: "m = [] \<or> rdb_role (rdbs s u) \<noteq> SLAVE \<or> pulls s u = None"
  shows "call_inv api a up (set_node u rdb db s) c"
  unfolding call_inv_def
proof (intro allI impI)
  let ?s = "set_node u rdb db s"
  fix i req ph
  assume "calls ?s c = Some (i, req, ph)"
  then have c: "calls s c = Some (i, req, ph)" by simp
  obtain mu where mu: "log_of a ?s (up i) = log_of a s (up i) @ mu" using grown_log [OF log] by blast
  obtain mi where mi: "log_of a ?s i = log_of a s i @ mi" and mi_u: "mi \<noteq> [] \<Longrightarrow> i = u \<and> mi = m"
    using grown_log [OF log] by blast
  from inv c obtain n where n: "n \<le> length (log_of a s (up i))"
      "req_seq_no req = of_nat (seq_len (take n (log_of a s (up i))))"
      "seq_len (take n (log_of a s (up i))) \<le> seq_len (log_of a s i)"
    and r: "rdb_role (rdbs s i) = SLAVE"
    and cur: "pulls s i = Some c \<Longrightarrow> req_seq_no req = of_nat (seq_len (log_of a s i)) \<and>
       (\<forall>us. ph = Answered (PullResponse us) \<longrightarrow>
          prefix (map fst (log_of a s i) @ map (fst \<circ> upd_batch api a) us) (map fst (log_of a s (up i))))"
    by (auto simp: call_inv_def)
  have "mi = []" if "pulls s i = Some c" using mi_u idle r that by fastforce
  then have "pulls s i = Some c \<Longrightarrow> req_seq_no req = of_nat (seq_len (log_of a ?s i)) \<and>
       (\<forall>us. ph = Answered (PullResponse us) \<longrightarrow>
          prefix (map fst (log_of a ?s i) @ map (fst \<circ> upd_batch api a) us) (map fst (log_of a ?s (up i))))"
    using cur unfolding mu mi by (auto intro: prefix_order.trans)
  moreover have "\<exists>n \<le> length (log_of a ?s (up i)). req_seq_no req = of_nat (seq_len (take n (log_of a ?s (up i)))) \<and>
        seq_len (take n (log_of a ?s (up i))) \<le> seq_len (log_of a ?s i)"
    using n unfolding mu mi by (intro exI [of _ n]) simp
  moreover have "rdb_role (rdbs ?s i) = SLAVE" using r role by auto
  ultimately show "rdb_role (rdbs ?s i) = SLAVE \<and>
     (\<exists>n \<le> length (log_of a ?s (up i)). req_seq_no req = of_nat (seq_len (take n (log_of a ?s (up i)))) \<and>
        seq_len (take n (log_of a ?s (up i))) \<le> seq_len (log_of a ?s i)) \<and>
     (pulls ?s i = Some c \<longrightarrow> req_seq_no req = of_nat (seq_len (log_of a ?s i)) \<and>
       (\<forall>us. ph = Answered (PullResponse us) \<longrightarrow>
          prefix (map fst (log_of a ?s i) @ map (fst \<circ> upd_batch api a) us) (map fst (log_of a ?s (up i)))))"
    by simp
qed

lemma repl_inv_set_node:
  assumes inv: "repl_inv fl api a up s"
    and log: "abs_log a db = log_of a s u @ m" and role: "rdb_role rdb = rdb_role (rdbs s u)"
    and node: "no_empty_batch m" "cached_ok api a (abs_log a db) (rdb_cached_iters rdb)"
      "box_inv 0 (rdb_max_seq_no_acked rdb)"
    and link: "rdb_role rdb = SLAVE \<Longrightarrow> prefix (map fst (log_of a s u @ m)) (map fst (log_of a s (up u)))"
    and idle: "m = [] \<or> rdb_role (rdbs s u) \<noteq> SLAVE \<or> pulls s u = None"
    and post: "\<And>p. replicator_replication_mode fl = 2 \<Longrightarrow> p \<in> set (posted (rdb_max_seq_no_acked rdb)) \<Longrightarrow>
      p \<in> set (posted (rdb_max_seq_no_acked (rdbs s u))) \<or>
      (\<exists>i. up i = u \<and> rdb_role (rdbs s i) = SLAVE \<and> unat p \<le> seq_len (log_of a s i))"
  shows "repl_inv fl api a up (set_node u rdb db s)"
proof -
  let ?s = "set_node u rdb db s"
  have node': "node_inv api a ?s v" for v
    using repl_invD(1-3) [OF inv, of v] repl_invD(1) [OF inv, of u] node log by (simp add: node_inv_def)
  have grow: "\<exists>m'. log_of a ?s v = log_of a s v @ m'" for v using grown_log [OF log] by blast
  have link': "link_inv a up ?s v" for v
  proof -
    have "prefix (map fst (log_of a ?s v)) (map fst (log_of a s (up v)))" if "rdb_role (rdbs ?s v) = SLAVE"
      using repl_invD(4) [OF inv, of v] link log that by (cases "v = u") (auto simp: link_inv_def)
    moreover have "prefix (map fst (log_of a s (up v))) (map fst (log_of a ?s (up v)))"
      using grow [of "up v"] by auto
    ultimately show ?thesis unfolding link_inv_def using prefix_order.trans by blast
  qed
  have post': "post_inv fl a up ?s v" for v
  proof -
    have keep: "\<exists>i. up i = v \<and> rdb_role (rdbs ?s i) = SLAVE \<and> unat p \<le> seq_len (log_of a ?s i)"
      if "\<exists>i. up i = v \<and> rdb_role (rdbs s i) = SLAVE \<and> unat p \<le> seq_len (log_of a s i)" for p :: u64
    proof -
      from that obtain i where i: "up i = v" "rdb_role (rdbs s i) = SLAVE" "unat p \<le> seq_len (log_of a s i)" by blast
      obtain m' where "log_of a ?s i = log_of a s i @ m'" using grow by blast
      with i(3) have "unat p \<le> seq_len (log_of a ?s i)" by (simp only: seq_len_simps)
      moreover have "rdb_role (rdbs ?s i) = SLAVE" using i(2) role by auto
      ultimately show ?thesis using i(1) by blast
    qed
    show ?thesis
      unfolding post_inv_def
    proof (intro impI ballI)
      fix p
      assume "replicator_replication_mode fl = 2" "p \<in> set (posted (rdb_max_seq_no_acked (rdbs ?s v)))"
      then show "\<exists>i. up i = v \<and> rdb_role (rdbs ?s i) = SLAVE \<and> unat p \<le> seq_len (log_of a ?s i)"
        using repl_invD(6) [OF inv, of v] post [of p] unfolding post_inv_def
        by (intro keep) (cases "v = u"; auto)
    qed
  qed
  show ?thesis
    using node' link' post' repl_invD(5) [OF inv] call_inv_set_node [OF repl_invD(7) [OF inv] log role idle]
    by (simp add: repl_inv_def pull_inv_def)
qed

lemma repl_inv_calls:
  assumes "repl_inv fl api a up s" "rdbs s' = rdbs s" "dbs s' = dbs s"
    and "\<And>i. pull_inv s' i" "\<And>c. call_inv api a up s' c"
  shows "repl_inv fl api a up s'"
  using assms by (simp add: repl_inv_def node_inv_def link_inv_def post_inv_def)

lemma link_seq_len:
  assumes "prefix (map fst l) (map fst m)"
  shows "length l \<le> length m \<and> seq_len (take (length l) m) = seq_len l"
proof -
  from assms have len: "length l \<le> length m" by (auto dest: prefix_length_le)
  moreover have "map fst (take (length l) m) = map fst l"
    using assms len by (metis length_map prefix_def append_eq_conv_conj take_map)
  ultimately show ?thesis unfolding seq_len_def by (metis list.map_comp)
qed

lemma repl_inv_link:
  assumes "repl_inv fl api a up s" "rdb_role (rdbs s i) = SLAVE"
  shows "length (log_of a s i) \<le> length (log_of a s (up i))"
    "seq_len (take (length (log_of a s i)) (log_of a s (up i))) = seq_len (log_of a s i)"
  using repl_invD(4) [OF assms(1), of i] assms(2) link_seq_len by (auto simp: link_inv_def)

section \<open>Every step keeps it\<close>

lemma begin_wait_simps [simp]:
  "rdb_role (begin_wait fl t out rdb) = rdb_role rdb"
  "rdb_cached_iters (begin_wait fl t out rdb) = rdb_cached_iters rdb"
  by (simp_all add: begin_wait_def split: write_outcome.split)

lemma posted_do [simp]: "posted (do_post num b) = posted b @ [num]" "posted (do_call t num tmo b) = posted b"
  by (simp_all add: do_post_def do_call_def split: prod.splits wait_entry.splits)

lemma begin_wait_box:
  assumes "box_inv 0 (rdb_max_seq_no_acked rdb)" "wait_pc (rdb_max_seq_no_acked rdb) t = Outside"
  shows "box_inv 0 (rdb_max_seq_no_acked (begin_wait fl t out rdb)) \<and>
    posted (rdb_max_seq_no_acked (begin_wait fl t out rdb)) = posted (rdb_max_seq_no_acked rdb)"
  using box_inv_call [OF assms] assms(1) by (simp add: begin_wait_def split: write_outcome.split)

lemma repl_inv_writes:
  assumes spec: "rocksdb_spec api a" and inv: "repl_inv fl api a up s"
    and w: "ReplicatedDB_Write_commit fl api ms t_start t_end wb (rdbs s u) (dbs s u) = (out, rdb', db')"
    and count: "wb_Count api wb \<noteq> 0" and t: "wait_pc (rdb_max_seq_no_acked (rdbs s u)) t = Outside"
  shows "repl_inv fl api a up (set_node u (begin_wait fl t out rdb') db' s)"
proof -
  note wc = Write_commit_correct [OF spec w]
  define m where "m = (if abs_log a db' = log_of a s u then [] else [stamped ms (abs_batch a wb)])"
  have log: "abs_log a db' = log_of a s u @ m"
    using wc by (auto simp: m_def split: if_splits)
  have "rdb_role (rdbs s u) = SLAVE \<Longrightarrow> m = []" using wc by (simp add: m_def)
  moreover have "no_empty_batch m"
    using count rocksdb_batch(1) [OF spec, of wb] by (auto simp: m_def no_empty_batch_def)
  moreover have "cached_ok api a (abs_log a db') (rdb_cached_iters rdb')"
    using cached_ok_append [OF repl_invD(2) [OF inv, of u], of m] wc log by simp
  moreover note begin_wait_box [of rdb' t fl out]
  ultimately show ?thesis
    using wc t log repl_invD(3,4) [OF inv, of u]
    by (intro repl_inv_set_node [OF inv, where m = m]) (auto simp: link_inv_def)
qed

lemma repl_inv_waiters:
  assumes inv: "repl_inv fl api a up s" and b: "box_step (rdb_max_seq_no_acked (rdbs s u)) b"
    "posted b = posted (rdb_max_seq_no_acked (rdbs s u))"
  shows "repl_inv fl api a up (set_node u ((rdbs s u)\<lparr>rdb_max_seq_no_acked := b\<rparr>) (dbs s u) s)"
  using b repl_invD(2,4) [OF inv, of u] box_inv_step [OF b(1) repl_invD(3) [OF inv]]
  by (intro repl_inv_set_node [OF inv, where m = "[]"]) (auto simp: link_inv_def no_empty_batch_def)

lemma repl_inv_clean:
  assumes inv: "repl_inv fl api a up s"
  shows "repl_inv fl api a up (set_node u ((rdbs s u)\<lparr>rdb_cached_iters :=
       ReplicatedDB_cleanIdleCachedIters fl now (rdb_cached_iters (rdbs s u))\<rparr>) (dbs s u) s)"
  using repl_invD(3,4) [OF inv, of u] cached_ok_subset [OF repl_invD(2) [OF inv, of u] cleanIdle_set]
  by (intro repl_inv_set_node [OF inv, where m = "[]"]) (auto simp: link_inv_def no_empty_batch_def)

lemma repl_inv_pull:
  assumes spec: "rocksdb_spec api a" and inv: "repl_inv fl api a up s"
    and "pulls s i = None" "calls s c = None"
    and req: "ReplicatedDB_pullFromUpstream fl api (rdbs s i) (dbs s i) = Some req"
  shows "repl_inv fl api a up (s\<lparr>pulls := (pulls s)(i \<mapsto> c), calls := (calls s)(c \<mapsto> (i, req, Sent))\<rparr>)"
proof (rule repl_inv_calls [OF inv])
  let ?s = "s\<lparr>pulls := (pulls s)(i \<mapsto> c), calls := (calls s)(c \<mapsto> (i, req, Sent))\<rparr>"
  show "pull_inv ?s j" for j
    using repl_invD(5) [OF inv, of j] assms(4) by (auto simp: pull_inv_def)
  have role: "rdb_role (rdbs s i) = SLAVE" and seq: "req_seq_no req = of_nat (seq_len (log_of a s i))"
    using req rocksdb_latest(1) [OF spec] by (auto simp: ReplicatedDB_pullFromUpstream_def split: if_splits)
  have "\<exists>n \<le> length (log_of a s (up i)). req_seq_no req = of_nat (seq_len (take n (log_of a s (up i)))) \<and>
      seq_len (take n (log_of a s (up i))) \<le> seq_len (log_of a s i)"
    using repl_inv_link [OF inv role] seq by (intro exI [of _ "length (log_of a s i)"]) simp
  then show "call_inv api a up ?s d" for d
    using repl_invD(7) [OF inv, of d] role seq assms(3) by (cases "d = c") (auto simp: call_inv_def)
qed simp_all

lemma unat_of_nat_le: "unat (of_nat n :: 'a::len word) \<le> n"
  by (simp add: unat_of_nat take_bit_nat_less_eq_self)

lemma call_invD:
  assumes "call_inv api a up s c" "calls s c = Some (i, req, ph)"
  shows "rdb_role (rdbs s i) = SLAVE"
    and "\<exists>n \<le> length (log_of a s (up i)). req_seq_no req = of_nat (seq_len (take n (log_of a s (up i)))) \<and>
        seq_len (take n (log_of a s (up i))) \<le> seq_len (log_of a s i)"
    and "pulls s i = Some c \<Longrightarrow> req_seq_no req = of_nat (seq_len (log_of a s i))"
    and "pulls s i = Some c \<Longrightarrow> ph = Answered (PullResponse us) \<Longrightarrow>
      prefix (map fst (log_of a s i) @ map (fst \<circ> upd_batch api a) us) (map fst (log_of a s (up i)))"
  using assms by (simp_all add: call_inv_def)

lemma call_inv_seq:
  assumes "call_inv api a up s c" "calls s c = Some (i, req, ph)"
  shows "unat (req_seq_no req) \<le> seq_len (log_of a s i)"
proof -
  obtain n where "req_seq_no req = of_nat (seq_len (take n (log_of a s (up i))))"
    "seq_len (take n (log_of a s (up i))) \<le> seq_len (log_of a s i)"
    using call_invD(2) [OF assms] by blast
  with unat_of_nat_le [of "seq_len (take n (log_of a s (up i)))", where 'a = 64] show ?thesis by simp
qed

lemma repl_inv_phase:
  assumes inv: "repl_inv fl api a up s" and c: "calls s c = Some (i, req, ph)"
    and "\<And>us. ph' = Answered (PullResponse us) \<Longrightarrow> pulls s i = Some c \<Longrightarrow>
      prefix (map fst (log_of a s i) @ map (fst \<circ> upd_batch api a) us) (map fst (log_of a s (up i)))"
  shows "repl_inv fl api a up (s\<lparr>calls := (calls s)(c \<mapsto> (i, req, ph'))\<rparr>)"
proof (rule repl_inv_calls [OF inv])
  let ?s = "s\<lparr>calls := (calls s)(c \<mapsto> (i, req, ph'))\<rparr>"
  show "pull_inv ?s j" for j
    using repl_invD(5) [OF inv, of j] c by (auto simp: pull_inv_def)
  show "call_inv api a up ?s d" for d
  proof (cases "d = c")
    case True
    with call_invD [OF repl_invD(7) [OF inv] c] assms(3) show ?thesis by (simp add: call_inv_def)
  qed (use repl_invD(7) [OF inv, of d] in \<open>simp add: call_inv_def\<close>)
qed simp_all

lemma repl_inv_arrive:
  assumes inv: "repl_inv fl api a up s" and c: "calls s c = Some (i, req, Sent)"
    and h: "ReplicatedDB_handleReplicateRequest fl api c req (rdbs s (up i)) (dbs s (up i)) = Some (timer, rdb')"
  shows "repl_inv fl api a up (set_node (up i) rdb' (dbs s (up i)) (s\<lparr>calls := (calls s)(c \<mapsto> (i, req, Parked))\<rparr>))"
proof -
  let ?s = "s\<lparr>calls := (calls s)(c \<mapsto> (i, req, Parked))\<rparr>" and ?rdb = "rdbs s (up i)"
  have inv': "repl_inv fl api a up ?s" by (rule repl_inv_phase [OF inv c]) simp
  have rdb': "rdb_role rdb' = rdb_role ?rdb" "rdb_cached_iters rdb' = rdb_cached_iters ?rdb"
      "rdb_max_seq_no_acked rdb' = rdb_max_seq_no_acked ?rdb \<or>
       rdb_max_seq_no_acked rdb' = do_post (req_seq_no req) (rdb_max_seq_no_acked ?rdb)"
    using h by (auto simp: ReplicatedDB_handleReplicateRequest_def Let_def split: if_splits prod.splits)
  have i: "rdb_role (rdbs s i) = SLAVE" "unat (req_seq_no req) \<le> seq_len (log_of a s i)"
    using call_invD(1) call_inv_seq repl_invD(7) [OF inv, of c] c by blast+
  have "p = req_seq_no req \<or> p \<in> set (posted (rdb_max_seq_no_acked ?rdb))"
    if "p \<in> set (posted (rdb_max_seq_no_acked rdb'))" for p
    using that rdb'(3) by auto
  then show ?thesis
    using rdb' i repl_invD(2-4) [OF inv, of "up i"] box_inv_post [OF repl_invD(3) [OF inv]]
    by (intro repl_inv_set_node [OF inv', where m = "[]"])
      (auto simp: link_inv_def no_empty_batch_def)
qed

text \<open>The position a slave that still waits asked from is the end of its log.\<close>

lemma current_call_position:
  assumes spec: "rocksdb_spec api a" and inv: "repl_inv fl api a up s"
    and c: "calls s c = Some (i, req, ph)" and cur: "pulls s i = Some c"
    and n: "n \<le> length (log_of a s (up i))" "req_seq_no req = of_nat (seq_len (take n (log_of a s (up i))))"
  shows "n = length (log_of a s i)"
proof -
  let ?l = "log_of a s (up i)"
  note ci = call_invD [OF repl_invD(7) [OF inv] c]
  note link = repl_inv_link [OF inv ci(1)]
  have bound: "seq_len (take k ?l) < max_sequence" for k
    using seq_len_take_le [of k ?l] rocksdb_latest(2) [OF spec, of "dbs s (up i)"] by simp
  have "(of_nat (seq_len (take n ?l) + 1) :: u64) = of_nat (seq_len (take (length (log_of a s i)) ?l) + 1)"
    using n(2) ci(3) [OF cur] link(2) by simp
  with of_nat_seq_inj bound have "seq_len (take n ?l) = seq_len (take (length (log_of a s i)) ?l)" by blast
  with seq_len_take_inj [OF repl_invD(1) [OF inv] n(1) link(1)] show ?thesis by simp
qed

lemma answer_continues:
  assumes "prefix (map fst l) (map fst m)" "map f us = take k (drop (length l) m)"
  shows "prefix (map fst l @ map (fst \<circ> f) us) (map fst m)"
proof -
  have "map (fst \<circ> f) us = take k (drop (length l) (map fst m))"
    using arg_cong [OF assms(2), of "map fst"] by (simp add: take_map drop_map)
  moreover obtain z where "map fst m = map fst l @ z" using assms(1) by (auto simp: prefix_def)
  ultimately show ?thesis by (simp add: take_is_prefix)
qed

lemma repl_inv_serve:
  assumes spec: "rocksdb_spec api a" and inv: "repl_inv fl api a up s" and c: "calls s c = Some (i, req, Parked)"
    and h: "ReplicatedDB_serve fl api junk msg t_start t_end now req (rdbs s (up i)) (dbs s (up i)) = Some (r, rdb')"
  shows "repl_inv fl api a up (set_node (up i) rdb' (dbs s (up i))
       (s\<lparr>calls := (calls s)(c \<mapsto> (i, req, Answered (answer r)))\<rparr>))"
proof -
  let ?s = "s\<lparr>calls := (calls s)(c \<mapsto> (i, req, Answered (answer r)))\<rparr>" and ?rdb = "rdbs s (up i)"
  let ?l = "log_of a s (up i)"
  note ci = call_invD [OF repl_invD(7) [OF inv] c]
  obtain n where n: "n \<le> length ?l" "req_seq_no req = of_nat (seq_len (take n ?l))" using ci(2) by blast
  note sc = ReplicatedDB_serve_correct [OF spec repl_invD(1) [OF inv] n(1) repl_invD(2) [OF inv] n(2) h]
  have inv': "repl_inv fl api a up ?s"
  proof (rule repl_inv_phase [OF inv c])
    fix us
    assume us: "Answered (answer r) = Answered (PullResponse us)" and cur: "pulls s i = Some c"
    from us have "r = Inr us" by (auto simp: answer_def split: sum.splits)
    with sc have "map (upd_batch api a) us = take (length us) (drop (length (log_of a s i)) ?l)"
      using current_call_position [OF spec inv c cur n] by auto
    with repl_invD(4) [OF inv, of i] ci(1)
    show "prefix (map fst (log_of a s i) @ map (fst \<circ> upd_batch api a) us) (map fst ?l)"
      by (intro answer_continues) (simp add: link_inv_def)
  qed
  have box: "box_inv 0 (rdb_max_seq_no_acked rdb')"
    using sc box_inv_post repl_invD(3) [OF inv, of "up i"] by (auto split: sum.splits if_splits)
  have post: "replicator_replication_mode fl = 2 \<Longrightarrow> rdb_max_seq_no_acked rdb' = rdb_max_seq_no_acked ?rdb"
    using sc by (auto split: sum.splits)
  show ?thesis
    using sc box post repl_invD(4) [OF inv, of "up i"]
    by (intro repl_inv_set_node [OF inv', where m = "[]"]) (auto simp: link_inv_def no_empty_batch_def)
qed

lemma repl_inv_hangup:
  assumes inv: "repl_inv fl api a up s"
  shows "repl_inv fl api a up (s\<lparr>pulls := (pulls s)(i := None)\<rparr>)"
proof (rule repl_inv_calls [OF inv])
  show "pull_inv (s\<lparr>pulls := (pulls s)(i := None)\<rparr>) j" for j
    using repl_invD(5) [OF inv, of j] by (auto simp: pull_inv_def)
  show "call_inv api a up (s\<lparr>pulls := (pulls s)(i := None)\<rparr>) c" for c
    using call_invD [OF repl_invD(7) [OF inv, of c]] by (auto simp: call_inv_def)
qed simp_all

lemma repl_inv_forget:
  assumes inv: "repl_inv fl api a up s" and "\<And>i. pulls s i \<noteq> Some c"
  shows "repl_inv fl api a up (s\<lparr>calls := (calls s)(c := None)\<rparr>)"
proof (rule repl_inv_calls [OF inv])
  show "pull_inv (s\<lparr>calls := (calls s)(c := None)\<rparr>) j" for j
    using repl_invD(5) [OF inv, of j] assms(2) by (auto simp: pull_inv_def)
  show "call_inv api a up (s\<lparr>calls := (calls s)(c := None)\<rparr>) d" for d
    using repl_invD(7) [OF inv, of d] by (auto simp: call_inv_def)
qed simp_all

lemma no_empty_batch_prefix: "prefix (map fst l) (map fst m) \<Longrightarrow> no_empty_batch m \<Longrightarrow> no_empty_batch l"
  unfolding no_empty_batch_def by (metis (no_types, lifting) image_iff list.set_map set_mono_prefix subsetD)

lemma repl_inv_receive:
  assumes spec: "rocksdb_spec api a" and inv: "repl_inv fl api a up s"
    and cur: "pulls s i = Some c" and c: "calls s c = Some (i, req, Answered t)"
    and h: "ReplicatedDB_onPullResult fl api now t (rdbs s i) (dbs s i) = (np, rdb', db')"
  shows "repl_inv fl api a up (set_node i rdb' db' (s\<lparr>pulls := (pulls s)(i := None), calls := (calls s)(c := None)\<rparr>))"
proof -
  let ?s = "s\<lparr>pulls := (pulls s)(i := None), calls := (calls s)(c := None)\<rparr>"
  note ci = call_invD [OF repl_invD(7) [OF inv] c]
  note pc = onPullResult_correct [OF spec h]
  have "((pulls s)(i := None)) j \<noteq> Some c" for j
    using repl_invD(5) [OF inv, of j] c by (auto simp: pull_inv_def)
  with repl_inv_forget [OF repl_inv_hangup [OF inv, of i], of c] have inv': "repl_inv fl api a up ?s" by simp
  obtain m where log: "abs_log a db' = log_of a s i @ m"
    and link: "prefix (map fst (log_of a s i @ m)) (map fst (log_of a s (up i)))"
  proof (cases t)
    case (PullResponse us)
    let ?f = "\<lambda>u. stamped (timestamp u) (upd_batch api a u)"
    from pc PullResponse obtain k where "abs_log a db' = log_of a s i @ map ?f (take k us)" by auto
    moreover have "prefix (map fst (log_of a s i @ map ?f (take k us)))
        (map fst (log_of a s i) @ map (fst \<circ> upd_batch api a) us)"
      by (simp add: o_def take_is_prefix flip: take_map)
    ultimately show thesis
      using that ci(4) [OF cur] PullResponse prefix_order.trans by blast
  qed (use pc that [of "[]"] repl_invD(4) [OF inv, of i] ci(1) in \<open>auto simp: link_inv_def\<close>)
  have "no_empty_batch m"
    using no_empty_batch_prefix [OF link repl_invD(1) [OF inv]] by simp
  moreover have "cached_ok api a (abs_log a db') (rdb_cached_iters rdb')"
    using cached_ok_append [OF repl_invD(2) [OF inv, of i], of m] pc log by simp
  ultimately show ?thesis
    using pc log link repl_invD(3) [OF inv, of i]
    by (intro repl_inv_set_node [OF inv', where m = m]) auto
qed

lemma repl_inv_give_up:
  assumes spec: "rocksdb_spec api a" and inv: "repl_inv fl api a up s"
    and h: "ReplicatedDB_onPullResult fl api now PullStdException (rdbs s i) (dbs s i) = (np, rdb', db')"
  shows "repl_inv fl api a up (set_node i rdb' db' (s\<lparr>pulls := (pulls s)(i := None)\<rparr>))"
  using onPullResult_correct [OF spec h] repl_invD(2-4) [OF inv, of i]
  by (intro repl_inv_set_node [OF repl_inv_hangup [OF inv], where m = "[]"])
    (auto simp: link_inv_def no_empty_batch_def)

lemma repl_inv_step:
  assumes "rocksdb_spec api a"
  shows "repl_step fl api up s s' \<Longrightarrow> repl_inv fl api a up s \<Longrightarrow> repl_inv fl api a up s'"
  by (induction rule: repl_step.induct)
    (simp_all add: repl_inv_waiters repl_inv_clean repl_inv_arrive repl_inv_writes [OF assms]
      repl_inv_pull [OF assms] repl_inv_serve [OF assms] repl_inv_receive [OF assms] repl_inv_give_up [OF assms])

lemma repl_inv_init: "repl_init a up s \<Longrightarrow> repl_inv fl api a up s"
  using boxes.inv_init [of 0 "box_idle 0"]
  by (simp add: repl_init_def repl_inv_def node_inv_def pull_inv_def post_inv_def call_inv_def cached_ok_def
      box_idle_def box_init_def)

lemma repl_reach_inv:
  assumes "rocksdb_spec api a" "reach (repl_init a up) (repl_step fl api up) s"
  shows "repl_inv fl api a up s"
  using assms(2) by (induction rule: reach.induct) (auto intro: repl_inv_init repl_inv_step [OF assms(1)])

section \<open>Properties\<close>

text \<open>
  (C1) Whatever the topology and the interleaving of writes, pulls, lost or late answers and clean-ups,
  the operations in the log of a slave are a prefix of the operations in the log of its upstream:
  nothing is skipped, duplicated or reordered.
\<close>

theorem slave_log_prefix:
  assumes "rocksdb_spec api a" "reach (repl_init a up) (repl_step fl api up) s" "rdb_role (rdbs s i) = SLAVE"
  shows "prefix (map fst (abs_log a (dbs s i))) (map fst (abs_log a (dbs s (up i))))"
  using repl_invD(4) [OF repl_reach_inv [OF assms(1,2)]] assms(3) by (simp add: link_inv_def)

text \<open>
  A concrete system over \<open>list_api\<close>: database 0 is the master of all others. The master has two batches
  and database 1 the first one; it pulls, its request arrives, and a writer finds sequence number 1
  acknowledged.
\<close>

definition ex_start :: "(list_db, list_it, nat batch) repl_sys" where
  "ex_start = \<lparr>rdbs = (\<lambda>i. ReplicatedDB_ctor ''db'' (if i = 0 then MASTER else SLAVE) ''up''),
     dbs = (\<lambda>i. if i = 0 then [([7], []), ([8, 9], [])] else [([7], [])]),
     pulls = (\<lambda>_. None), calls = Map.empty\<rparr>"

lemma ex_start_init: "repl_init list_abs (\<lambda>_. 0) ex_start"
  by (simp add: repl_init_def ex_start_def link_inv_def list_abs_def list_log_def list_batch_def
      max_sequence_def no_empty_batch_def ReplicatedDB_ctor_def)

lemma ex_start_reach: "reach (repl_init list_abs (\<lambda>_. 0)) step ex_start"
  by (rule reach_init) (rule ex_start_init)

theorem slave_log_prefix_witness:
  "prefix (map fst (abs_log list_abs (dbs ex_start 1))) (map fst (abs_log list_abs (dbs ex_start 0)))"
  using slave_log_prefix [OF list_api_spec ex_start_reach, of 1]
  by (simp add: ex_start_def ReplicatedDB_ctor_def)

definition ex_request :: replicate_request where
  "ex_request = \<lparr>req_seq_no = 1, req_db_name = ''db'', req_max_wait_ms = 10000, req_max_updates = 50\<rparr>"

definition ex_box :: box_sys where
  "ex_box = do_call 4 1 5000 (do_post 1 (box_idle 0))"

definition ex_master :: "list_it replicated_db" where
  "ex_master = (ReplicatedDB_ctor ''db'' MASTER ''up'')\<lparr>rdb_max_seq_no_acked := do_post 1 (box_idle 0),
     rdb_cond_var := \<lparr>cv_tasks = [], has_done = {}, executor = [3]\<rparr>\<rparr>"

definition ex_acked :: "(list_db, list_it, nat batch) repl_sys" where
  "ex_acked = set_node 0 (ex_master\<lparr>rdb_max_seq_no_acked := ex_box\<rparr>) (dbs ex_start 0)
     (set_node 0 ex_master (dbs ex_start 0)
       (ex_start\<lparr>pulls := [1 \<mapsto> 3], calls := [3 \<mapsto> (1, ex_request, Parked)]\<rparr>))"

lemma ex_acked_reach: "reach (repl_init list_abs (\<lambda>_. 0)) (repl_step ex_flags list_api (\<lambda>_. 0)) ex_acked"
proof -
  let ?up = "\<lambda>_. 0 :: nat" and ?s1 = "ex_start\<lparr>pulls := [1 \<mapsto> 3], calls := [3 \<mapsto> (1, ex_request, Sent)]\<rparr>"
  let ?s2 = "set_node 0 ex_master (dbs ex_start 0)
    (ex_start\<lparr>pulls := [1 \<mapsto> 3], calls := [3 \<mapsto> (1, ex_request, Parked)]\<rparr>)"
  note simps = ex_start_def ReplicatedDB_ctor_def list_api_def list_log_def list_batch_def max_sequence_def
    ex_flags_def ex_request_def
  have "repl_step ex_flags list_api ?up ex_start ?s1"
    using repl_step.pull [of ex_start 1 3 ex_flags list_api ex_request ?up]
    by (simp add: ReplicatedDB_pullFromUpstream_def simps)
  then have r1: "reach (repl_init list_abs ?up) (repl_step ex_flags list_api ?up) ?s1"
    by (rule reach_step [OF ex_start_reach])
  have "repl_step ex_flags list_api ?up ?s1 ?s2"
    using repl_step.arrive [of ?s1 3 1 ex_request ex_flags list_api ?up False ex_master]
    by (simp add: ReplicatedDB_handleReplicateRequest_def handleReplicateRequest_pred_def ex_master_def
        NBCV_runIfConditionOrWaitForNotify_def NBCV_first_test_def executor_add_def NBCV_ctor_def simps
        set_node_def)
  with r1 have r2: "reach (repl_init list_abs ?up) (repl_step ex_flags list_api ?up) ?s2" by (rule reach_step)
  have "box_step (do_post 1 (box_idle 0)) ex_box"
    unfolding ex_box_def by (rule box_step.call) (simp add: do_post_def box_idle_def split: prod.split)
  then have "repl_step ex_flags list_api ?up ?s2 ex_acked"
    using repl_step.waiters [of ?s2 0 ex_box ex_flags list_api ?up]
    by (simp add: ex_acked_def ex_master_def ex_box_def set_node_def)
  with r2 show ?thesis by (rule reach_step)
qed



end
