(* ===== verification/Fast_Read_Map.thy ===== *)
theory Fast_Read_Map
  imports Prelude
begin

text \<open>
  \<open>rocksdb_replicator/fast_read_map.h\<close>: the copy-on-write map from database names to replicated
  databases. A writer copies the published map, changes the copy and publishes it with one swap; a
  reader takes the published pointer and looks the key up in that snapshot. The store of map
  versions is explicit, so that a reader that holds an old pointer is part of the model.
\<close>

section \<open>The operations\<close>

text \<open>\<open>versions\<close> holds every map object ever allocated, \<open>map_ptr\<close> the published one (\<open>map_\<close>).\<close>

record ('k, 'v) fast_read_map =
  versions :: "('k \<rightharpoonup> 'v) list"
  map_ptr :: nat

definition FastReadMap_ctor :: "('k, 'v) fast_read_map" where
  "FastReadMap_ctor = \<lparr>versions = [Map.empty], map_ptr = 0\<rparr>"

definition published :: "('k, 'v) fast_read_map \<Rightarrow> 'k \<rightharpoonup> 'v" where
  "published m = versions m ! map_ptr m"

text \<open>A reader copies the pointer under the read lock and searches without it.\<close>

definition FastReadMap_get_snapshot :: "('k, 'v) fast_read_map \<Rightarrow> nat" where
  "FastReadMap_get_snapshot m = map_ptr m"

definition FastReadMap_get_find :: "nat \<Rightarrow> 'k \<Rightarrow> ('k, 'v) fast_read_map \<Rightarrow> 'v option" where
  "FastReadMap_get_find local_map key m = (versions m ! local_map) key"

definition FastReadMap_get :: "'k \<Rightarrow> ('k, 'v) fast_read_map \<Rightarrow> 'v option" where
  "FastReadMap_get key m = FastReadMap_get_find (FastReadMap_get_snapshot m) key m"

definition publish :: "('k \<rightharpoonup> 'v) \<Rightarrow> ('k, 'v) fast_read_map \<Rightarrow> ('k, 'v) fast_read_map" where
  "publish new_map m = \<lparr>versions = versions m @ [new_map], map_ptr = length (versions m)\<rparr>"

definition FastReadMap_add :: "'k \<Rightarrow> 'v \<Rightarrow> ('k, 'v) fast_read_map \<Rightarrow> bool \<times> ('k, 'v) fast_read_map" where
  "FastReadMap_add key value m =
    (let new_map = published m in
     if new_map key \<noteq> None then (False, m) else (True, publish (new_map(key \<mapsto> value)) m))"

definition FastReadMap_remove :: "'k \<Rightarrow> ('k, 'v) fast_read_map \<Rightarrow> 'v option \<times> ('k, 'v) fast_read_map" where
  "FastReadMap_remove key m =
    (let new_map = published m in
     case new_map key of None \<Rightarrow> (None, m)
     | Some value \<Rightarrow> (Some value, publish (new_map(key := None)) m))"

definition FastReadMap_clear :: "('k, 'v) fast_read_map \<Rightarrow> ('k, 'v) fast_read_map" where
  "FastReadMap_clear m = publish Map.empty m"

definition frm_inv :: "('k, 'v) fast_read_map \<Rightarrow> bool" where
  "frm_inv m \<longleftrightarrow> map_ptr m < length (versions m)"

section \<open>The interface the replicator relies on\<close>

text \<open>
  A map with a fallible insertion, a removal that hands the value out, and a clear; \<open>lookup\<close> is the
  map it stands for.
\<close>

locale read_map =
  fixes inv :: "'m \<Rightarrow> bool" and lookup :: "'m \<Rightarrow> 'k \<rightharpoonup> 'v" and new :: 'm
    and get :: "'k \<Rightarrow> 'm \<Rightarrow> 'v option" and add :: "'k \<Rightarrow> 'v \<Rightarrow> 'm \<Rightarrow> bool \<times> 'm"
    and remove :: "'k \<Rightarrow> 'm \<Rightarrow> 'v option \<times> 'm" and clear :: "'m \<Rightarrow> 'm"
  assumes new: "inv new" "lookup new = Map.empty"
    and get: "inv m \<Longrightarrow> get k m = lookup m k"
    and add: "inv m \<Longrightarrow> fst (add k v m) \<longleftrightarrow> lookup m k = None" "inv m \<Longrightarrow> inv (snd (add k v m))"
      "inv m \<Longrightarrow> lookup (snd (add k v m)) = (if lookup m k = None then (lookup m)(k \<mapsto> v) else lookup m)"
    and remove: "inv m \<Longrightarrow> fst (remove k m) = lookup m k" "inv m \<Longrightarrow> inv (snd (remove k m))"
      "inv m \<Longrightarrow> lookup (snd (remove k m)) = (lookup m)(k := None)"
    and clear: "inv m \<Longrightarrow> inv (clear m)" "inv m \<Longrightarrow> lookup (clear m) = Map.empty"
begin

lemma get_add: "inv m \<Longrightarrow> fst (add k v m) \<Longrightarrow> get j (snd (add k v m)) = (if j = k then Some v else get j m)"
  by (auto simp: get add)

lemma add_taken: "inv m \<Longrightarrow> get k m = Some w \<Longrightarrow> \<not> fst (add k v m) \<and> get j (snd (add k v m)) = get j m"
  by (auto simp: get add)

lemma get_remove: "inv m \<Longrightarrow> get j (snd (remove k m)) = (if j = k then None else get j m)"
  by (auto simp: get remove)

lemma remove_after_add: "inv m \<Longrightarrow> fst (add k v m) \<Longrightarrow> fst (remove k (snd (add k v m))) = Some v"
  by (auto simp: add remove)

lemma get_clear: "inv m \<Longrightarrow> get k (clear m) = None"
  by (auto simp: get clear)

end

lemmas frm_defs = FastReadMap_ctor_def published_def FastReadMap_get_def FastReadMap_get_find_def
  FastReadMap_get_snapshot_def publish_def FastReadMap_add_def FastReadMap_remove_def
  FastReadMap_clear_def frm_inv_def

interpretation frm: read_map frm_inv published FastReadMap_ctor FastReadMap_get FastReadMap_add
  FastReadMap_remove FastReadMap_clear
  by unfold_locales (auto simp: frm_defs Let_def split: option.split if_splits)

section \<open>Properties\<close>

text \<open>The mutations writers can make between the two halves of a read.\<close>

datatype ('k, 'v) frm_mutation = FAdd 'k 'v | FRemove 'k | FClear

fun frm_write :: "('k, 'v) frm_mutation \<Rightarrow> ('k, 'v) fast_read_map \<Rightarrow> ('k, 'v) fast_read_map" where
  "frm_write (FAdd k v) m = snd (FastReadMap_add k v m)"
| "frm_write (FRemove k) m = snd (FastReadMap_remove k m)"
| "frm_write FClear m = FastReadMap_clear m"

lemma frm_write_versions: "\<exists>vs. versions (frm_write w m) = versions m @ vs"
  by (cases w) (auto simp: frm_defs Let_def split: option.split)

lemma frm_writes_versions: "\<exists>vs. versions (fold frm_write ws m) = versions m @ vs"
proof (induction ws arbitrary: m)
  case (Cons w ws)
  with frm_write_versions [of w m] show ?case by (metis append.assoc fold_simps(2))
qed simp

lemma frm_write_inv: "frm_inv m \<Longrightarrow> frm_inv (frm_write w m)"
  by (cases w) (auto simp: frm.add frm.remove frm.clear)

text \<open>
  (C38) Reads are linearizable: a reader that took the published pointer and searches it after any
  sequence of insertions, removals and clears by writers finds what the map held when the pointer was
  taken, and every such sequence leaves a published map.
\<close>

theorem FastReadMap_get_snapshot_stable:
  assumes "frm_inv m"
  shows "frm_inv (fold frm_write ws m) \<and>
    FastReadMap_get_find (FastReadMap_get_snapshot m) key (fold frm_write ws m) = FastReadMap_get key m"
proof
  show "frm_inv (fold frm_write ws m)"
    using assms by (induction ws arbitrary: m) (auto intro: frm_write_inv)
  obtain vs where "versions (fold frm_write ws m) = versions m @ vs"
    using frm_writes_versions by blast
  with assms show "FastReadMap_get_find (FastReadMap_get_snapshot m) key (fold frm_write ws m)
      = FastReadMap_get key m"
    by (simp add: frm_defs nth_append)
qed

theorem FastReadMap_get_snapshot_stable_witness:
  "FastReadMap_get_find 1 ''db'' (fold frm_write [FRemove ''db'', FClear]
     (snd (FastReadMap_add ''db'' (7 :: nat) FastReadMap_ctor))) = Some 7"
  using FastReadMap_get_snapshot_stable [of "snd (FastReadMap_add ''db'' (7 :: nat) FastReadMap_ctor)"
      "[FRemove ''db'', FClear]" "''db''"]
  by (simp add: frm_defs Let_def)

end
