(* ===== verification/Replicator.thy ===== *)
theory Replicator
  imports Replicated_Db Fast_Read_Map
begin

text \<open>
  \<open>rocksdb_replicator/rocksdb_replicator.cpp\<close>, \<open>replicator_handler.cpp\<close> and \<open>cached_iter_cleaner.cpp\<close>: the
  registry of replicated databases, its thrift handler and the cleaner of idle iterators.

  \<open>ReplicatedDB\<close> objects live in a store: a \<open>shared_ptr\<close> to one is its number, a \<open>weak_ptr\<close> a number that may
  no longer be in the store. RocksDB handles are pointers into \<open>dbs\<close>, a parameter of the operations.
\<close>

section \<open>State\<close>

record 'it replicator =
  db_map :: "(string, nat) fast_read_map"
  objs :: "nat \<rightharpoonup> 'it replicated_db \<times> nat"
  next_obj :: nat
  cleaner_dbs :: "nat list"
  sent :: "(nat \<times> replicate_request) list"

definition RocksDBReplicator_ctor :: "'it replicator" where
  "RocksDBReplicator_ctor = \<lparr>db_map = FastReadMap_ctor, objs = Map.empty, next_obj = 0, cleaner_dbs = [], sent = []\<rparr>"

section \<open>Operations\<close>

text \<open>\<open>CachedIterCleaner::addDB\<close> and one round of the cleanup timer.\<close>

definition CachedIterCleaner_addDB :: "nat \<Rightarrow> 'it replicator \<Rightarrow> 'it replicator" where
  "CachedIterCleaner_addDB p r = r\<lparr>cleaner_dbs := cleaner_dbs r @ [p]\<rparr>"

fun cleanup_loop ::
  "replicator_flags \<Rightarrow> u64 \<Rightarrow> nat list \<Rightarrow> (nat \<rightharpoonup> 'it replicated_db \<times> nat) \<Rightarrow>
   nat list \<times> (nat \<rightharpoonup> 'it replicated_db \<times> nat)" where
  "cleanup_loop fl now [] os = ([], os)"
| "cleanup_loop fl now (p # ps) os =
    (case os p of
       None \<Rightarrow> cleanup_loop fl now ps os
     | Some (rdb, d) \<Rightarrow>
         let rdb = rdb\<lparr>rdb_cached_iters := ReplicatedDB_cleanIdleCachedIters fl now (rdb_cached_iters rdb)\<rparr>;
             (ps, os) = cleanup_loop fl now ps (os(p \<mapsto> (rdb, d)))
         in (p # ps, os))"

definition CachedIterCleaner_cleanup :: "replicator_flags \<Rightarrow> u64 \<Rightarrow> 'it replicator \<Rightarrow> 'it replicator" where
  "CachedIterCleaner_cleanup fl now r =
    (let (ps, os) = cleanup_loop fl now (cleaner_dbs r) (objs r) in r\<lparr>cleaner_dbs := ps, objs := os\<rparr>)"

text \<open>
  \<open>addDB\<close>: the object is created first; when the name is taken it is destroyed again. A slave starts
  pulling (its \<open>CHECK\<close> of the role is the inner case), and the cleaner gets a weak pointer.
\<close>

definition RocksDBReplicator_addDB ::
  "replicator_flags \<Rightarrow> ('db, 'it, 'wb, 'raw) rocksdb_api \<Rightarrow> (nat \<Rightarrow> 'db) \<Rightarrow> string \<Rightarrow> nat \<Rightarrow> db_role \<Rightarrow> string \<Rightarrow>
   'it replicator \<Rightarrow> (return_code \<times> 'it replicator) option" where
  "RocksDBReplicator_addDB fl api dbs db_name db role upstream_addr r =
    (let p = next_obj r;
         new_db = ReplicatedDB_ctor db_name role upstream_addr;
         r = r\<lparr>next_obj := p + 1\<rparr>;
         (added, m) = FastReadMap_add db_name p (db_map r)
     in if \<not> added then Some (DB_PRE_EXIST, r)
        else
          let r = r\<lparr>db_map := m, objs := (objs r)(p \<mapsto> (new_db, db))\<rparr> in
          if role = SLAVE then
            (case ReplicatedDB_pullFromUpstream fl api new_db (dbs db) of
               None \<Rightarrow> None
             | Some req \<Rightarrow> Some (RC_OK, CachedIterCleaner_addDB p (r\<lparr>sent := sent r @ [(p, req)]\<rparr>)))
          else Some (RC_OK, CachedIterCleaner_addDB p r))"

text \<open>
  \<open>removeDB\<close>: take the name out, then poll until nobody else holds the object. \<open>owners\<close> are the reference
  counts the polls see; a result \<open>None\<close> means it is still waiting when they run out. The last owner to let go
  destroys the object.
\<close>

fun removeDB_poll :: "nat list \<Rightarrow> unit option" where
  "removeDB_poll [] = None"
| "removeDB_poll (n # owners) = (if n = 0 then Some () else removeDB_poll owners)"

definition RocksDBReplicator_removeDB ::
  "string \<Rightarrow> nat list \<Rightarrow> 'it replicator \<Rightarrow> return_code option \<times> 'it replicator" where
  "RocksDBReplicator_removeDB db_name owners r =
    (case FastReadMap_remove db_name (db_map r) of
       (None, _) \<Rightarrow> (Some DB_NOT_FOUND, r)
     | (Some p, m) \<Rightarrow>
         let r = r\<lparr>db_map := m\<rparr> in
         (case removeDB_poll owners of
            None \<Rightarrow> (None, r)
          | Some _ \<Rightarrow> (Some RC_OK, r\<lparr>objs := (objs r)(p := None)\<rparr>)))"

text \<open>
  \<open>write\<close> up to the wait for a slave. The result is a return code, the sequence number to wait for, or
  \<open>None\<close> for the failed \<open>CHECK\<close> of the replication mode.
\<close>

definition write_code :: "write_outcome \<Rightarrow> (return_code + u64) option" where
  "write_code out =
    (case out of
       WriteThrows code \<Rightarrow> Some (Inl code)
     | WriteDone status _ \<Rightarrow> Some (Inl (if status_ok status then RC_OK else WRITE_ERROR))
     | WriteWaits cur_seq_no \<Rightarrow> Some (Inr cur_seq_no)
     | WriteFatal \<Rightarrow> None)"

definition RocksDBReplicator_write ::
  "replicator_flags \<Rightarrow> ('db, 'it, 'wb, 'raw) rocksdb_api \<Rightarrow> u64 \<Rightarrow> u64 \<Rightarrow> u64 \<Rightarrow> string \<Rightarrow> 'wb \<Rightarrow>
   'it replicator \<Rightarrow> (nat \<Rightarrow> 'db) \<Rightarrow> (return_code + u64) option \<times> 'it replicator \<times> (nat \<Rightarrow> 'db)" where
  "RocksDBReplicator_write fl api ms t_start t_end db_name updates r dbs =
    (case FastReadMap_get db_name (db_map r) of
       None \<Rightarrow> (Some (Inl DB_NOT_FOUND), r, dbs)
     | Some p \<Rightarrow>
         (case objs r p of
            None \<Rightarrow> (Some (Inl DB_NOT_FOUND), r, dbs)
          | Some (rdb, d) \<Rightarrow>
              let (out, rdb, db) = ReplicatedDB_Write_commit fl api ms t_start t_end updates rdb (dbs d)
              in (write_code out, r\<lparr>objs := (objs r)(p \<mapsto> (rdb, d))\<rparr>, dbs(d := db))))"

definition RocksDBReplicator_write_acked :: "bool \<Rightarrow> u64 \<Rightarrow> (return_code + u64) option" where
  "RocksDBReplicator_write_acked acked cur_seq_no = write_code (ReplicatedDB_Write_acked acked cur_seq_no)"

text \<open>\<open>ReplicatorHandler::async_tm_replicate\<close> with call number \<open>c\<close>: an exception, or the request is in the hands of its database.\<close>

definition ReplicatorHandler_replicate ::
  "replicator_flags \<Rightarrow> ('db, 'it, 'wb, 'raw) rocksdb_api \<Rightarrow> nat \<Rightarrow> replicate_request \<Rightarrow> (nat \<Rightarrow> 'db) \<Rightarrow>
   'it replicator \<Rightarrow> ((replicate_exception + bool) \<times> 'it replicator) option" where
  "ReplicatorHandler_replicate fl api c request dbs r =
    (case FastReadMap_get (req_db_name request) (db_map r) of
       None \<Rightarrow> Some (Inl (ReplicateException (''could not find '' @ req_db_name request) SOURCE_NOT_FOUND), r)
     | Some p \<Rightarrow>
         (case objs r p of
            None \<Rightarrow> Some (Inl (ReplicateException (''could not find '' @ req_db_name request) SOURCE_NOT_FOUND), r)
          | Some (rdb, d) \<Rightarrow>
              map_option (\<lambda>(timer, rdb). (Inr timer, r\<lparr>objs := (objs r)(p \<mapsto> (rdb, d))\<rparr>))
                (ReplicatedDB_handleReplicateRequest fl api c request rdb (dbs d))))"

text \<open>The destructor drops all registrations before it stops the cleaner and the server.\<close>

definition RocksDBReplicator_dtor :: "'it replicator \<Rightarrow> 'it replicator" where
  "RocksDBReplicator_dtor r = r\<lparr>db_map := FastReadMap_clear (db_map r)\<rparr>"

section \<open>The invariant of the registry\<close>

text \<open>Every registered name leads to a live object of that name.\<close>

definition registry_inv :: "'it replicator \<Rightarrow> bool" where
  "registry_inv r \<longleftrightarrow> frm_inv (db_map r) \<and>
    (\<forall>name p. published (db_map r) name = Some p \<longrightarrow> (\<exists>rdb d. objs r p = Some (rdb, d) \<and> rdb_name rdb = name)) \<and>
    (\<forall>p. objs r p \<noteq> None \<longrightarrow> p < next_obj r)"

inductive registry_step ::
  "replicator_flags \<Rightarrow> ('db, 'it, 'wb, 'raw) rocksdb_api \<Rightarrow> 'it replicator \<Rightarrow> 'it replicator \<Rightarrow> bool"
  for fl :: replicator_flags and api :: "('db, 'it, 'wb, 'raw) rocksdb_api" where
  add: "RocksDBReplicator_addDB fl api dbs name db role addr r = Some (code, r') \<Longrightarrow> registry_step fl api r r'"
| remove: "RocksDBReplicator_removeDB name owners r = (code, r') \<Longrightarrow> registry_step fl api r r'"
| writes: "RocksDBReplicator_write fl api ms t_start t_end name wb r dbs = (res, r', dbs') \<Longrightarrow> registry_step fl api r r'"
| replicate: "ReplicatorHandler_replicate fl api c request dbs r = Some (res, r') \<Longrightarrow> registry_step fl api r r'"
| cleanup: "registry_step fl api r (CachedIterCleaner_cleanup fl now r)"
| dtor: "registry_step fl api r (RocksDBReplicator_dtor r)"

lemma registry_invD:
  assumes "registry_inv r" "FastReadMap_get name (db_map r) = Some p"
  shows "\<exists>rdb d. objs r p = Some (rdb, d) \<and> rdb_name rdb = name"
  using assms frm.get [of "db_map r" name] by (auto simp: registry_inv_def)

lemma addDB_cases:
  assumes "registry_inv r"
  shows "RocksDBReplicator_addDB fl api dbs name db role addr r =
    (let p = next_obj r; new_db = ReplicatedDB_ctor name role addr in
     if FastReadMap_get name (db_map r) \<noteq> None then Some (DB_PRE_EXIST, r\<lparr>next_obj := p + 1\<rparr>)
     else Some (RC_OK, r\<lparr>next_obj := p + 1, db_map := snd (FastReadMap_add name p (db_map r)),
       objs := (objs r)(p \<mapsto> (new_db, db)), cleaner_dbs := cleaner_dbs r @ [p],
       sent := sent r @ (if role = SLAVE
         then [(p, \<lparr>req_seq_no = db_GetLatestSequenceNumber api (dbs db), req_db_name = name,
                    req_max_wait_ms = replicator_max_server_wait_time_ms fl,
                    req_max_updates = replicator_max_updates_per_response fl\<rparr>)] else [])\<rparr>))"
proof -
  have inv: "frm_inv (db_map r)" using assms by (simp add: registry_inv_def)
  from frm.add(1) [OF inv, of name "next_obj r"] frm.get [OF inv, of name] show ?thesis
    by (auto simp: RocksDBReplicator_addDB_def Let_def CachedIterCleaner_addDB_def
        ReplicatedDB_pullFromUpstream_def ReplicatedDB_ctor_def split: prod.splits)
qed

lemma registry_inv_add:
  assumes "registry_inv r" "RocksDBReplicator_addDB fl api dbs name db role addr r = Some (code, r')"
  shows "registry_inv r'"
proof -
  have inv: "frm_inv (db_map r)" using assms by (simp add: registry_inv_def)
  have live: "\<exists>rdb d. objs r q = Some (rdb, d) \<and> rdb_name rdb = n" "q \<noteq> next_obj r"
    if "published (db_map r) n = Some q" for n q
    using assms(1) that unfolding registry_inv_def by (metis less_irrefl option.distinct(1))+
  show ?thesis
    using assms(2) unfolding addDB_cases [OF assms(1)]
    using assms(1) live frm.add(2,3) [OF inv] frm.get [OF inv]
    by (auto simp: registry_inv_def Let_def ReplicatedDB_ctor_def less_Suc_eq split: if_splits)
qed

lemma registry_inv_remove:
  assumes "registry_inv r" "RocksDBReplicator_removeDB name owners r = (code, r')"
  shows "registry_inv r'"
proof -
  have inv: "frm_inv (db_map r)" using assms by (simp add: registry_inv_def)
  obtain q m where m: "FastReadMap_remove name (db_map r) = (q, m)" by fastforce
  have facts: "q = published (db_map r) name" "frm_inv m" "published m = (published (db_map r))(name := None)"
    using frm.remove [OF inv, of name] m by simp_all
  have "published (db_map r) n \<noteq> Some p" if "published (db_map r) name = Some p" "n \<noteq> name" for n p
    using assms(1) that unfolding registry_inv_def by (metis option.inject prod.inject)
  with assms m facts show ?thesis
    by (auto simp: registry_inv_def RocksDBReplicator_removeDB_def Let_def split: option.splits if_splits)
qed

lemma registry_inv_obj:
  assumes "registry_inv r" "objs r p = Some (rdb, d)" "rdb_name rdb' = rdb_name rdb"
  shows "registry_inv (r\<lparr>objs := (objs r)(p \<mapsto> (rdb', d))\<rparr>)"
proof -
  have "\<exists>rdb'' d'. ((objs r)(p \<mapsto> (rdb', d))) q = Some (rdb'', d') \<and> rdb_name rdb'' = name"
    if "published (db_map r) name = Some q" for name q
    using assms that by (cases "q = p") (force simp: registry_inv_def)+
  with assms show ?thesis by (auto simp: registry_inv_def)
qed

lemma Write_commit_name:
  "ReplicatedDB_Write_commit fl api ms t_start t_end wb rdb db = (out, rdb', db') \<Longrightarrow> rdb_name rdb' = rdb_name rdb"
  by (auto simp: ReplicatedDB_Write_commit_def Let_def split: if_splits prod.splits)

lemma handle_name:
  "ReplicatedDB_handleReplicateRequest fl api c request rdb db = Some (timer, rdb') \<Longrightarrow> rdb_name rdb' = rdb_name rdb"
  by (auto simp: ReplicatedDB_handleReplicateRequest_def Let_def split: if_splits prod.splits)

lemma registry_inv_write:
  assumes "registry_inv r" "RocksDBReplicator_write fl api ms t_start t_end name wb r dbs = (res, r', dbs')"
  shows "registry_inv r'"
proof (cases "FastReadMap_get name (db_map r)")
  case (Some p)
  from registry_invD [OF assms(1) Some] obtain rdb d where ob: "objs r p = Some (rdb, d)" by blast
  obtain out rdb' db' where w: "ReplicatedDB_Write_commit fl api ms t_start t_end wb rdb (dbs d) = (out, rdb', db')"
    by (metis prod_cases3)
  from registry_inv_obj [OF assms(1) ob Write_commit_name [OF w]] assms(2) Some ob w show ?thesis
    by (auto simp: RocksDBReplicator_write_def)
qed (use assms in \<open>simp add: RocksDBReplicator_write_def\<close>)

lemma registry_inv_replicate:
  assumes "registry_inv r" "ReplicatorHandler_replicate fl api c request dbs r = Some (res, r')"
  shows "registry_inv r'"
proof (cases "FastReadMap_get (req_db_name request) (db_map r)")
  case (Some p)
  from registry_invD [OF assms(1) Some] obtain rdb d where ob: "objs r p = Some (rdb, d)" by blast
  with assms(2) Some obtain timer rdb' where
    h: "ReplicatedDB_handleReplicateRequest fl api c request rdb (dbs d) = Some (timer, rdb')"
    "r' = r\<lparr>objs := (objs r)(p \<mapsto> (rdb', d))\<rparr>" by (auto simp: ReplicatorHandler_replicate_def)
  from registry_inv_obj [OF assms(1) ob handle_name [OF h(1)]] h(2) show ?thesis by simp
qed (use assms in \<open>simp add: ReplicatorHandler_replicate_def\<close>)

text \<open>A cleanup round keeps the objects, their names and their databases.\<close>

lemma cleanup_loop_objs:
  assumes "cleanup_loop fl now ps os = (ps', os')"
  shows "ps' = [p \<leftarrow> ps. os p \<noteq> None] \<and>
    (\<forall>p. os' p = (if p \<in> set ps then map_option (\<lambda>(rdb, d). (rdb\<lparr>rdb_cached_iters :=
        ReplicatedDB_cleanIdleCachedIters fl now (rdb_cached_iters rdb)\<rparr>, d)) (os p) else os p))"
  using assms
proof (induction fl now ps os arbitrary: ps' os' rule: cleanup_loop.induct)
  case (2 fl now p ps os)
  show ?case
  proof (cases "os p")
    case (Some ob)
    obtain rdb d where ob: "ob = (rdb, d)" by fastforce
    let ?rdb = "rdb\<lparr>rdb_cached_iters := ReplicatedDB_cleanIdleCachedIters fl now (rdb_cached_iters rdb)\<rparr>"
    obtain qs os1 where rec: "cleanup_loop fl now ps (os(p \<mapsto> (?rdb, d))) = (qs, os1)" by fastforce
    have idem: "ReplicatedDB_cleanIdleCachedIters fl now (ReplicatedDB_cleanIdleCachedIters fl now cs)
        = ReplicatedDB_cleanIdleCachedIters fl now cs" for cs :: "(u64 \<times> 'a \<times> u64) list"
      by (induction cs rule: ReplicatedDB_cleanIdleCachedIters.induct) auto
    have "filter (\<lambda>q. (os(p \<mapsto> (?rdb, d))) q \<noteq> None) ps = filter (\<lambda>q. os q \<noteq> None) ps"
      using Some by (intro filter_cong) auto
    with 2(2) [OF Some ob [symmetric] refl rec] 2(3) rec Some ob idem show ?thesis
      by (auto simp: Let_def)
  qed (use 2 in \<open>auto split: option.splits\<close>)
qed simp

lemma registry_inv_cleanup:
  assumes "registry_inv r"
  shows "registry_inv (CachedIterCleaner_cleanup fl now r)"
proof -
  obtain ps os where l: "cleanup_loop fl now (cleaner_dbs r) (objs r) = (ps, os)" by fastforce
  note o = cleanup_loop_objs [OF l]
  have "\<exists>rdb' d'. os p = Some (rdb', d') \<and> rdb_name rdb' = rdb_name rdb" if "objs r p = Some (rdb, d)" for p rdb d
    using o that by auto
  moreover have "objs r p \<noteq> None" if "os p \<noteq> None" for p using o that by (auto split: if_splits)
  ultimately show ?thesis
    using assms unfolding registry_inv_def CachedIterCleaner_cleanup_def l by (simp, metis)
qed

lemma registry_inv_dtor: "registry_inv r \<Longrightarrow> registry_inv (RocksDBReplicator_dtor r)"
  by (simp add: registry_inv_def RocksDBReplicator_dtor_def frm.clear)

lemma registry_inv_step: "registry_step fl api r r' \<Longrightarrow> registry_inv r \<Longrightarrow> registry_inv r'"
  by (induction rule: registry_step.induct)
    (erule registry_inv_add registry_inv_remove registry_inv_write registry_inv_replicate
      registry_inv_cleanup registry_inv_dtor; assumption)+

interpretation registry: invariant_system "\<lambda>r. r = RocksDBReplicator_ctor" "registry_step fl api" registry_inv for fl api
  by unfold_locales (simp add: RocksDBReplicator_ctor_def registry_inv_def frm.new, rule registry_inv_step)

section \<open>Properties\<close>

abbreviation registered :: "'it replicator \<Rightarrow> string \<Rightarrow> bool" where
  "registered r name \<equiv> FastReadMap_get name (db_map r) \<noteq> None"

text \<open>
  (C20) In every state the registry can reach, the replication handler never aborts: a name it finds
  leads to a live database of that name, so the \<open>CHECK\<close> in \<open>handleReplicateRequest\<close> holds; and it answers
  \<open>SOURCE_NOT_FOUND\<close> exactly for names that are not registered.
\<close>

theorem replicate_never_aborts:
  assumes "reach (\<lambda>r. r = RocksDBReplicator_ctor) (registry_step fl api) r"
  shows "\<exists>res r'. ReplicatorHandler_replicate fl' api' c request dbs r = Some (res, r') \<and>
    ((\<exists>msg. res = Inl (ReplicateException msg SOURCE_NOT_FOUND)) \<longleftrightarrow> \<not> registered r (req_db_name request))"
proof (cases "FastReadMap_get (req_db_name request) (db_map r)")
  case (Some p)
  from registry_invD [OF registry.reach_inv [OF assms] Some]
  obtain rdb d where "objs r p = Some (rdb, d)" "rdb_name rdb = req_db_name request" by blast
  with Some show ?thesis
    by (auto simp: ReplicatorHandler_replicate_def ReplicatedDB_handleReplicateRequest_def Let_def split: prod.splits)
qed (simp add: ReplicatorHandler_replicate_def)

definition ex_registry :: "list_it replicator" where
  "ex_registry = snd (the (RocksDBReplicator_addDB ex_flags list_api (\<lambda>_. ex_db) ''a'' 0 MASTER [] RocksDBReplicator_ctor))"

lemma ex_registry_reach: "reach (\<lambda>r. r = RocksDBReplicator_ctor) (registry_step ex_flags list_api) ex_registry"
proof (rule reach_step [OF reach_init])
  show "registry_step ex_flags list_api RocksDBReplicator_ctor ex_registry"
    by (rule registry_step.add [of _ _ "\<lambda>_. ex_db" "''a''" 0 MASTER "[]" _ RC_OK])
      (simp add: ex_registry_def RocksDBReplicator_addDB_def RocksDBReplicator_ctor_def frm_defs Let_def)
qed simp

lemma ex_registry_inv: "registry_inv ex_registry"
  by (rule registry.reach_inv [OF ex_registry_reach])

theorem replicate_never_aborts_witness:
  "\<exists>res r'. ReplicatorHandler_replicate ex_flags list_api 0
      \<lparr>req_seq_no = 0, req_db_name = ''a'', req_max_wait_ms = 0, req_max_updates = 1\<rparr> (\<lambda>_. ex_db) ex_registry = Some (res, r')"
  using replicate_never_aborts [OF ex_registry_reach] by blast

text \<open>
  \<open>addDB\<close> succeeds exactly when the name is free. Then the name, and no other, resolves to the new
  object, which starts to replicate: a slave sends one pull from the end of its log, others send
  nothing. When the name is taken nothing changes but the counter of objects.
\<close>

theorem addDB_registers:
  assumes "registry_inv r" "RocksDBReplicator_addDB fl api dbs name db role addr r = res"
  shows "if registered r name then res = Some (DB_PRE_EXIST, r\<lparr>next_obj := next_obj r + 1\<rparr>)
    else \<exists>r'. res = Some (RC_OK, r') \<and>
      (\<forall>n. FastReadMap_get n (db_map r') = (if n = name then Some (next_obj r) else FastReadMap_get n (db_map r))) \<and>
      objs r' (next_obj r) = Some (ReplicatedDB_ctor name role addr, db) \<and>
      next_obj r \<in> set (cleaner_dbs r') \<and>
      map (req_seq_no \<circ> snd) (sent r') = map (req_seq_no \<circ> snd) (sent r) @
        (if role = SLAVE then [db_GetLatestSequenceNumber api (dbs db)] else [])"
proof -
  have inv: "frm_inv (db_map r)" using assms(1) by (simp add: registry_inv_def)
  show ?thesis
  proof (cases "registered r name")
    case False
    then have "fst (FastReadMap_add name (next_obj r) (db_map r))"
      using frm.add(1) [OF inv] frm.get [OF inv] by simp
    note ga = frm.get_add [OF inv this]
    with False addDB_cases [OF assms(1), of fl api dbs name db role addr] assms(2) show ?thesis
      by (auto simp: Let_def)
  qed (use addDB_cases [OF assms(1), of fl api dbs name db role addr] assms(2) in \<open>auto simp: Let_def\<close>)
qed

theorem addDB_registers_witness:
  "fst (the (RocksDBReplicator_addDB ex_flags list_api (\<lambda>_. ex_db) ''b'' 1 SLAVE ''h'' ex_registry)) = RC_OK"
proof -
  have "\<not> registered ex_registry ''b''"
    by (simp add: ex_registry_def RocksDBReplicator_addDB_def RocksDBReplicator_ctor_def frm_defs Let_def
        CachedIterCleaner_addDB_def)
  with addDB_registers [OF ex_registry_inv, of ex_flags list_api "\<lambda>_. ex_db" "''b''" 1 SLAVE "''h''", OF refl]
  show ?thesis by auto
qed

text \<open>
  \<open>removeDB\<close> answers \<open>DB_NOT_FOUND\<close> for an unknown name. For a known one it returns \<open>OK\<close> as soon as a poll
  finds no other owner; from the first moment on, and whether or not it has returned, writes to the name
  get \<open>DB_NOT_FOUND\<close>, the other names are untouched, and the name can be added again.
\<close>

theorem removeDB_unregisters:
  assumes "registry_inv r" "RocksDBReplicator_removeDB name owners r = (code, r')"
  shows "(if registered r name then code = (if 0 \<in> set owners then Some RC_OK else None)
          else code = Some DB_NOT_FOUND \<and> r' = r) \<and>
    fst (RocksDBReplicator_write fl api ms t_start t_end name wb r' dbs) = Some (Inl DB_NOT_FOUND) \<and>
    (\<forall>n. n \<noteq> name \<longrightarrow> FastReadMap_get n (db_map r') = FastReadMap_get n (db_map r)) \<and>
    (\<forall>db role addr. \<exists>r''. RocksDBReplicator_addDB fl api dbs name db role addr r' = Some (RC_OK, r''))"
proof -
  have inv: "frm_inv (db_map r)" using assms(1) by (simp add: registry_inv_def)
  have poll: "removeDB_poll owners = (if 0 \<in> set owners then Some () else None)" by (induction owners) auto
  obtain q m where m: "FastReadMap_remove name (db_map r) = (q, m)" by fastforce
  have q: "q = FastReadMap_get name (db_map r)" and get: "FastReadMap_get n m = (if n = name then None else FastReadMap_get n (db_map r))" for n
    using frm.remove(1) [OF inv, of name] frm.get_remove [OF inv, of n name] frm.get [OF inv] m by simp_all
  have map: "db_map r' = (if registered r name then m else db_map r)"
    using assms(2) m q by (auto simp: RocksDBReplicator_removeDB_def Let_def split: option.splits)
  have gone: "FastReadMap_get name (db_map r') = None" using map get [of name] by auto
  have "(if registered r name then code = (if 0 \<in> set owners then Some RC_OK else None)
      else code = Some DB_NOT_FOUND \<and> r' = r)"
    using assms(2) m q poll by (auto simp: RocksDBReplicator_removeDB_def Let_def split: option.splits)
  moreover have "fst (RocksDBReplicator_write fl api ms t_start t_end name wb r' dbs) = Some (Inl DB_NOT_FOUND)"
    using gone by (simp add: RocksDBReplicator_write_def)
  moreover have "\<exists>r''. RocksDBReplicator_addDB fl api dbs name db role addr r' = Some (RC_OK, r'')" for db role addr
    by (simp add: addDB_cases [OF registry_inv_remove [OF assms]] gone Let_def)
  ultimately show ?thesis using map get by auto
qed

theorem removeDB_unregisters_witness:
  "fst (RocksDBReplicator_removeDB ''a'' [2, 1, 0] ex_registry) = Some RC_OK"
proof -
  obtain code r' where r: "RocksDBReplicator_removeDB ''a'' [2, 1, 0] ex_registry = (code, r')" by fastforce
  moreover have "registered ex_registry ''a''"
    by (simp add: ex_registry_def RocksDBReplicator_addDB_def RocksDBReplicator_ctor_def frm_defs Let_def
        CachedIterCleaner_addDB_def)
  ultimately show ?thesis using removeDB_unregisters [OF ex_registry_inv r, of ex_flags list_api] by simp
qed

text \<open>
  (C19) The return code of \<open>write\<close>, on every branch: \<open>DB_NOT_FOUND\<close> without a registration; \<open>WRITE_TO_SLAVE\<close>
  for a slave, with nothing changed; \<open>WRITE_ERROR\<close> when RocksDB refuses the batch, whose log is then
  unchanged; otherwise the batch is committed with its timestamp and, depending on the replication mode,
  the call returns \<open>OK\<close>, waits for the sequence number after the batch to be acknowledged, or fails the
  \<open>CHECK\<close> of the mode. After the wait it is \<open>OK\<close> or \<open>WAIT_SLAVE_TIMEOUT\<close>.
\<close>

theorem write_return_codes:
  assumes "rocksdb_spec api a" "registry_inv r"
    and "RocksDBReplicator_write fl api ms t_start t_end name wb r dbs = (res, r', dbs')"
  shows "(case FastReadMap_get name (db_map r) of
      None \<Rightarrow> res = Some (Inl DB_NOT_FOUND) \<and> r' = r \<and> dbs' = dbs
    | Some p \<Rightarrow> \<exists>rdb d. objs r p = Some (rdb, d) \<and>
        (if rdb_role rdb = SLAVE then res = Some (Inl WRITE_TO_SLAVE) \<and> r' = r \<and> dbs' = dbs
         else if fst (db_Write api (dbs d) (wb_PutLogData api (u64_bytes ms) wb)) \<noteq> StOk
         then res = Some (Inl WRITE_ERROR) \<and> abs_log a (dbs' d) = abs_log a (dbs d)
         else abs_log a (dbs' d) = abs_log a (dbs d) @ [stamped ms (abs_batch a wb)] \<and>
           res = (if replicator_replication_mode fl \<in> {1, 2} then Some (Inr (of_nat (seq_len (abs_log a (dbs' d)))))
                  else if replicator_replication_mode fl = 0 then Some (Inl RC_OK) else None))) \<and>
    RocksDBReplicator_write_acked True seq = Some (Inl RC_OK) \<and>
    RocksDBReplicator_write_acked False seq = Some (Inl WAIT_SLAVE_TIMEOUT)"
proof -
  have acked: "RocksDBReplicator_write_acked True seq = Some (Inl RC_OK)"
    "RocksDBReplicator_write_acked False seq = Some (Inl WAIT_SLAVE_TIMEOUT)"
    by (simp_all add: RocksDBReplicator_write_acked_def ReplicatedDB_Write_acked_def write_code_def status_ok_def)
  show ?thesis
  proof (cases "FastReadMap_get name (db_map r)")
    case (Some p)
    from registry_invD [OF assms(2) Some] obtain rdb d where ob: "objs r p = Some (rdb, d)" by blast
    obtain st db' where w: "db_Write api (dbs d) (wb_PutLogData api (u64_bytes ms) wb) = (st, db')" by fastforce
    have same: "r\<lparr>objs := (objs r)(p \<mapsto> (rdb, d))\<rparr> = r" using ob by (simp add: fun_upd_idem)
    from rocksdb_write [OF assms(1) w] assms(3) Some ob w acked same show ?thesis
      by (auto simp: RocksDBReplicator_write_def ReplicatedDB_Write_commit_def write_code_def status_ok_def Let_def
          stamped_def rocksdb_latest(1) [OF assms(1)] rocksdb_batch(4) [OF assms(1)] split: if_splits)
  qed (use assms(3) acked in \<open>simp add: RocksDBReplicator_write_def\<close>)
qed

theorem write_return_codes_witness:
  "fst (RocksDBReplicator_write ex_flags list_api 9 0 0 ''zz'' ([3], []) ex_registry (\<lambda>_. ex_db)) = Some (Inl DB_NOT_FOUND)"
proof -
  obtain res r' dbs' where w: "RocksDBReplicator_write ex_flags list_api 9 0 0 ''zz'' ([3], []) ex_registry (\<lambda>_. ex_db)
      = (res, r', dbs')" by (metis prod_cases3)
  have "FastReadMap_get ''zz'' (db_map ex_registry) = None"
    by (simp add: ex_registry_def RocksDBReplicator_addDB_def RocksDBReplicator_ctor_def frm_defs Let_def
        CachedIterCleaner_addDB_def)
  with write_return_codes [OF list_api_spec ex_registry_inv w] w show ?thesis by simp
qed

text \<open>
  A cleanup round forgets exactly the databases that are gone, keeps the order of the others, leaves
  no iterator that has been idle for longer than the timeout in any of them, drops no other iterator, and
  changes nothing else in the registry.
\<close>

theorem cleanup_drops_idle_iterators:
  assumes "r' = CachedIterCleaner_cleanup fl now r"
  shows "cleaner_dbs r' = [p \<leftarrow> cleaner_dbs r. objs r p \<noteq> None] \<and> db_map r' = db_map r \<and>
    (\<forall>p rdb d. objs r p = Some (rdb, d) \<longrightarrow>
       objs r' p = Some (if p \<in> set (cleaner_dbs r)
         then (rdb\<lparr>rdb_cached_iters := [(s, it, t) \<leftarrow> rdb_cached_iters rdb.
                 \<not> t + of_int (replicator_idle_iter_timeout_ms fl) < now]\<rparr>, d) else (rdb, d)))"
proof -
  obtain ps os where l: "cleanup_loop fl now (cleaner_dbs r) (objs r) = (ps, os)" by fastforce
  have clean: "ReplicatedDB_cleanIdleCachedIters fl now cs =
      [(s, it, t) \<leftarrow> cs. \<not> t + of_int (replicator_idle_iter_timeout_ms fl) < now]" for cs :: "(u64 \<times> 'a \<times> u64) list"
    by (induction cs rule: ReplicatedDB_cleanIdleCachedIters.induct) auto
  from cleanup_loop_objs [OF l] show ?thesis
    using assms l by (auto simp: CachedIterCleaner_cleanup_def clean)
qed

theorem cleanup_drops_idle_iterators_witness:
  "cleaner_dbs (CachedIterCleaner_cleanup ex_flags 100 (ex_registry\<lparr>cleaner_dbs := [4, 0]\<rparr>)) = [0]"
  using cleanup_drops_idle_iterators [of _ ex_flags 100 "ex_registry\<lparr>cleaner_dbs := [4, 0]\<rparr>", OF refl]
  by (simp add: ex_registry_def RocksDBReplicator_addDB_def RocksDBReplicator_ctor_def frm_defs Let_def
        CachedIterCleaner_addDB_def)

end
