(* ===== verification/Admin_Utils.thy ===== *)
theory Admin_Utils
  imports Prelude
begin

text \<open>
  \<open>rocksdb_admin/utils.cpp\<close>: the name of a shard is its segment followed by the shard number in at least
  five decimal digits. \<open>folly::to<int>\<close> is a parameter of \<open>ExtractShardId\<close>; the C library's \<open>%s\<close> and
  \<open>%05d\<close> are written out.
\<close>

section \<open>Decimal numbers\<close>

text \<open>\<open>%0<w>d\<close>: the sign counts for the width, zeros go between the sign and the digits.\<close>

definition show_padded :: "nat \<Rightarrow> int \<Rightarrow> string" where
  "show_padded w i =
    (let sign = (if i < 0 then ''-'' else []);
         digits = show_nat (nat \<bar>i\<bar>)
     in sign @ replicate (w - length sign - length digits) (CHR ''0'') @ digits)"

text \<open>The value of a string of digits, the part of the behaviour of \<open>folly::to<int>\<close> the code relies on.\<close>

definition is_digit :: "char \<Rightarrow> bool" where
  "is_digit c \<longleftrightarrow> 48 \<le> (of_char c :: nat) \<and> (of_char c :: nat) \<le> 57"

definition digits_value :: "string \<Rightarrow> nat" where
  "digits_value s = foldl (\<lambda>v c. 10 * v + (of_char c - 48)) 0 s"

definition to_int_spec :: "(string \<Rightarrow> int option) \<Rightarrow> bool" where
  "to_int_spec to_int \<longleftrightarrow>
     (\<forall>s. s \<noteq> [] \<and> list_all is_digit s \<and> digits_value s < 2 ^ 31 \<longrightarrow> to_int s = Some (int (digits_value s)))"

section \<open>Shard names\<close>

definition kShardLength :: nat where
  "kShardLength = 5"

text \<open>\<open>segment.c_str()\<close> ends at the first NUL.\<close>

definition SegmentToDbName :: "string \<Rightarrow> int \<Rightarrow> string" where
  "SegmentToDbName segment shard_id = takeWhile (\<lambda>c. c \<noteq> CHR 0x00) segment @ show_padded 5 shard_id"

definition DbNameToSegment :: "string \<Rightarrow> string" where
  "DbNameToSegment db_name =
    (if length db_name \<le> kShardLength then db_name else take (length db_name - kShardLength) db_name)"

definition ExtractShardId :: "(string \<Rightarrow> int option) \<Rightarrow> string \<Rightarrow> int" where
  "ExtractShardId to_int db_name =
    (if length db_name < kShardLength then -1
     else case to_int (drop (length db_name - kShardLength) db_name) of None \<Rightarrow> -1 | Some i \<Rightarrow> i)"

section \<open>Lemmas\<close>

lemma of_char_digit [simp]: "d < 10 \<Longrightarrow> (of_char (digit_char d) :: nat) = 48 + d"
  by (simp add: digit_char_def)

lemma is_digit_digit_char [simp]: "d < 10 \<Longrightarrow> is_digit (digit_char d)"
  by (simp add: is_digit_def)

lemma show_nat_digits: "list_all is_digit (show_nat n)"
  by (induction n rule: show_nat.induct) (subst show_nat.simps, simp)

lemma show_nat_nonempty [simp]: "show_nat n \<noteq> []"
  by (subst show_nat.simps) simp

lemma digits_value_append: "digits_value (s @ [c]) = 10 * digits_value s + (of_char c - 48)"
  by (simp add: digits_value_def)

lemma digits_value_show_nat: "digits_value (show_nat n) = n"
proof (induction n rule: show_nat.induct)
  case (1 n)
  show ?case
  proof (cases "n < 10")
    case False
    then have "show_nat n = show_nat (n div 10) @ [digit_char (n mod 10)]" by (subst show_nat.simps) simp
    with 1 False show ?thesis by (simp add: digits_value_append)
  qed (subst show_nat.simps, simp add: digits_value_def)
qed

lemma length_show_nat: "n < 10 ^ k \<Longrightarrow> 0 < k \<Longrightarrow> length (show_nat n) \<le> k"
proof (induction n arbitrary: k rule: show_nat.induct)
  case (1 n)
  show ?case
  proof (cases "n < 10")
    case False
    then have "show_nat n = show_nat (n div 10) @ [digit_char (n mod 10)]" by (subst show_nat.simps) simp
    moreover obtain j where k: "k = Suc j" using 1(3) by (cases k) auto
    moreover have "0 < j" using 1(2) False k by (cases j) auto
    moreover have "n div 10 < 10 ^ j" using 1(2) k by (simp add: less_mult_imp_div_less mult.commute)
    ultimately show ?thesis using 1(1) [OF False, of j] by simp
  qed (use 1 in \<open>subst show_nat.simps, simp\<close>)
qed

lemma digits_value_zeros: "digits_value (replicate k (CHR ''0'') @ s) = digits_value s"
  by (induction k) (simp_all add: digits_value_def)

lemma show_padded_pos:
  assumes "0 \<le> i" "i < 10 ^ w" "0 < w"
  shows "length (show_padded w i) = w \<and> list_all is_digit (show_padded w i) \<and> digits_value (show_padded w i) = nat i"
proof -
  have "nat i < 10 ^ w" using assms by (simp add: nat_less_iff)
  then have "length (show_nat (nat i)) \<le> w" using assms(3) by (rule length_show_nat)
  with assms show ?thesis
    using show_nat_digits [of "nat i"]
    by (auto simp: show_padded_def Let_def digits_value_zeros digits_value_show_nat list_all_iff is_digit_def)
qed

section \<open>Properties\<close>

text \<open>
  (C40) Shard names round trip: for a non-empty segment without a NUL and a shard number of at most five
  digits, the segment and the number are recovered from the name.
\<close>

theorem shard_name_round_trip:
  assumes "to_int_spec to_int" "segment \<noteq> []" "CHR 0x00 \<notin> set segment" "0 \<le> shard_id" "shard_id < 100000"
  shows "DbNameToSegment (SegmentToDbName segment shard_id) = segment \<and>
    ExtractShardId to_int (SegmentToDbName segment shard_id) = shard_id"
proof -
  have p: "length (show_padded 5 shard_id) = 5" "list_all is_digit (show_padded 5 shard_id)"
      "digits_value (show_padded 5 shard_id) = nat shard_id"
    using show_padded_pos [of shard_id 5] assms(4,5) by simp_all
  have seg: "takeWhile (\<lambda>c. c \<noteq> CHR 0x00) segment = segment"
    using assms(3) by (auto simp: takeWhile_eq_all_conv)
  have "show_padded 5 shard_id \<noteq> []" using p(1) by auto
  moreover have "digits_value (show_padded 5 shard_id) < 2 ^ 31" using p(3) assms(4,5) by simp
  ultimately have "to_int (show_padded 5 shard_id) = Some (int (nat shard_id))"
    using assms(1) p(2,3) by (simp add: to_int_spec_def)
  with p assms(2,4) show ?thesis
    by (simp add: SegmentToDbName_def seg DbNameToSegment_def ExtractShardId_def kShardLength_def)
qed

definition digits_to_int :: "string \<Rightarrow> int option" where
  "digits_to_int s = (if s \<noteq> [] \<and> list_all is_digit s then Some (int (digits_value s)) else None)"

theorem shard_name_round_trip_witness:
  "SegmentToDbName ''seg'' 42 = ''seg00042'' \<and> ExtractShardId digits_to_int ''seg00042'' = 42"
proof -
  have name: "SegmentToDbName ''seg'' 42 = ''seg00042''"
    by code_simp
  have "to_int_spec digits_to_int" by (simp add: to_int_spec_def digits_to_int_def)
  from shard_name_round_trip [OF this, of "''seg''" 42] name show ?thesis by simp
qed

end
