(* ===== verification/Application_Db.thy ===== *)
theory Application_Db
  imports Replicator Admin_Utils
begin

text \<open>
  \<open>rocksdb_admin/application_db.{h,cpp}\<close> and \<open>application_db_manager.{h,cpp}\<close>: the databases of a service.
  Creating an \<open>ApplicationDB\<close> registers it with the process-wide replicator, destroying it takes it out
  again; the manager is the map from names to them.

  RocksDB handles are pointers. The reference counts the waiting loops see are arguments, as in
  \<open>Replicator\<close>. \<open>GetIntProperty\<close> is a parameter.
\<close>

section \<open>ApplicationDB\<close>

record application_db =
  app_name :: string
  app_db :: nat
  app_role :: db_role
  app_upstream :: "string option"
  app_replicated :: "nat option"

definition ApplicationDB_IsSlave :: "application_db \<Rightarrow> bool" where
  "ApplicationDB_IsSlave app \<longleftrightarrow> app_role app = SLAVE"

text \<open>
  The constructor registers everything but a slave without an upstream, and throws the replicator's
  code when it refuses (\<open>Inl\<close>). The outer \<open>None\<close> is a failed \<open>CHECK\<close> of the replicator.
\<close>

definition ApplicationDB_ctor ::
  "replicator_flags \<Rightarrow> ('db, 'it, 'wb, 'raw) rocksdb_api \<Rightarrow> (nat \<Rightarrow> 'db) \<Rightarrow> string \<Rightarrow> nat \<Rightarrow> db_role \<Rightarrow>
   string option \<Rightarrow> 'it replicator \<Rightarrow> ((return_code + application_db) \<times> 'it replicator) option" where
  "ApplicationDB_ctor fl api dbs db_name db role upstream_addr r =
    (let app = \<lparr>app_name = db_name, app_db = db, app_role = role, app_upstream = upstream_addr, app_replicated = None\<rparr> in
     if \<not> ApplicationDB_IsSlave app \<or> upstream_addr \<noteq> None then
       (case RocksDBReplicator_addDB fl api dbs db_name db role (case upstream_addr of None \<Rightarrow> [] | Some a \<Rightarrow> a) r of
          None \<Rightarrow> None
        | Some (ret, r') \<Rightarrow>
            if ret \<noteq> RC_OK then Some (Inl ret, r')
            else Some (Inr (app\<lparr>app_replicated := Some (next_obj r)\<rparr>), r'))
     else Some (Inr app, r))"

text \<open>The destructor; \<open>False\<close> while \<open>removeDB\<close> of the replicator is still waiting.\<close>

definition ApplicationDB_dtor :: "nat list \<Rightarrow> application_db \<Rightarrow> 'it replicator \<Rightarrow> bool \<times> 'it replicator" where
  "ApplicationDB_dtor owners app r =
    (if app_replicated app \<noteq> None
     then let (code, r) = RocksDBReplicator_removeDB (app_name app) owners r in (code \<noteq> None, r)
     else (True, r))"

text \<open>
  \<open>Write\<close>: through the replicated database if there is one, else into the local one. The counters and the
  timer are \<open>stat_event\<close>s.
\<close>

definition ApplicationDB_Write ::
  "replicator_flags \<Rightarrow> ('db, 'it, 'wb, 'raw) rocksdb_api \<Rightarrow> u64 \<Rightarrow> u64 \<Rightarrow> u64 \<Rightarrow> int \<Rightarrow> 'wb \<Rightarrow> application_db \<Rightarrow>
   'it replicator \<Rightarrow> (nat \<Rightarrow> 'db) \<Rightarrow> write_outcome \<times> 'it replicator \<times> (nat \<Rightarrow> 'db) \<times> stat_event list" where
  "ApplicationDB_Write fl api ms t_start t_end elapsed_ms write_batch app r dbs =
    (let evs = [Incr ''rocksdb_write'' 1, Incr ''rocksdb_write_bytes'' (wb_GetDataSize api write_batch),
                AddMetric ''rocksdb_write_ms'' elapsed_ms];
         local = (let (status, db) = db_Write api (dbs (app_db app)) write_batch
                  in (WriteDone status None, r, dbs(app_db app := db), evs))
     in case app_replicated app of
          None \<Rightarrow> local
        | Some p \<Rightarrow>
            (case objs r p of
               None \<Rightarrow> local
             | Some (rdb, d) \<Rightarrow>
                 let (out, rdb, db) = ReplicatedDB_Write_commit fl api ms t_start t_end write_batch rdb (dbs d)
                 in (out, r\<lparr>objs := (objs r)(p \<mapsto> (rdb, d))\<rparr>, dbs(d := db), evs)))"

text \<open>\<open>Get\<close>, in both variants: the statistics can be switched off. \<open>get\<close> is the database's \<open>Get\<close>.\<close>

definition ApplicationDB_Get ::
  "bool \<Rightarrow> int \<Rightarrow> ('db \<Rightarrow> 'key \<Rightarrow> rdb_status \<times> 'val) \<Rightarrow> 'key \<Rightarrow> application_db \<Rightarrow> (nat \<Rightarrow> 'db) \<Rightarrow>
   (rdb_status \<times> 'val) \<times> stat_event list" where
  "ApplicationDB_Get disable_stats elapsed_ms get key app dbs =
    (get (dbs (app_db app)) key,
     if disable_stats then [] else [Incr ''rocksdb_get'' 1, AddMetric ''rocksdb_get_ms'' elapsed_ms])"

text \<open>The other accesses: each is counted, timed and handed to RocksDB.\<close>

definition ApplicationDB_NewIterator ::
  "int \<Rightarrow> ('db \<Rightarrow> 'iter) \<Rightarrow> application_db \<Rightarrow> (nat \<Rightarrow> 'db) \<Rightarrow> 'iter \<times> stat_event list" where
  "ApplicationDB_NewIterator elapsed_ms new_iterator app dbs =
    (new_iterator (dbs (app_db app)), [Incr ''rocksdb_new_iterator'' 1, AddMetric ''rocksdb_new_iterator_ms'' elapsed_ms])"

definition ApplicationDB_MultiGet ::
  "int \<Rightarrow> ('db \<Rightarrow> 'key list \<Rightarrow> (rdb_status \<times> 'val) list) \<Rightarrow> 'key list \<Rightarrow> application_db \<Rightarrow> (nat \<Rightarrow> 'db) \<Rightarrow>
   (rdb_status \<times> 'val) list \<times> stat_event list" where
  "ApplicationDB_MultiGet elapsed_ms multi_get keys app dbs =
    (multi_get (dbs (app_db app)) keys, [Incr ''rocksdb_multi_get'' 1, AddMetric ''rocksdb_multi_get_ms'' elapsed_ms])"

definition ApplicationDB_CompactRange ::
  "int \<Rightarrow> ('db \<Rightarrow> rdb_status \<times> 'db) \<Rightarrow> application_db \<Rightarrow> (nat \<Rightarrow> 'db) \<Rightarrow>
   rdb_status \<times> (nat \<Rightarrow> 'db) \<times> stat_event list" where
  "ApplicationDB_CompactRange elapsed_ms compact app dbs =
    (let (status, db) = compact (dbs (app_db app))
     in (status, dbs(app_db app := db),
         [Incr ''rocksdb_compact_range'' 1, AddMetric ''rocksdb_compact_range_ms'' elapsed_ms]))"

section \<open>ApplicationDBManager\<close>

type_synonym manager = "(string \<times> application_db) list"

definition Manager_ctor :: manager where
  "Manager_ctor = []"

text \<open>What \<open>addDB\<close> does: return a boolean (with the message for false), or throw.\<close>

datatype add_outcome = AddTrue | AddFalse string | AddThrows return_code

definition Manager_addDB ::
  "replicator_flags \<Rightarrow> ('db, 'it, 'wb, 'raw) rocksdb_api \<Rightarrow> (nat \<Rightarrow> 'db) \<Rightarrow> string \<Rightarrow> nat \<Rightarrow> db_role \<Rightarrow> string option \<Rightarrow>
   manager \<Rightarrow> 'it replicator \<Rightarrow> (add_outcome \<times> manager \<times> 'it replicator) option" where
  "Manager_addDB fl api dbs db_name db role up_addr m r =
    (if map_of m db_name \<noteq> None then Some (AddFalse (db_name @ '' has already been added''), m, r)
     else
       (case ApplicationDB_ctor fl api dbs db_name db role up_addr r of
          None \<Rightarrow> None
        | Some (Inl code, r) \<Rightarrow> Some (AddThrows code, m, r)
        | Some (Inr app, r) \<Rightarrow> Some (AddTrue, m @ [(db_name, app)], r)))"

definition Manager_getDB :: "string \<Rightarrow> manager \<Rightarrow> string + application_db" where
  "Manager_getDB db_name m =
    (case map_of m db_name of None \<Rightarrow> Inl (db_name @ '' does not exist'') | Some app \<Rightarrow> Inr app)"

text \<open>\<open>waitOnApplicationDBRef\<close>: \<open>None\<close> when it still waits after the given use counts.\<close>

fun waitOnApplicationDBRef :: "nat list \<Rightarrow> unit option" where
  "waitOnApplicationDBRef [] = None"
| "waitOnApplicationDBRef (use_count # rest) = (if use_count > 1 then waitOnApplicationDBRef rest else Some ())"

text \<open>
  \<open>removeDB\<close>: the error message, or the database pointer. The entry is erased first; \<open>None\<close> while a wait
  (for the \<open>ApplicationDB\<close>, or in its destructor for the \<open>ReplicatedDB\<close>) is not over.
\<close>

definition Manager_removeDB ::
  "string \<Rightarrow> nat list \<Rightarrow> nat list \<Rightarrow> manager \<Rightarrow> 'it replicator \<Rightarrow> (string + nat) option \<times> manager \<times> 'it replicator" where
  "Manager_removeDB db_name use_counts owners m r =
    (case map_of m db_name of
       None \<Rightarrow> (Some (Inl (db_name @ '' does not exist'')), m, r)
     | Some app \<Rightarrow>
         let m = filter (\<lambda>(n, _). n \<noteq> db_name) m in
         (case waitOnApplicationDBRef use_counts of
            None \<Rightarrow> (None, m, r)
          | Some _ \<Rightarrow>
              let (finished, r) = ApplicationDB_dtor owners app r
              in (if finished then Some (Inr (app_db app)) else None, m, r)))"

definition Manager_getAllDBNames :: "manager \<Rightarrow> string list" where
  "Manager_getAllDBNames m = map fst m"

definition Manager_DumpDBStatsAsText :: "(nat \<Rightarrow> u64 option) \<Rightarrow> manager \<Rightarrow> string" where
  "Manager_DumpDBStatsAsText total_sst_size m =
    concat (map (\<lambda>(_, app).
      ''  total_sst_file_size db='' @ takeWhile (\<lambda>c. c \<noteq> CHR 0x00) (app_name app) @ '': '' @
      show_nat (unat (case total_sst_size (app_db app) of None \<Rightarrow> 0 | Some sz \<Rightarrow> sz)) @ [CHR 0x0A]) m)"

text \<open>The destructor waits for and drops one database after the other; it yields the released pointers.\<close>

fun Manager_dtor :: "(string \<Rightarrow> nat list) \<Rightarrow> (string \<Rightarrow> nat list) \<Rightarrow> manager \<Rightarrow> 'it replicator \<Rightarrow> nat list \<times> manager \<times> 'it replicator" where
  "Manager_dtor use_counts owners [] r = ([], [], r)"
| "Manager_dtor use_counts owners ((n, app) # m) r =
    (case waitOnApplicationDBRef (use_counts n) of
       None \<Rightarrow> ([], (n, app) # m, r)
     | Some _ \<Rightarrow>
         (case ApplicationDB_dtor (owners n) app r of
            (False, r) \<Rightarrow> ([], m, r)
          | (True, r) \<Rightarrow>
              let (released, rest, r) = Manager_dtor use_counts owners m r in (app_db app # released, rest, r)))"

section \<open>The manager and the replicator agree\<close>

text \<open>
  Every managed database that replicates is registered under its name, with its own database and role;
  the others are slaves without an upstream; and nothing else is registered.
\<close>

definition app_ok :: "'it replicator \<Rightarrow> string \<Rightarrow> application_db \<Rightarrow> bool" where
  "app_ok r n app \<longleftrightarrow> app_name app = n \<and>
    (case app_replicated app of
       None \<Rightarrow> app_role app = SLAVE \<and> app_upstream app = None \<and> FastReadMap_get n (db_map r) = None
     | Some p \<Rightarrow> FastReadMap_get n (db_map r) = Some p \<and>
         (\<exists>rdb. objs r p = Some (rdb, app_db app) \<and> rdb_role rdb = app_role app))"

definition service_inv :: "manager \<Rightarrow> 'it replicator \<Rightarrow> bool" where
  "service_inv m r \<longleftrightarrow> registry_inv r \<and> distinct (map fst m) \<and> (\<forall>(n, app) \<in> set m. app_ok r n app) \<and>
     (\<forall>n. registered r n \<longrightarrow> n \<in> fst ` set m)"

lemma service_invD:
  assumes "service_inv m r"
  shows "registry_inv r" "distinct (map fst m)" "map_of m n = Some app \<Longrightarrow> app_ok r n app"
    "registered r n \<Longrightarrow> map_of m n \<noteq> None"
  using assms by (auto simp: service_inv_def map_of_eq_None_iff dest: map_of_SomeD)

text \<open>What the replicator's operations do to another name's registration.\<close>

lemma app_ok_other:
  assumes "app_ok r n app" "FastReadMap_get n (db_map r') = FastReadMap_get n (db_map r)"
    and "\<And>p. FastReadMap_get n (db_map r) = Some p \<Longrightarrow> objs r' p = objs r p"
  shows "app_ok r' n app"
  using assms by (auto simp: app_ok_def split: option.splits)

lemma registry_inj:
  assumes "registry_inv r" "FastReadMap_get n (db_map r) = Some p" "FastReadMap_get k (db_map r) = Some p"
  shows "n = k"
  using registry_invD [OF assms(1,2)] registry_invD [OF assms(1,3)] by auto

lemma ApplicationDB_ctor_cases:
  assumes "service_inv m r" "map_of m n = None"
  shows "\<exists>app r'. ApplicationDB_ctor fl api dbs n db role up r = Some (Inr app, r') \<and> registry_inv r' \<and>
    app_ok r' n app \<and> app_db app = db \<and> app_role app = role \<and> app_upstream app = up \<and>
    (\<forall>k. k \<noteq> n \<longrightarrow> FastReadMap_get k (db_map r') = FastReadMap_get k (db_map r)) \<and>
    (\<forall>k p. FastReadMap_get k (db_map r) = Some p \<longrightarrow> objs r' p = objs r p)"
proof -
  note inv = service_invD(1) [OF assms(1)]
  have free: "FastReadMap_get n (db_map r) = None" using service_invD(4) [OF assms(1), of n] assms(2) by blast
  have frm: "frm_inv (db_map r)" using inv by (simp add: registry_inv_def)
  then have added: "fst (FastReadMap_add n (next_obj r) (db_map r))"
    using frm.add(1) [OF frm] frm.get [OF frm] free by simp
  have p_lt: "p \<noteq> next_obj r" if "FastReadMap_get k (db_map r) = Some p" for k p
    using registry_invD [OF inv that] inv unfolding registry_inv_def by (metis less_irrefl option.distinct(1))
  show ?thesis
  proof (cases "role = SLAVE \<and> up = None")
    case True
    with free inv show ?thesis
      by (auto simp: ApplicationDB_ctor_def ApplicationDB_IsSlave_def app_ok_def)
  next
    case False
    let ?up = "case up of None \<Rightarrow> [] | Some a \<Rightarrow> a"
    obtain r' where a: "RocksDBReplicator_addDB fl api dbs n db role ?up r = Some (RC_OK, r')"
      and r': "db_map r' = snd (FastReadMap_add n (next_obj r) (db_map r))"
        "objs r' = (objs r)(next_obj r \<mapsto> (ReplicatedDB_ctor n role ?up, db))"
      using addDB_cases [OF inv, of fl api dbs n db role ?up] free by (auto simp: Let_def)
    have "ApplicationDB_ctor fl api dbs n db role up r =
        Some (Inr \<lparr>app_name = n, app_db = db, app_role = role, app_upstream = up, app_replicated = Some (next_obj r)\<rparr>, r')"
      using False a by (simp add: ApplicationDB_ctor_def ApplicationDB_IsSlave_def)
    moreover have "FastReadMap_get k (db_map r') = (if k = n then Some (next_obj r) else FastReadMap_get k (db_map r))" for k
      using frm.get_add [OF frm added] r' by simp
    ultimately show ?thesis
      using registry_inv_add [OF inv a] p_lt r' by (simp add: app_ok_def ReplicatedDB_ctor_def)
  qed
qed

lemma service_inv_add:
  assumes "service_inv m r"
  shows "if map_of m n \<noteq> None then Manager_addDB fl api dbs n db role up m r =
      Some (AddFalse (n @ '' has already been added''), m, r)
    else \<exists>app r'. Manager_addDB fl api dbs n db role up m r = Some (AddTrue, m @ [(n, app)], r') \<and>
      service_inv (m @ [(n, app)]) r' \<and> app_db app = db \<and> app_role app = role \<and> app_upstream app = up"
proof (cases "map_of m n")
  case None
  from ApplicationDB_ctor_cases [OF assms None] obtain app r' where
    c: "ApplicationDB_ctor fl api dbs n db role up r = Some (Inr app, r')" "registry_inv r'" "app_ok r' n app"
      "app_db app = db" "app_role app = role" "app_upstream app = up"
    and other: "\<And>k. k \<noteq> n \<Longrightarrow> FastReadMap_get k (db_map r') = FastReadMap_get k (db_map r)"
      "\<And>k p. FastReadMap_get k (db_map r) = Some p \<Longrightarrow> objs r' p = objs r p" by blast
  have fresh: "n \<notin> fst ` set m" using None by (simp add: map_of_eq_None_iff)
  have "app_ok r' k app'" if "(k, app') \<in> set m" for k app'
  proof (rule app_ok_other)
    show "app_ok r k app'" using assms that by (auto simp: service_inv_def)
    have "k \<noteq> n" using fresh that by force
    then show "FastReadMap_get k (db_map r') = FastReadMap_get k (db_map r)" by (rule other(1))
  qed (rule other(2))
  moreover have "registered r' k \<Longrightarrow> k \<in> fst ` set (m @ [(n, app)])" for k
    using other(1) [of k] assms by (cases "k = n") (auto simp: service_inv_def)
  ultimately have "service_inv (m @ [(n, app)]) r'"
    using assms c(2,3) fresh by (auto simp: service_inv_def)
  then show ?thesis using None c by (simp add: Manager_addDB_def)
qed (simp add: Manager_addDB_def)

lemma removeDB_effect:
  assumes "registry_inv r" "FastReadMap_get n (db_map r) = Some p" "RocksDBReplicator_removeDB n owners r = (code, r')"
  shows "FastReadMap_get k (db_map r') = (if k = n then None else FastReadMap_get k (db_map r))"
    and "objs r' q = (if q = p \<and> 0 \<in> set owners then None else objs r q)"
    and "code = (if 0 \<in> set owners then Some RC_OK else None)"
proof -
  have inv: "frm_inv (db_map r)" using assms(1) by (simp add: registry_inv_def)
  have poll: "removeDB_poll owners = (if 0 \<in> set owners then Some () else None)" by (induction owners) auto
  obtain m where m: "FastReadMap_remove n (db_map r) = (Some p, m)"
    using frm.remove(1) [OF inv, of n] frm.get [OF inv] assms(2) by (metis prod.collapse)
  then have get: "FastReadMap_get k m = (if k = n then None else FastReadMap_get k (db_map r))"
    using frm.get_remove [OF inv, of k n] by simp
  show "FastReadMap_get k (db_map r') = (if k = n then None else FastReadMap_get k (db_map r))"
    and "objs r' q = (if q = p \<and> 0 \<in> set owners then None else objs r q)"
    and "code = (if 0 \<in> set owners then Some RC_OK else None)"
    using assms(3) m poll get by (auto simp: RocksDBReplicator_removeDB_def Let_def split: if_splits)
qed

text \<open>Dropping a managed database leaves the others and the agreement intact.\<close>

lemma service_inv_drop:
  assumes inv: "service_inv m r" and app: "map_of m n = Some app"
    and d: "ApplicationDB_dtor owners app r = (finished, r')"
  shows "service_inv (filter (\<lambda>(k, _). k \<noteq> n) m) r' \<and>
    (finished \<longleftrightarrow> app_replicated app = None \<or> 0 \<in> set owners) \<and> \<not> registered r' n"
proof (cases "app_replicated app")
  case None
  let ?m = "filter (\<lambda>(k, _). k \<noteq> n) m"
  have "\<not> registered r n" using service_invD(3) [OF inv app] None by (simp add: app_ok_def)
  moreover have "k \<in> fst ` set ?m" if "registered r k" for k
    using that inv \<open>\<not> registered r n\<close> by (cases "k = n") (force simp: service_inv_def)+
  ultimately show ?thesis
    using inv None d by (auto simp: ApplicationDB_dtor_def service_inv_def distinct_map_filter)
next
  case (Some p)
  have ok: "app_name app = n" "FastReadMap_get n (db_map r) = Some p"
    using service_invD(3) [OF inv app] Some by (simp_all add: app_ok_def)
  obtain code where rm: "RocksDBReplicator_removeDB n owners r = (code, r')" "finished = (code \<noteq> None)"
    using d Some ok by (auto simp: ApplicationDB_dtor_def split: prod.splits)
  note reg = service_invD(1) [OF inv]
  note eff = removeDB_effect [OF reg ok(2) rm(1)]
  have "app_ok r' k app'" if "(k, app') \<in> set m" "k \<noteq> n" for k app'
  proof (rule app_ok_other)
    show "app_ok r k app'" using inv that by (auto simp: service_inv_def)
    show "FastReadMap_get k (db_map r') = FastReadMap_get k (db_map r)" using eff(1) that by simp
    show "objs r' q = objs r q" if "FastReadMap_get k (db_map r) = Some q" for q
      using registry_inj [OF reg ok(2), of k] eff(2) [of q] that \<open>k \<noteq> n\<close> by auto
  qed
  moreover have "k \<in> fst ` set (filter (\<lambda>(k, _). k \<noteq> n) m)" if "registered r' k" for k
  proof -
    have "k \<noteq> n" "registered r k" using that eff(1) [of k] by (auto split: if_splits)
    then show ?thesis using inv by (force simp: service_inv_def)
  qed
  ultimately have "service_inv (filter (\<lambda>(k, _). k \<noteq> n) m) r'"
    using inv registry_inv_remove [OF reg rm(1)] by (auto simp: service_inv_def distinct_map_filter)
  then show ?thesis using eff rm Some by auto
qed

text \<open>While nobody else holds a reference, the manager is a map in the sense of \<open>read_map\<close>.\<close>

definition app_core :: "application_db \<Rightarrow> nat \<times> db_role \<times> string option" where
  "app_core app = (app_db app, app_role app, app_upstream app)"

definition service_lookup :: "manager \<times> 'it replicator \<Rightarrow> string \<rightharpoonup> nat \<times> db_role \<times> string option" where
  "service_lookup s n = map_option app_core (map_of (fst s) n)"

definition service_get :: "string \<Rightarrow> manager \<times> 'it replicator \<Rightarrow> (nat \<times> db_role \<times> string option) option" where
  "service_get n s = (case Manager_getDB n (fst s) of Inl _ \<Rightarrow> None | Inr app \<Rightarrow> Some (app_core app))"

definition service_add ::
  "replicator_flags \<Rightarrow> ('db, 'it, 'wb, 'raw) rocksdb_api \<Rightarrow> (nat \<Rightarrow> 'db) \<Rightarrow> string \<Rightarrow> nat \<times> db_role \<times> string option \<Rightarrow>
   manager \<times> 'it replicator \<Rightarrow> bool \<times> manager \<times> 'it replicator" where
  "service_add fl api dbs n v s =
    (case Manager_addDB fl api dbs n (fst v) (fst (snd v)) (snd (snd v)) (fst s) (snd s) of
       Some (AddTrue, s') \<Rightarrow> (True, s') | Some (_, s') \<Rightarrow> (False, s') | None \<Rightarrow> (False, s))"

definition service_remove ::
  "string \<Rightarrow> manager \<times> 'it replicator \<Rightarrow> (nat \<times> db_role \<times> string option) option \<times> manager \<times> 'it replicator" where
  "service_remove n s = (service_get n s, snd (Manager_removeDB n [1] [0] (fst s) (snd s)))"

definition service_clear :: "manager \<times> 'it replicator \<Rightarrow> manager \<times> 'it replicator" where
  "service_clear s = snd (Manager_dtor (\<lambda>_. [1]) (\<lambda>_. [0]) (fst s) (snd s))"

lemma service_dtor:
  "service_inv m r \<Longrightarrow> Manager_dtor (\<lambda>_. [1]) (\<lambda>_. [0]) m r = (rel, m', r') \<Longrightarrow>
     m' = [] \<and> service_inv [] r' \<and> rel = map (app_db \<circ> snd) m"
proof (induction m arbitrary: r rel m' r')
  case (Cons na m)
  obtain n app where na: "na = (n, app)" by fastforce
  obtain f r1 where d: "ApplicationDB_dtor [0] app r = (f, r1)" by fastforce
  have map: "map_of (na # m) n = Some app" by (simp add: na)
  have "n \<notin> fst ` set m" using Cons.prems(1) na by (simp add: service_inv_def)
  then have rest: "filter (\<lambda>(k, _). k \<noteq> n) (na # m) = m" using na by (force simp: filter_id_conv)
  note dr = service_inv_drop [OF Cons.prems(1) map d, unfolded rest]
  then have f: f by simp
  obtain rel1 m1 r2 where rec: "Manager_dtor (\<lambda>_. [1]) (\<lambda>_. [0]) m r1 = (rel1, m1, r2)" by (metis prod_cases3)
  from Cons.IH [OF _ rec] dr Cons.prems(2) d f rec show ?case by (auto simp: na)
qed auto

lemma service_new:
  "service_inv Manager_ctor RocksDBReplicator_ctor" "service_lookup (Manager_ctor, RocksDBReplicator_ctor) = Map.empty"
  by (simp_all add: service_inv_def Manager_ctor_def RocksDBReplicator_ctor_def registry_inv_def frm_defs
      service_lookup_def fun_eq_iff)

lemma service_get_lookup: "service_get n s = service_lookup s n"
  by (simp add: service_get_def service_lookup_def Manager_getDB_def split: option.split)

lemma service_add_laws:
  assumes "service_inv (fst s) (snd s)"
  shows "fst (service_add fl api dbs n v s) \<longleftrightarrow> service_lookup s n = None"
    and "service_inv (fst (snd (service_add fl api dbs n v s))) (snd (snd (service_add fl api dbs n v s)))"
    and "service_lookup (snd (service_add fl api dbs n v s)) =
      (if service_lookup s n = None then (service_lookup s)(n \<mapsto> v) else service_lookup s)"
  using service_inv_add [OF assms, of n fl api dbs "fst v" "fst (snd v)" "snd (snd v)"] assms
  by (auto simp: service_add_def service_lookup_def app_core_def fun_eq_iff map_add_def split: if_splits option.split)

lemma service_remove_laws:
  assumes "service_inv (fst s) (snd s)"
  shows "service_inv (fst (snd (service_remove n s))) (snd (snd (service_remove n s))) \<and>
      service_lookup (snd (service_remove n s)) = (service_lookup s)(n := None)"
proof (cases "map_of (fst s) n")
  case (Some app)
  obtain f r' where d: "ApplicationDB_dtor [0] app (snd s) = (f, r')" by fastforce
  from service_inv_drop [OF assms Some d] Some d show ?thesis
    by (auto simp: service_remove_def Manager_removeDB_def Let_def service_lookup_def map_of_filter_neq fun_eq_iff)
qed (use assms in \<open>auto simp: service_remove_def Manager_removeDB_def service_lookup_def fun_eq_iff\<close>)

lemma service_clear_laws:
  assumes "service_inv (fst s) (snd s)"
  shows "service_inv (fst (service_clear s)) (snd (service_clear s)) \<and> service_lookup (service_clear s) = Map.empty"
proof -
  obtain rel m' r' where d: "Manager_dtor (\<lambda>_. [1]) (\<lambda>_. [0]) (fst s) (snd s) = (rel, m', r')" by (metis prod_cases3)
  from service_dtor [OF assms d] d show ?thesis
    by (simp add: service_clear_def service_lookup_def fun_eq_iff)
qed

interpretation svc: read_map "\<lambda>s. service_inv (fst s) (snd s)" service_lookup "(Manager_ctor, RocksDBReplicator_ctor)"
  service_get "service_add fl api dbs" service_remove service_clear for fl api dbs
  by unfold_locales
    (simp_all add: service_new service_get_lookup service_add_laws service_remove_laws service_clear_laws,
      simp add: service_remove_def service_get_lookup)

section \<open>Properties\<close>

text \<open>
  (C22) As long as the manager and the replicator agree, \<open>addDB\<close> never throws and never aborts: it returns
  true exactly for a name that is not managed, after which \<open>getDB\<close> yields a database with the given
  pointer, role and upstream, and the two still agree; otherwise it returns false with its message and
  changes nothing.
\<close>

theorem Manager_addDB_total:
  assumes "service_inv m r"
  shows "\<exists>out m' r'. Manager_addDB fl api dbs n db role up m r = Some (out, m', r') \<and> service_inv m' r' \<and>
    (if map_of m n = None
     then out = AddTrue \<and> (\<exists>app. Manager_getDB n m' = Inr app \<and> app_db app = db \<and> app_role app = role \<and>
       app_upstream app = up) \<and> (\<forall>k. k \<noteq> n \<longrightarrow> Manager_getDB k m' = Manager_getDB k m)
     else out = AddFalse (n @ '' has already been added'') \<and> m' = m \<and> r' = r)"
proof (cases "map_of m n")
  case None
  from service_inv_add [OF assms, of n fl api dbs db role up] None obtain app r' where
    a: "Manager_addDB fl api dbs n db role up m r = Some (AddTrue, m @ [(n, app)], r')"
      "service_inv (m @ [(n, app)]) r'" "app_db app = db" "app_role app = role" "app_upstream app = up" by auto
  have "Manager_getDB n (m @ [(n, app)]) = Inr app"
    and "k \<noteq> n \<Longrightarrow> Manager_getDB k (m @ [(n, app)]) = Manager_getDB k m" for k
    using None by (simp_all add: Manager_getDB_def map_add_def split: option.split)
  with a None show ?thesis by auto
qed (use service_inv_add [OF assms, of n fl api dbs db role up] assms in auto)

lemma ex_service_inv: "service_inv (fst (snd (service_add ex_flags list_api (\<lambda>_. ex_db) ''a'' (3, MASTER, None)
    (Manager_ctor, RocksDBReplicator_ctor)))) (snd (snd (service_add ex_flags list_api (\<lambda>_. ex_db) ''a'' (3, MASTER, None)
    (Manager_ctor, RocksDBReplicator_ctor))))"
  by (rule svc.add(2)) (rule svc.new(1))

theorem Manager_addDB_total_witness:
  "\<exists>m' r'. Manager_addDB ex_flags list_api (\<lambda>_. ex_db) ''a'' 3 SLAVE (Some ''up'') Manager_ctor RocksDBReplicator_ctor
     = Some (AddTrue, m', r')"
  using Manager_addDB_total [OF service_new(1), of ex_flags list_api "\<lambda>_. ex_db" "''a''" 3 SLAVE "Some ''up''"]
  by (auto simp: Manager_ctor_def)

text \<open>
  \<open>removeDB\<close> of a managed database hands out the pointer that was added, once the use count of the
  \<open>ApplicationDB\<close> has dropped to one and, if it replicates, nobody else holds the \<open>ReplicatedDB\<close>; from the
  first moment on the manager does not know the name any more; when it returns neither does the
  replicator, and they agree about everything else.
\<close>

theorem Manager_removeDB_returns_db:
  assumes "service_inv m r" "Manager_removeDB n use_counts owners m r = (res, m', r')"
  shows "case map_of m n of
      None \<Rightarrow> res = Some (Inl (n @ '' does not exist'')) \<and> m' = m \<and> r' = r
    | Some app \<Rightarrow> map_of m' = (map_of m)(n := None) \<and>
        res = (if (\<exists>c \<in> set use_counts. c \<le> 1) \<and> (app_replicated app = None \<or> 0 \<in> set owners)
               then Some (Inr (app_db app)) else None) \<and>
        (res \<noteq> None \<longrightarrow> \<not> registered r' n \<and> service_inv m' r')"
proof (cases "map_of m n")
  case (Some app)
  have wait: "waitOnApplicationDBRef use_counts = (if \<exists>c \<in> set use_counts. c \<le> 1 then Some () else None)"
    by (induction use_counts) auto
  obtain f r1 where d: "ApplicationDB_dtor owners app r = (f, r1)" by fastforce
  from service_inv_drop [OF assms(1) Some d] assms(2) Some d wait show ?thesis
    by (auto simp: Manager_removeDB_def Let_def map_of_filter_neq split: if_splits)
qed (use assms(2) in \<open>simp add: Manager_removeDB_def\<close>)

theorem Manager_removeDB_returns_db_witness:
  "let s = snd (service_add ex_flags list_api (\<lambda>_. ex_db) ''a'' (3, MASTER, None) (Manager_ctor, RocksDBReplicator_ctor))
   in fst (Manager_removeDB ''a'' [2, 1] [1, 0] (fst s) (snd s)) = Some (Inr 3)"
proof -
  let ?s = "snd (service_add ex_flags list_api (\<lambda>_. ex_db) ''a'' (3, MASTER, None) (Manager_ctor, RocksDBReplicator_ctor))"
  have "service_lookup ?s ''a'' = Some (3, MASTER, None)"
    using svc.add(3) [OF svc.new(1), of ex_flags list_api "\<lambda>_. ex_db" "''a''" "(3, MASTER, None)"]
    by (simp add: service_new(2))
  then obtain app where app: "map_of (fst ?s) ''a'' = Some app" "app_db app = 3"
    by (auto simp: service_lookup_def app_core_def)
  obtain res m' r' where rm: "Manager_removeDB ''a'' [2, 1] [1, 0] (fst ?s) (snd ?s) = (res, m', r')" by (metis prod_cases3)
  from Manager_removeDB_returns_db [OF ex_service_inv rm] app rm show ?thesis by (simp add: Let_def)
qed

text \<open>
  (C23) A write through a managed database never reaches a slave that replicates: it throws
  \<open>WRITE_TO_SLAVE\<close> and changes nothing. Any other managed database hands a batch to its own RocksDB
  database, reports a failure of RocksDB as it is, and touches no other database.
\<close>

theorem ApplicationDB_Write_respects_role:
  assumes "service_inv m r" "map_of m n = Some app"
    and "ApplicationDB_Write fl api ms t_start t_end el wb app r dbs = (out, r', dbs', evs)"
  shows "if app_role app = SLAVE \<and> app_replicated app \<noteq> None
    then out = WriteThrows WRITE_TO_SLAVE \<and> dbs' = dbs \<and> r' = r
    else \<exists>wb' st. wb' \<in> {wb, wb_PutLogData api (u64_bytes ms) wb} \<and>
      db_Write api (dbs (app_db app)) wb' = (st, dbs' (app_db app)) \<and> (st \<noteq> StOk \<longrightarrow> out = WriteDone st None) \<and>
      (\<forall>d. d \<noteq> app_db app \<longrightarrow> dbs' d = dbs d)"
proof (cases "app_replicated app")
  case None
  then show ?thesis using assms(3)
    by (auto simp: ApplicationDB_Write_def Let_def split: prod.splits)
next
  case (Some p)
  obtain rdb where ob: "objs r p = Some (rdb, app_db app)" "rdb_role rdb = app_role app"
    using service_invD(3) [OF assms(1,2)] Some by (auto simp: app_ok_def)
  obtain st db' where w: "db_Write api (dbs (app_db app)) (wb_PutLogData api (u64_bytes ms) wb) = (st, db')" by fastforce
  have same: "r\<lparr>objs := (objs r)(p \<mapsto> (rdb, app_db app))\<rparr> = r" using ob by (simp add: fun_upd_idem)
  from assms(3) Some ob w same show ?thesis
    by (auto simp: ApplicationDB_Write_def ReplicatedDB_Write_commit_def status_ok_def Let_def split: if_splits)
qed

theorem ApplicationDB_Write_respects_role_witness:
  "let s = snd (service_add ex_flags list_api (\<lambda>_. ex_db) ''a'' (3, SLAVE, Some ''up'') (Manager_ctor, RocksDBReplicator_ctor))
   in fst (ApplicationDB_Write ex_flags list_api 0 0 0 0 ([1], []) (the (map_of (fst s) ''a'')) (snd s) (\<lambda>_. ex_db))
        = WriteThrows WRITE_TO_SLAVE"
proof -
  let ?s = "snd (service_add ex_flags list_api (\<lambda>_. ex_db) ''a'' (3, SLAVE, Some ''up'') (Manager_ctor, RocksDBReplicator_ctor))"
  have inv: "service_inv (fst ?s) (snd ?s)" by (rule svc.add(2)) (rule svc.new(1))
  have "service_lookup ?s ''a'' = Some (3, SLAVE, Some ''up'')"
    using svc.add(3) [OF svc.new(1), of ex_flags list_api "\<lambda>_. ex_db" "''a''" "(3, SLAVE, Some ''up'')"]
    by (simp add: service_new(2))
  then obtain app where app: "map_of (fst ?s) ''a'' = Some app" "app_role app = SLAVE" "app_upstream app = Some ''up''"
    by (auto simp: service_lookup_def app_core_def)
  then have rep: "app_replicated app \<noteq> None"
    using service_invD(3) [OF inv app(1)] by (auto simp: app_ok_def split: option.splits)
  obtain out r' dbs' evs where w: "ApplicationDB_Write ex_flags list_api 0 0 0 0 ([1], []) app (snd ?s) (\<lambda>_. ex_db)
      = (out, r', dbs', evs)" by (metis prod_cases4)
  from ApplicationDB_Write_respects_role [OF inv app(1) w] app rep w show ?thesis by (simp add: Let_def)
qed

end
