(* ===== verification/Kafka_Watcher.thy ===== *)
theory Kafka_Watcher
  imports Prelude
begin

text \<open>
  \<open>common/kafka/kafka_watcher.{h,cpp}\<close> with the statistics names of \<open>stats_enum.cpp\<close>: consume a Kafka topic
  up to now, then keep consuming it in a thread, and hand every message to a handler.

  What the consumer returns, what \<open>is_stopped_.load()\<close> and the clock say are arguments, one event for each
  round of a loop, so the statements hold for every behaviour of the broker, the consumer and the stopping
  thread. A loop that is still running when the events are used up yields \<open>None\<close>. The handler acts on a
  state of type \<open>'s\<close>.
\<close>

section \<open>Messages and statistics\<close>

datatype rd_error = ERR_NO_ERROR | ERR_PARTITION_EOF | ERR_TIMED_OUT | ERR_OTHER int

record kafka_message =
  msg_err :: rd_error
  msg_topic_name :: string
  msg_partition :: int
  msg_offset :: int
  msg_create_time :: bool
  msg_timestamp :: int
  msg_key :: string
  msg_payload :: string

definition GetMessageTimestamp :: "kafka_message \<Rightarrow> int" where
  "GetMessageTimestamp m = (if msg_create_time m then msg_timestamp m else -1)"

record kafka_stats_flags =
  kafka_stats_prefix :: string
  kafka_stats_suffix :: string
  kafka_cluster_name :: string

definition getFullStatsName :: "kafka_stats_flags \<Rightarrow> string \<Rightarrow> string list \<Rightarrow> string" where
  "getFullStatsName kf metric_name tags =
    kafka_stats_prefix kf @ metric_name @ ''_'' @ kafka_stats_suffix kf @ '' cluster='' @ kafka_cluster_name kf @
    concat (map (\<lambda>tag. '' '' @ tag) tags)"

type_synonym topic_partition = "string \<times> int"

text \<open>Compare the offset with the previous one of the partition and remember it.\<close>

definition VerifyAndUpdateTopicPartitionOffset ::
  "kafka_stats_flags \<Rightarrow> kafka_message \<Rightarrow> (topic_partition \<rightharpoonup> int) \<Rightarrow> stat_event list \<times> (topic_partition \<rightharpoonup> int)" where
  "VerifyAndUpdateTopicPartitionOffset kf m prev =
    (let tp = (msg_topic_name m, msg_partition m); offset = msg_offset m
     in (case prev tp of
           None \<Rightarrow> []
         | Some prev_offset \<Rightarrow>
             if prev_offset + 1 < offset
             then [Incr (getFullStatsName kf ''kafka_watcher_message_missing'' [msg_topic_name m]) 1]
             else if prev_offset + 1 > offset
             then [Incr (getFullStatsName kf ''kafka_watcher_message_duplicates'' [msg_topic_name m])
                     (word_of_int (prev_offset - offset + 1))]
             else [],
         prev(tp \<mapsto> offset)))"

section \<open>The watcher\<close>

record 's watcher_config =
  wc_flags :: kafka_stats_flags
  wc_name :: string
  wc_init_blocking_consume_timeout_ms :: int
  wc_loop_cycle_limit_ms :: int
  wc_handler :: "kafka_message \<Rightarrow> bool \<Rightarrow> 's \<Rightarrow> 's"

record 's watcher =
  ws_handler_state :: 's
  ws_err_count :: u64
  ws_thread :: bool
  ws_stats :: "stat_event list"

definition KafkaWatcher_ctor :: "'s \<Rightarrow> 's watcher" where
  "KafkaWatcher_ctor s = \<lparr>ws_handler_state = s, ws_err_count = 0, ws_thread = False, ws_stats = []\<rparr>"

definition metric_tag :: "'s watcher_config \<Rightarrow> string" where
  "metric_tag cfg = ''kafka_watcher_name='' @ wc_name cfg"

definition log_stats :: "stat_event list \<Rightarrow> 's watcher \<Rightarrow> 's watcher" where
  "log_stats evs ws = ws\<lparr>ws_stats := ws_stats ws @ evs\<rparr>"

definition HandleKafkaNoErrorMessage :: "'s watcher_config \<Rightarrow> kafka_message \<Rightarrow> bool \<Rightarrow> 's watcher \<Rightarrow> 's watcher" where
  "HandleKafkaNoErrorMessage cfg m is_replay ws =
    ws\<lparr>ws_handler_state := wc_handler cfg m is_replay (ws_handler_state ws)\<rparr>"

text \<open>The metrics of a message, and handing it over.\<close>

definition take_message :: "'s watcher_config \<Rightarrow> int \<Rightarrow> bool \<Rightarrow> kafka_message \<Rightarrow> 's watcher \<Rightarrow> 's watcher" where
  "take_message cfg time_now_ms is_replay m ws =
    HandleKafkaNoErrorMessage cfg m is_replay
      (log_stats [AddMetric (getFullStatsName (wc_flags cfg) ''kafka_msg_time_diff_from_curr_ms'' [metric_tag cfg])
                    (time_now_ms - GetMessageTimestamp m),
                  AddMetric (getFullStatsName (wc_flags cfg) ''kafka_msg_num_bytes'' [metric_tag cfg])
                    (int (length (msg_payload m)))] ws)"

definition count_error :: "'s watcher_config \<Rightarrow> 's watcher \<Rightarrow> 's watcher" where
  "count_error cfg ws =
    log_stats [Incr (getFullStatsName (wc_flags cfg) ''kafka_watcher_need_reestablish'' [metric_tag cfg]) 1]
      (ws\<lparr>ws_err_count := ws_err_count ws + 1\<rparr>)"

section \<open>Consuming up to now\<close>

text \<open>One round: the stop flag at the test, the message, the clock at the metrics and at the time limit.\<close>

record consume_event =
  ev_stopped :: bool
  ev_message :: "kafka_message option"
  ev_now_ms :: int
  ev_limit_now_ms :: int

fun consume_loop ::
  "'s watcher_config \<Rightarrow> nat \<Rightarrow> int \<Rightarrow> consume_event list \<Rightarrow> topic_partition set \<Rightarrow> (topic_partition \<rightharpoonup> int) \<Rightarrow> u32 \<Rightarrow>
   's watcher \<Rightarrow> (u32 \<times> 's watcher) option" where
  "consume_loop cfg num_topic_partitions timeout_timestamp_ms [] finished prev n ws = None"
| "consume_loop cfg num_topic_partitions timeout_timestamp_ms (ev # evs) finished prev n ws =
    (if ev_stopped ev \<or> card finished = num_topic_partitions then Some (n, ws)
     else case ev_message ev of
            None \<Rightarrow> Some (n, ws)
          | Some m \<Rightarrow>
              let (broken, finished, prev, ws) =
                (case msg_err m of
                   ERR_NO_ERROR \<Rightarrow>
                     let ws = take_message cfg (ev_now_ms ev) True m ws;
                         (evs, prev) = VerifyAndUpdateTopicPartitionOffset (wc_flags cfg) m prev
                     in (False, finished, prev, log_stats evs ws)
                 | ERR_PARTITION_EOF \<Rightarrow> (False, insert (msg_topic_name m, msg_partition m) finished, prev, ws)
                 | ERR_TIMED_OUT \<Rightarrow> (False, finished, prev, ws)
                 | ERR_OTHER _ \<Rightarrow> (True, finished, prev, count_error cfg ws))
              in if broken then Some (n, ws)
                 else
                   let n = n + 1
                   in if n mod 100 = 0 \<and> wc_init_blocking_consume_timeout_ms cfg \<noteq> -1 \<and>
                         ev_limit_now_ms ev > timeout_timestamp_ms
                      then Some (n, log_stats [Incr (getFullStatsName (wc_flags cfg)
                             ''kafka_watcher_blocking_consume_timeout'' [metric_tag cfg]) 1] ws)
                      else consume_loop cfg num_topic_partitions timeout_timestamp_ms evs finished prev n ws)"

text \<open>A consumer as the watcher sees it: its assignment, its health, whether a seek succeeds, and what it delivers.\<close>

record consumer_view =
  cv_topic_names :: "string list"
  cv_partition_ids :: "int list"
  cv_healthy :: bool
  cv_seek :: "string \<Rightarrow> int \<Rightarrow> bool"
  cv_start_ms :: int
  cv_events :: "consume_event list"

definition ConsumeUpToNow :: "'s watcher_config \<Rightarrow> consumer_view \<Rightarrow> 's watcher \<Rightarrow> (u32 \<times> 's watcher) option" where
  "ConsumeUpToNow cfg consumer ws =
    consume_loop cfg (length (cv_topic_names consumer) * length (cv_partition_ids consumer))
      (cv_start_ms consumer + wc_init_blocking_consume_timeout_ms cfg) (cv_events consumer) {} Map.empty 0 ws"

definition InitKafkaConsumerSeek :: "consumer_view \<Rightarrow> int \<Rightarrow> bool" where
  "InitKafkaConsumerSeek consumer initial_kafka_seek_timestamp_ms \<longleftrightarrow>
    initial_kafka_seek_timestamp_ms = -1 \<or>
    list_all (\<lambda>topic_name. cv_seek consumer topic_name initial_kafka_seek_timestamp_ms) (cv_topic_names consumer)"

section \<open>Starting the watcher\<close>

text \<open>
  \<open>Start\<close> takes the consumers one by one; \<open>False\<close> when a seek failed and it gave up. \<open>StartWith\<close> installs the
  handler (part of the configuration here) and calls it. \<open>Init\<close> of the base class returns true.
\<close>

fun start_consumers :: "'s watcher_config \<Rightarrow> int \<Rightarrow> consumer_view list \<Rightarrow> 's watcher \<Rightarrow> (bool \<times> 's watcher) option" where
  "start_consumers cfg ts [] ws = Some (True, ws)"
| "start_consumers cfg ts (consumer # consumers) ws =
    (if cv_healthy consumer then
       if \<not> InitKafkaConsumerSeek consumer ts then Some (False, ws)
       else if wc_init_blocking_consume_timeout_ms cfg \<noteq> 0 then
         (case ConsumeUpToNow cfg consumer ws of
            None \<Rightarrow> None
          | Some (_, ws) \<Rightarrow> start_consumers cfg ts consumers ws)
       else start_consumers cfg ts consumers ws
     else start_consumers cfg ts consumers ws)"

definition KafkaWatcher_Start :: "'s watcher_config \<Rightarrow> int \<Rightarrow> int \<Rightarrow> consumer_view list \<Rightarrow> 's watcher \<Rightarrow> 's watcher option" where
  "KafkaWatcher_Start cfg duration_ms initial_kafka_seek_timestamp_ms consumers ws =
    (case start_consumers cfg initial_kafka_seek_timestamp_ms consumers ws of
       None \<Rightarrow> None
     | Some (False, ws) \<Rightarrow> Some ws
     | Some (True, ws) \<Rightarrow>
         Some (log_stats [AddMetric (getFullStatsName (wc_flags cfg) ''kafka_watcher_init_ms'' [metric_tag cfg]) duration_ms] ws
                 \<lparr>ws_thread := True\<rparr>))"

section \<open>The watch loop\<close>

text \<open>One message of one consumer; the map of previous offsets is a local variable of this step.\<close>

definition watch_consumer :: "'s watcher_config \<Rightarrow> bool \<times> kafka_message option \<times> int \<Rightarrow> 's watcher \<Rightarrow> 's watcher" where
  "watch_consumer cfg ev ws =
    (case ev of (healthy, message, time_now_ms) \<Rightarrow>
       if \<not> healthy then ws
       else case message of
              None \<Rightarrow> ws
            | Some m \<Rightarrow>
                (case msg_err m of
                   ERR_NO_ERROR \<Rightarrow>
                     log_stats (fst (VerifyAndUpdateTopicPartitionOffset (wc_flags cfg) m Map.empty))
                       (take_message cfg time_now_ms False m ws)
                 | ERR_TIMED_OUT \<Rightarrow> ws
                 | ERR_PARTITION_EOF \<Rightarrow> ws
                 | ERR_OTHER _ \<Rightarrow> count_error cfg ws))"

text \<open>
  The two nested loops. Every test of a loop condition takes one event: the stop flag, the clock, and what the
  consumers deliver if the round is executed. \<open>cycle_end\<close> is \<open>None\<close> at the test of the outer loop. The result
  says whether the loop has ended.
\<close>

record watch_event =
  we_stopped :: bool
  we_now_ms :: int
  we_round :: "(bool \<times> kafka_message option \<times> int) list"

fun StartWatchLoop :: "'s watcher_config \<Rightarrow> watch_event list \<Rightarrow> int option \<Rightarrow> 's watcher \<Rightarrow> bool \<times> 's watcher" where
  "StartWatchLoop cfg [] cycle_end ws = (False, ws)"
| "StartWatchLoop cfg (ev # evs) None ws =
    (if we_stopped ev then (True, ws\<lparr>ws_thread := False\<rparr>)
     else StartWatchLoop cfg evs (Some (we_now_ms ev + wc_loop_cycle_limit_ms cfg)) ws)"
| "StartWatchLoop cfg (ev # evs) (Some cycle_end) ws =
    (if \<not> we_stopped ev \<and> we_now_ms ev \<le> cycle_end
     then StartWatchLoop cfg evs (Some cycle_end) (fold (watch_consumer cfg) (we_round ev) ws)
     else StartWatchLoop cfg evs None ws)"

text \<open>\<open>StopAndWait\<close> sets the flag and joins the thread if there is one: what the loop still does until it ends.\<close>

definition StopAndWait :: "'s watcher_config \<Rightarrow> watch_event list \<Rightarrow> int option \<Rightarrow> 's watcher \<Rightarrow> 's watcher option" where
  "StopAndWait cfg evs cycle_end ws =
    (if ws_thread ws
     then (case StartWatchLoop cfg (map (\<lambda>ev. ev\<lparr>we_stopped := True\<rparr>) evs) cycle_end ws of
             (True, ws) \<Rightarrow> Some ws | (False, _) \<Rightarrow> None)
     else Some ws)"

section \<open>Lemmas\<close>

lemma log_stats_simps [simp]:
  "ws_handler_state (log_stats evs ws) = ws_handler_state ws" "ws_err_count (log_stats evs ws) = ws_err_count ws"
  "ws_thread (log_stats evs ws) = ws_thread ws" "ws_stats (log_stats evs ws) = ws_stats ws @ evs"
  by (simp_all add: log_stats_def)

lemma take_message_simps [simp]:
  "ws_handler_state (take_message cfg now replay m ws) = wc_handler cfg m replay (ws_handler_state ws)"
  "ws_err_count (take_message cfg now replay m ws) = ws_err_count ws"
  "ws_thread (take_message cfg now replay m ws) = ws_thread ws"
  by (simp_all add: take_message_def HandleKafkaNoErrorMessage_def)

lemma count_error_simps [simp]:
  "ws_handler_state (count_error cfg ws) = ws_handler_state ws" "ws_thread (count_error cfg ws) = ws_thread ws"
  "ws_err_count (count_error cfg ws) = ws_err_count ws + 1"
  by (simp_all add: count_error_def)

text \<open>The messages of a list of rounds, and those the handler is to get.\<close>

definition messages :: "consume_event list \<Rightarrow> kafka_message list" where
  "messages evs = concat (map (\<lambda>ev. case ev_message ev of None \<Rightarrow> [] | Some m \<Rightarrow> [m]) evs)"

definition data_messages :: "kafka_message list \<Rightarrow> kafka_message list" where
  "data_messages ms = filter (\<lambda>m. msg_err m = ERR_NO_ERROR) ms"

definition ended_partitions :: "kafka_message list \<Rightarrow> topic_partition set" where
  "ended_partitions ms = {(msg_topic_name m, msg_partition m) | m. m \<in> set ms \<and> msg_err m = ERR_PARTITION_EOF}"

lemma messages_simps [simp]:
  "messages [] = []" "messages (ev # evs) = (case ev_message ev of None \<Rightarrow> [] | Some m \<Rightarrow> [m]) @ messages evs"
  by (simp_all add: messages_def)

lemma data_messages_simps [simp]:
  "data_messages [] = []"
  "data_messages (m # ms) = (if msg_err m = ERR_NO_ERROR then m # data_messages ms else data_messages ms)"
  by (simp_all add: data_messages_def)

lemma ended_partitions_simps [simp]:
  "ended_partitions [] = {}"
  "ended_partitions (m # ms) =
    (if msg_err m = ERR_PARTITION_EOF then insert (msg_topic_name m, msg_partition m) (ended_partitions ms)
     else ended_partitions ms)"
  by (auto simp: ended_partitions_def)

text \<open>A round in which nothing goes wrong.\<close>

definition smooth :: "consume_event \<Rightarrow> bool" where
  "smooth ev \<longleftrightarrow> \<not> ev_stopped ev \<and> (\<exists>m. ev_message ev = Some m \<and> (\<forall>k. msg_err m \<noteq> ERR_OTHER k))"

lemma consume_loop_smooth:
  assumes "list_all smooth evs" "wc_init_blocking_consume_timeout_ms cfg = -1"
    and "finite parts" "finished \<subseteq> parts" "finished \<union> ended_partitions (messages evs) = parts"
  shows "\<exists>k ws'. consume_loop cfg (card parts) t (evs @ [ev]) finished prev n ws = Some (n + of_nat k, ws') \<and> k \<le> length evs \<and>
    finished \<union> ended_partitions (messages (take k evs)) = parts \<and>
    (\<forall>j < k. finished \<union> ended_partitions (messages (take j evs)) \<noteq> parts) \<and>
    ws_handler_state ws' = fold (\<lambda>m. wc_handler cfg m True) (data_messages (messages (take k evs))) (ws_handler_state ws) \<and>
    ws_err_count ws' = ws_err_count ws"
  using assms
proof (induction evs arbitrary: finished prev n ws)
  case Nil
  then show ?case by (intro exI [of _ 0] exI [of _ ws]) simp
next
  case (Cons e evs)
  show ?case
  proof (cases "finished = parts")
    case True
    then show ?thesis by (intro exI [of _ 0] exI [of _ ws]) simp
  next
    case False
    with Cons.prems have ncard: "card finished \<noteq> card parts"
      using card_subset_eq [OF Cons.prems(3,4)] by metis
    from Cons.prems(1) obtain m where m: "\<not> ev_stopped e" "ev_message e = Some m" "\<And>k. msg_err m \<noteq> ERR_OTHER k"
      by (auto simp: smooth_def)
    define fin where "fin = (if msg_err m = ERR_PARTITION_EOF
      then insert (msg_topic_name m, msg_partition m) finished else finished)"
    define ws1 where "ws1 = (if msg_err m = ERR_NO_ERROR
      then log_stats (fst (VerifyAndUpdateTopicPartitionOffset (wc_flags cfg) m prev)) (take_message cfg (ev_now_ms e) True m ws)
      else ws)"
    define prev1 where "prev1 = (if msg_err m = ERR_NO_ERROR
      then snd (VerifyAndUpdateTopicPartitionOffset (wc_flags cfg) m prev) else prev)"
    have step: "consume_loop cfg (card parts) t ((e # evs) @ [ev]) finished prev n ws =
        consume_loop cfg (card parts) t (evs @ [ev]) fin prev1 (n + 1) ws1"
      using m ncard Cons.prems(2)
      by (cases "msg_err m") (auto simp: fin_def ws1_def prev1_def Let_def split: prod.split)
    have union: "finished \<union> ended_partitions (messages (e # es)) = fin \<union> ended_partitions (messages es)" for es
      using m(2) by (simp add: fin_def)
    have "list_all smooth evs" "fin \<subseteq> parts" "fin \<union> ended_partitions (messages evs) = parts"
      using Cons.prems union [of evs] m(2) by (auto simp: fin_def split: if_splits)
    from Cons.IH [OF this(1) Cons.prems(2,3) this(2,3), of prev1 "n + 1" ws1] obtain k ws' where
      IH: "consume_loop cfg (card parts) t (evs @ [ev]) fin prev1 (n + 1) ws1 = Some (n + 1 + of_nat k, ws')" "k \<le> length evs"
        "fin \<union> ended_partitions (messages (take k evs)) = parts"
        "\<forall>j < k. fin \<union> ended_partitions (messages (take j evs)) \<noteq> parts"
        "ws_handler_state ws' = fold (\<lambda>m. wc_handler cfg m True) (data_messages (messages (take k evs))) (ws_handler_state ws1)"
        "ws_err_count ws' = ws_err_count ws1" by blast
    have "finished \<union> ended_partitions (messages (take j (e # evs))) \<noteq> parts" if "j < Suc k" for j
      using that IH(4) False union by (cases j) simp_all
    moreover have "finished \<union> ended_partitions (messages (take (Suc k) (e # evs))) = parts"
      using IH(3) union [of "take k evs"] by simp
    moreover have "ws_handler_state ws' = fold (\<lambda>m. wc_handler cfg m True)
        (data_messages (messages (take (Suc k) (e # evs)))) (ws_handler_state ws)"
      using IH(5) m(2) by (simp add: ws1_def)
    moreover have "ws_err_count ws' = ws_err_count ws" using IH(6) by (simp add: ws1_def)
    ultimately show ?thesis
      using step IH(1,2) by (intro exI [of _ "Suc k"] exI [of _ ws']) (simp add: algebra_simps)
  qed
qed

section \<open>Properties\<close>


definition ex_kafka_flags :: kafka_stats_flags where
  "ex_kafka_flags = \<lparr>kafka_stats_prefix = [], kafka_stats_suffix = [], kafka_cluster_name = ''c''\<rparr>"

definition ex_watcher :: "string list watcher_config" where
  "ex_watcher = \<lparr>wc_flags = ex_kafka_flags, wc_name = ''w'', wc_init_blocking_consume_timeout_ms = -1,
     wc_loop_cycle_limit_ms = 10000, wc_handler = (\<lambda>m replay s. s @ [msg_payload m])\<rparr>"

definition ex_message :: "rd_error \<Rightarrow> int \<Rightarrow> string \<Rightarrow> kafka_message" where
  "ex_message err offset payload = \<lparr>msg_err = err, msg_topic_name = ''t'', msg_partition = 0, msg_offset = offset,
     msg_create_time = True, msg_timestamp = 5, msg_key = ''k'', msg_payload = payload\<rparr>"

definition ex_round :: "kafka_message \<Rightarrow> consume_event" where
  "ex_round m = \<lparr>ev_stopped = False, ev_message = Some m, ev_now_ms = 7, ev_limit_now_ms = 7\<rparr>"

definition ex_consumer :: consumer_view where
  "ex_consumer = \<lparr>cv_topic_names = [''t''], cv_partition_ids = [0], cv_healthy = True, cv_seek = (\<lambda>_ _. True), cv_start_ms = 0,
     cv_events = map ex_round [ex_message ERR_NO_ERROR 1 ''x'', ex_message ERR_TIMED_OUT 0 [],
       ex_message ERR_NO_ERROR 2 ''y'', ex_message ERR_PARTITION_EOF 0 [], ex_message ERR_NO_ERROR 3 ''z'']\<rparr>"


text \<open>The data messages of a round of the watch loop.\<close>

definition round_messages :: "(bool \<times> kafka_message option \<times> int) list \<Rightarrow> kafka_message list" where
  "round_messages evs =
    data_messages (concat (map (\<lambda>(healthy, m, _). if healthy then (case m of None \<Rightarrow> [] | Some m \<Rightarrow> [m]) else []) evs))"

definition reestablish :: "'s watcher_config \<Rightarrow> string" where
  "reestablish cfg = getFullStatsName (wc_flags cfg) ''kafka_watcher_need_reestablish'' [metric_tag cfg]"

definition only_reestablish :: "'s watcher_config \<Rightarrow> stat_event list \<Rightarrow> bool" where
  "only_reestablish cfg evs \<longleftrightarrow> (\<forall>name n. Incr name n \<in> set evs \<longrightarrow> name = reestablish cfg)"

lemma only_reestablish_append:
  "only_reestablish cfg (evs @ evs') \<longleftrightarrow> only_reestablish cfg evs \<and> only_reestablish cfg evs'"
  by (auto simp: only_reestablish_def)

lemma watch_consumer_effect:
  "ws_handler_state (watch_consumer cfg ev ws) =
     fold (\<lambda>m. wc_handler cfg m False) (round_messages [ev]) (ws_handler_state ws) \<and>
   (\<exists>evs. ws_stats (watch_consumer cfg ev ws) = ws_stats ws @ evs \<and> only_reestablish cfg evs)"
  by (auto simp: watch_consumer_def round_messages_def only_reestablish_def reestablish_def take_message_def
      HandleKafkaNoErrorMessage_def count_error_def log_stats_def VerifyAndUpdateTopicPartitionOffset_def Let_def
      split: prod.split option.split rd_error.split)

lemma watch_round_effect:
  "ws_handler_state (fold (watch_consumer cfg) evs ws) =
     fold (\<lambda>m. wc_handler cfg m False) (round_messages evs) (ws_handler_state ws) \<and>
   (\<exists>st. ws_stats (fold (watch_consumer cfg) evs ws) = ws_stats ws @ st \<and> only_reestablish cfg st)"
proof (induction evs arbitrary: ws)
  case Nil
  then show ?case by (simp add: round_messages_def only_reestablish_def)
next
  case (Cons ev evs)
  note one = watch_consumer_effect [of cfg ev ws]
  let ?ws = "watch_consumer cfg ev ws"
  obtain st where st: "ws_stats ?ws = ws_stats ws @ st" "only_reestablish cfg st" using one by (elim conjE exE)
  obtain st' where st': "ws_stats (fold (watch_consumer cfg) evs ?ws) = ws_stats ?ws @ st'" "only_reestablish cfg st'"
    using Cons.IH [of ?ws] by (elim conjE exE)
  have "round_messages (ev # evs) = round_messages [ev] @ round_messages evs"
    by (cases ev) (simp add: round_messages_def split: option.split)
  with Cons.IH [of ?ws] one have "ws_handler_state (fold (watch_consumer cfg) (ev # evs) ws) =
      fold (\<lambda>m. wc_handler cfg m False) (round_messages (ev # evs)) (ws_handler_state ws)" by simp
  moreover have "ws_stats (fold (watch_consumer cfg) (ev # evs) ws) = ws_stats ws @ st @ st'" using st st' by simp
  moreover have "only_reestablish cfg (st @ st')" using st st' by (simp add: only_reestablish_append)
  ultimately show ?case by blast
qed

lemma StartWatchLoop_effect:
  "StartWatchLoop cfg evs cycle_end ws = (ended, ws') \<Longrightarrow>
   \<exists>rounds st. subseq rounds (map we_round evs) \<and> ws_stats ws' = ws_stats ws @ st \<and> only_reestablish cfg st \<and>
     ws_handler_state ws' = fold (\<lambda>m. wc_handler cfg m False) (concat (map round_messages rounds)) (ws_handler_state ws) \<and>
     ((\<forall>ev \<in> set evs. we_stopped ev) \<longrightarrow> rounds = [])"
proof (induction cfg evs cycle_end ws arbitrary: ended ws' rule: StartWatchLoop.induct)
  case (1 cfg cycle_end ws)
  then show ?case by (intro exI [of _ "[]"]) (auto simp: only_reestablish_def)
next
  case (2 cfg ev evs ws)
  show ?case
  proof (cases "we_stopped ev")
    case True
    with 2(2) show ?thesis by (intro exI [of _ "[]"]) (auto simp: only_reestablish_def)
  next
    case False
    with 2(2) have "StartWatchLoop cfg evs (Some (we_now_ms ev + wc_loop_cycle_limit_ms cfg)) ws = (ended, ws')" by simp
    from 2(1) [OF False this] obtain rounds st where "subseq rounds (map we_round evs)" "ws_stats ws' = ws_stats ws @ st"
      "only_reestablish cfg st"
      "ws_handler_state ws' = fold (\<lambda>m. wc_handler cfg m False) (concat (map round_messages rounds)) (ws_handler_state ws)"
      by blast
    with False show ?thesis by (intro exI [of _ rounds] exI [of _ st]) (simp add: list_emb_Cons)
  qed
next
  case (3 cfg ev evs cycle_end ws)
  show ?case
  proof (cases "\<not> we_stopped ev \<and> we_now_ms ev \<le> cycle_end")
    case True
    let ?ws = "fold (watch_consumer cfg) (we_round ev) ws"
    from True 3(3) have "StartWatchLoop cfg evs (Some cycle_end) ?ws = (ended, ws')" by simp
    from 3(1) [OF True this] obtain rounds st where rec: "subseq rounds (map we_round evs)" "ws_stats ws' = ws_stats ?ws @ st"
      "only_reestablish cfg st"
      "ws_handler_state ws' = fold (\<lambda>m. wc_handler cfg m False) (concat (map round_messages rounds)) (ws_handler_state ?ws)"
      by blast
    from watch_round_effect [of cfg "we_round ev" ws] obtain st1 where
      "ws_handler_state ?ws = fold (\<lambda>m. wc_handler cfg m False) (round_messages (we_round ev)) (ws_handler_state ws)"
      "ws_stats ?ws = ws_stats ws @ st1" "only_reestablish cfg st1" by blast
    with rec True show ?thesis by (intro exI [of _ "we_round ev # rounds"] exI [of _ "st1 @ st"]) (auto simp: only_reestablish_append)
  next
    case False
    with 3(3) have "StartWatchLoop cfg evs None ws = (ended, ws')" by simp
    from 3(2) [OF False this] obtain rounds st where "subseq rounds (map we_round evs)" "ws_stats ws' = ws_stats ws @ st"
      "only_reestablish cfg st"
      "ws_handler_state ws' = fold (\<lambda>m. wc_handler cfg m False) (concat (map round_messages rounds)) (ws_handler_state ws)"
      "(\<forall>ev \<in> set evs. we_stopped ev) \<longrightarrow> rounds = []" by blast
    then show ?thesis by (intro exI [of _ rounds] exI [of _ st]) (simp add: list_emb_Cons)
  qed
qed

section \<open>What a message handler has to keep\<close>

text \<open>
  The contract of a handler with its watcher: whatever the handler keeps for every message, a run of the watcher
  keeps, both while it catches up and while it watches.
\<close>

locale message_handler =
  fixes cfg :: "'s watcher_config" and keeps :: "'s \<Rightarrow> bool"
  assumes handler_keeps: "keeps s \<Longrightarrow> keeps (wc_handler cfg m is_replay s)"
begin

lemma consume_keeps:
  "consume_loop cfg k t evs finished prev n ws = Some (n', ws') \<Longrightarrow> keeps (ws_handler_state ws) \<Longrightarrow>
     keeps (ws_handler_state ws')"
proof (induction evs arbitrary: finished prev n ws)
  case (Cons ev evs)
  show ?case
  proof (cases "ev_stopped ev \<or> card finished = k \<or> ev_message ev = None")
    case True
    with Cons.prems show ?thesis by (auto split: if_splits option.splits)
  next
    case False
    then obtain m where m: "ev_message ev = Some m" "\<not> (ev_stopped ev \<or> card finished = k)" by auto
    from Cons m handler_keeps show ?thesis
      by (cases "msg_err m") (auto simp: Let_def split: prod.splits if_splits)
  qed
qed simp

lemma start_keeps:
  "start_consumers cfg ts cs ws = Some (b, ws') \<Longrightarrow> keeps (ws_handler_state ws) \<Longrightarrow> keeps (ws_handler_state ws')"
proof (induction cs arbitrary: ws)
  case (Cons c cs)
  show ?case
  proof (cases "cv_healthy c \<and> InitKafkaConsumerSeek c ts \<and> wc_init_blocking_consume_timeout_ms cfg \<noteq> 0")
    case True
    with Cons.prems(1) obtain n ws1 where c: "ConsumeUpToNow cfg c ws = Some (n, ws1)" "start_consumers cfg ts cs ws1 = Some (b, ws')"
      by (auto split: option.splits)
    from consume_keeps [OF c(1) [unfolded ConsumeUpToNow_def] Cons.prems(2)] Cons.IH [OF c(2)] show ?thesis by simp
  qed (use Cons in \<open>auto split: if_splits\<close>)
qed auto

lemma Start_keeps:
  assumes "KafkaWatcher_Start cfg ms ts cs ws = Some ws'" "keeps (ws_handler_state ws)"
  shows "keeps (ws_handler_state ws')"
  using assms start_keeps [of ts cs ws]
  by (auto simp: KafkaWatcher_Start_def split: option.splits bool.splits)

lemma fold_keeps: "keeps s \<Longrightarrow> keeps (fold (\<lambda>m. wc_handler cfg m b) ms s)"
  by (induction ms arbitrary: s) (auto intro: handler_keeps)

lemma loop_keeps:
  assumes "StartWatchLoop cfg evs cycle_end ws = (ended, ws')" "keeps (ws_handler_state ws)"
  shows "keeps (ws_handler_state ws')"
  using StartWatchLoop_effect [OF assms(1)] fold_keeps [OF assms(2)] by (elim exE conjE) (simp only:)

lemma Stop_keeps:
  assumes "StopAndWait cfg evs cycle_end ws = Some ws'" "keeps (ws_handler_state ws)"
  shows "keeps (ws_handler_state ws')"
  using assms loop_keeps [of "map (\<lambda>ev. ev\<lparr>we_stopped := True\<rparr>) evs" cycle_end ws]
  by (auto simp: StopAndWait_def split: if_splits prod.splits bool.splits)

end

section \<open>Properties of the watch loop\<close>





end
