(* ===== verification/Admin_State.thy ===== *)
theory Admin_State
  imports Application_Db Kafka_Watcher
begin

text \<open>
  The state of \<open>AdminHandler\<close> (\<open>rocksdb_admin/admin_handler.{h,cpp}\<close>) and what its handlers share: error
  values, the pointers to open RocksDB databases, the meta database, and the lookups.

  Everything outside this repository the handlers call (RocksDB's open, destroy, backup and checkpoint
  functions, file systems, S3, HDFS, thrift serialization) is the parameter \<open>admin_env\<close>; the outside world
  these functions act on is a value of type \<open>'fs\<close>. \<open>S3Util\<close> is a thin layer over the AWS library and is
  part of this parameter too.
\<close>

section \<open>Errors and outcomes\<close>

datatype admin_error_code =
  ADMIN_DB_NOT_FOUND | DB_EXIST | INVALID_DB_ROLE | INVALID_UPSTREAM | DB_ADMIN_ERROR | DB_ERROR

text \<open>A default-constructed exception has no error code of the interface (\<open>None\<close>).\<close>

record admin_exception =
  errorCode :: "admin_error_code option"
  message :: string

abbreviation admin_error :: "admin_error_code \<Rightarrow> string \<Rightarrow> admin_exception" where
  "admin_error code msg \<equiv> \<lparr>errorCode = Some code, message = msg\<rparr>"

definition default_exception :: admin_exception where
  "default_exception = \<lparr>errorCode = None, message = []\<rparr>"

text \<open>
  A handler answers, raises an \<open>AdminException\<close>, lets another C++ exception escape (a \<open>ReturnCode\<close> thrown by
  \<open>ApplicationDB\<close>, an error of Boost's file system functions), is still waiting, or fails a \<open>CHECK\<close>.
\<close>

datatype cpp_exception = ThrownCode return_code | FilesystemError

datatype 'a reply = Result 'a | Exception admin_exception | Thrown cpp_exception | Waiting | Aborted

text \<open>Continue after a result, and run a \<open>SCOPE_EXIT\<close> block when the scope is left.\<close>

definition and_then :: "'a reply \<times> 'w \<Rightarrow> ('a \<Rightarrow> 'w \<Rightarrow> 'b reply \<times> 'w) \<Rightarrow> 'b reply \<times> 'w" where
  "and_then rw k =
    (case rw of
       (Result x, w) \<Rightarrow> k x w
     | (Exception e, w) \<Rightarrow> (Exception e, w)
     | (Thrown c, w) \<Rightarrow> (Thrown c, w)
     | (Waiting, w) \<Rightarrow> (Waiting, w)
     | (Aborted, w) \<Rightarrow> (Aborted, w))"

definition scope_exit :: "('w \<Rightarrow> 'w) \<Rightarrow> 'a reply \<times> 'w \<Rightarrow> 'a reply \<times> 'w" where
  "scope_exit f rw = (if fst rw = Waiting \<or> fst rw = Aborted then rw else (fst rw, f (snd rw)))"

section \<open>The environment\<close>

record admin_flags =
  hdfs_name_node :: string
  rocksdb_dir :: string
  num_hdfs_access_threads :: int
  rocksdb_allow_overlapping_keys :: bool
  allow_overlapping_keys_segments :: "string list"
  compact_db_after_load_sst :: bool
  rocksdb_replicator_port :: u16
  s3_direct_io :: bool
  max_s3_sst_loading_concurrency :: int
  s3_download_limit_mb :: int
  kafka_ts_update_interval :: int
  kafka_consumer_timeout_ms :: int
  enable_checkpoint_backup :: bool
  checkpoint_backup_batch_num_upload :: int
  checkpoint_backup_batch_num_download :: int
  kafka_flags :: kafka_stats_flags

record db_meta_data =
  meta_db_name :: string
  meta_s3_bucket :: "string option"
  meta_s3_path :: "string option"
  meta_last_kafka_msg_timestamp_ms :: "int option"

text \<open>The S3 client is built for a rate limit and a bucket. A backup goes through one of two \<open>Env\<close>s.\<close>

type_synonym s3_client = "u32 \<times> string"

datatype backup_env = HdfsEnv string | S3Env string string s3_client

record backup_options =
  backup_dir :: string
  max_background_operations :: int
  rate_limit :: u64
  backup_env_of :: backup_env

record ('db, 'fs, 'opts) admin_env =
  env_setFromIpPort :: "string \<Rightarrow> u16 \<Rightarrow> string option"
  env_ToString :: "rdb_status \<Rightarrow> string"
  env_rocksdb_options :: "string \<Rightarrow> 'opts"
  env_meta_options :: 'opts
  env_Open :: "'fs \<Rightarrow> string list \<Rightarrow> 'opts \<Rightarrow> string \<Rightarrow> rdb_status \<times> 'db \<times> 'fs"
  env_Close :: "'fs \<Rightarrow> string \<Rightarrow> 'db \<Rightarrow> 'fs"
  env_DestroyDB :: "'fs \<Rightarrow> string list \<Rightarrow> 'opts \<Rightarrow> string \<Rightarrow> rdb_status \<times> 'fs"
  env_Get :: "'db \<Rightarrow> string \<Rightarrow> rdb_status \<times> string"
  env_Put :: "'db \<Rightarrow> string \<Rightarrow> string \<Rightarrow> rdb_status \<times> 'db"
  env_Delete :: "'db \<Rightarrow> string \<Rightarrow> rdb_status \<times> 'db"
  env_Merge :: "'db \<Rightarrow> string \<Rightarrow> string \<Rightarrow> rdb_status \<times> 'db"
  env_SetOptions :: "'db \<Rightarrow> (string \<rightharpoonup> string) \<Rightarrow> rdb_status \<times> 'db"
  env_CompactRange :: "'db \<Rightarrow> rdb_status \<times> 'db"
  env_WAL_ttl_seconds :: "'db \<Rightarrow> u64"
  env_IngestExternalFile :: "'fs \<Rightarrow> 'db \<Rightarrow> string list \<Rightarrow> bool \<Rightarrow> rdb_status \<times> 'db \<times> 'fs"
  env_NewHdfsEnv :: "string \<Rightarrow> rdb_status"
  env_BackupEngine_Open :: "'fs \<Rightarrow> backup_options \<Rightarrow> rdb_status \<times> 'fs"
  env_CreateNewBackup :: "'fs \<Rightarrow> backup_options \<Rightarrow> 'db \<Rightarrow> rdb_status \<times> 'fs"
  env_RestoreDBFromLatestBackup :: "'fs \<Rightarrow> backup_options \<Rightarrow> string \<Rightarrow> rdb_status \<times> 'fs"
  env_Checkpoint_Create :: "'db \<Rightarrow> rdb_status"
  env_CreateCheckpoint :: "'fs \<Rightarrow> 'db \<Rightarrow> string \<Rightarrow> rdb_status \<times> 'fs"
  env_GetChildren :: "'fs \<Rightarrow> string \<Rightarrow> rdb_status \<times> string list"
  env_remove_all :: "'fs \<Rightarrow> string \<Rightarrow> bool \<times> 'fs"
  env_create_directories :: "'fs \<Rightarrow> string \<Rightarrow> bool \<times> 'fs"
  env_directory_iterator :: "'fs \<Rightarrow> string \<Rightarrow> string list option"
  env_putObject :: "s3_client \<Rightarrow> string \<Rightarrow> string \<Rightarrow> 'fs \<Rightarrow> string \<times> 'fs"
  env_getObject :: "s3_client \<Rightarrow> string \<Rightarrow> string \<Rightarrow> bool \<Rightarrow> 'fs \<Rightarrow> string \<times> 'fs"
  env_listAllObjects :: "s3_client \<Rightarrow> string \<Rightarrow> 'fs \<Rightarrow> string \<times> string list"
  env_getObjects :: "s3_client \<Rightarrow> string \<Rightarrow> string \<Rightarrow> string \<Rightarrow> bool \<Rightarrow> 'fs \<Rightarrow> (string \<times> (bool \<times> string) list) \<times> 'fs"
  env_serialize_meta :: "db_meta_data \<Rightarrow> string"
  env_deserialize_meta :: "string \<Rightarrow> db_meta_data"
  env_decode_payload :: "string \<Rightarrow> (int \<times> string option) option"
  env_to_int :: "string \<Rightarrow> int option"
  env_local_ip :: string
  env_broker_list :: "string \<Rightarrow> string"

section \<open>The state\<close>

text \<open>
  RocksDB objects live at pointers: \<open>db_heap\<close> is their content, \<open>opened\<close> the live ones with the path each was
  opened at. \<open>db_admin_lock_\<close> is not part of the state: a handler runs as one step for its database, which is
  what the lock provides (\<open>Object_Lock\<close>).
\<close>

record kafka_watcher =
  kw_name :: string
  kw_consumer_type :: string
  kw_group_id :: string
  kw_brokers :: string
  kw_topic :: string
  kw_partition :: int
  kw_timeout_ms :: int
  kw_replay_timestamp_ms :: int
  kw_db :: nat
  kw_segment :: string
  kw_should_deserialize :: bool
  kw_message_count :: int
  kw_thread :: bool
  kw_err_count :: u64

record ('db, 'it, 'fs) admin_handler =
  db_manager :: manager
  the_replicator :: "'it replicator"
  db_heap :: "nat \<Rightarrow> 'db"
  opened :: "(nat \<times> string) list"
  next_ptr :: nat
  outside :: 'fs
  meta_db :: nat
  s3_util :: "s3_client option"
  num_current_s3_sst_downloadings :: int
  num_current_s3_sst_uploadings :: int
  kafka_watcher_map :: "string \<rightharpoonup> kafka_watcher"
  stats :: "stat_event list"

text \<open>
  What one run of a handler observes: reference counts in its waiting loops, the clock, the elapsed time, the content
  of an uninitialised variable, and what the Kafka consumer it starts or the watcher it stops goes through.
\<close>

record observed =
  obs_use_counts :: "nat list"
  obs_owners :: "nat list"
  obs_s3_use_counts :: "nat list"
  obs_now :: nat
  obs_elapsed_ms :: int
  obs_junk :: u64
  obs_consumer :: consumer_view
  obs_message_now_ms :: "kafka_message \<Rightarrow> int"
  obs_watch_events :: "watch_event list"
  obs_cycle_end :: "int option"

definition incr_stat :: "string \<Rightarrow> ('db, 'it, 'fs) admin_handler \<Rightarrow> ('db, 'it, 'fs) admin_handler" where
  "incr_stat name w = w\<lparr>stats := stats w @ [Incr name 1]\<rparr>"

definition on_failure ::
  "string \<Rightarrow> 'a reply \<times> ('db, 'it, 'fs) admin_handler \<Rightarrow> 'a reply \<times> ('db, 'it, 'fs) admin_handler" where
  "on_failure name rw = (case fst rw of Exception _ \<Rightarrow> (fst rw, incr_stat name (snd rw)) | _ \<Rightarrow> rw)"

definition timed :: "string \<Rightarrow> int \<Rightarrow> 'a reply \<times> ('db, 'it, 'fs) admin_handler \<Rightarrow> 'a reply \<times> ('db, 'it, 'fs) admin_handler" where
  "timed name ms = scope_exit (\<lambda>w. w\<lparr>stats := stats w @ [AddMetric name ms]\<rparr>)"

section \<open>Pointers to databases\<close>

definition DB_Open ::
  "('db, 'fs, 'opts) admin_env \<Rightarrow> 'opts \<Rightarrow> string \<Rightarrow> ('db, 'it, 'fs) admin_handler \<Rightarrow>
   (rdb_status + nat) \<times> ('db, 'it, 'fs) admin_handler" where
  "DB_Open env options path w =
    (let (status, db, fs) = env_Open env (outside w) (map snd (opened w)) options path;
         w = w\<lparr>outside := fs\<rparr>;
         p = next_ptr w
     in if status_ok status
        then (Inr p, w\<lparr>db_heap := (db_heap w)(p := db), opened := (p, path) # opened w, next_ptr := p + 1\<rparr>)
        else (Inl status, w))"

definition delete_db ::
  "('db, 'fs, 'opts) admin_env \<Rightarrow> nat \<Rightarrow> ('db, 'it, 'fs) admin_handler \<Rightarrow> ('db, 'it, 'fs) admin_handler" where
  "delete_db env p w =
    (case map_of (opened w) p of
       None \<Rightarrow> w
     | Some path \<Rightarrow> w\<lparr>outside := env_Close env (outside w) path (db_heap w p), opened := filter (\<lambda>(q, _). q \<noteq> p) (opened w)\<rparr>)"

definition DestroyDB ::
  "('db, 'fs, 'opts) admin_env \<Rightarrow> string \<Rightarrow> 'opts \<Rightarrow> ('db, 'it, 'fs) admin_handler \<Rightarrow> rdb_status \<times> ('db, 'it, 'fs) admin_handler" where
  "DestroyDB env path options w =
    (let (status, fs) = env_DestroyDB env (outside w) (map snd (opened w)) options path in (status, w\<lparr>outside := fs\<rparr>))"

text \<open>\<open>GetRocksdb\<close>: a null pointer on failure.\<close>

definition GetRocksdb ::
  "('db, 'fs, 'opts) admin_env \<Rightarrow> string \<Rightarrow> 'opts \<Rightarrow> ('db, 'it, 'fs) admin_handler \<Rightarrow> nat option \<times> ('db, 'it, 'fs) admin_handler" where
  "GetRocksdb env dir options w =
    (case DB_Open env options dir w of (Inl _, w) \<Rightarrow> (None, w) | (Inr p, w) \<Rightarrow> (Some p, w))"

text \<open>
  \<open>db_manager_->addDB\<close> as all handlers call it: a refusal is answered with \<open>DB_ADMIN_ERROR\<close> and the
  \<open>unique_ptr\<close> argument deletes the database; when the constructor throws, the pointer was already released.
\<close>

definition manager_addDB ::
  "replicator_flags \<Rightarrow> ('db, 'it, 'wb, 'raw) rocksdb_api \<Rightarrow> ('db, 'fs, 'opts) admin_env \<Rightarrow> string \<Rightarrow> nat \<Rightarrow> db_role \<Rightarrow>
   string option \<Rightarrow> ('db, 'it, 'fs) admin_handler \<Rightarrow> unit reply \<times> ('db, 'it, 'fs) admin_handler" where
  "manager_addDB fl api env db_name p role upstream_addr w =
    (case Manager_addDB fl api (db_heap w) db_name p role upstream_addr (db_manager w) (the_replicator w) of
       None \<Rightarrow> (Aborted, w)
     | Some (out, m, r) \<Rightarrow>
         let w = w\<lparr>db_manager := m, the_replicator := r\<rparr> in
         (case out of
            AddTrue \<Rightarrow> (Result (), w)
          | AddFalse err_msg \<Rightarrow> (Exception (admin_error DB_ADMIN_ERROR err_msg), delete_db env p w)
          | AddThrows code \<Rightarrow> (Thrown (ThrownCode code), w)))"

section \<open>Helpers of the handlers\<close>

definition OKOrSetException :: "('db, 'fs, 'opts) admin_env \<Rightarrow> rdb_status \<Rightarrow> admin_error_code \<Rightarrow> admin_exception option" where
  "OKOrSetException env status code =
    (if status_ok status then None else Some (admin_error code (env_ToString env status)))"

definition SetAddressOrException ::
  "('db, 'fs, 'opts) admin_env \<Rightarrow> string \<Rightarrow> u16 \<Rightarrow> admin_exception + string" where
  "SetAddressOrException env ip port =
    (case env_setFromIpPort env ip port of
       Some addr \<Rightarrow> Inr addr
     | None \<Rightarrow> Inl (admin_error INVALID_UPSTREAM
         (''Invalid ip:port '' @ takeWhile (\<lambda>c. c \<noteq> CHR 0x00) ip @ '':'' @ show_nat (unat port))))"

definition AdminHandler_getDB :: "string \<Rightarrow> ('db, 'it, 'fs) admin_handler \<Rightarrow> admin_exception + application_db" where
  "AdminHandler_getDB db_name w =
    (case Manager_getDB db_name (db_manager w) of
       Inl err_msg \<Rightarrow> Inl (admin_error ADMIN_DB_NOT_FOUND err_msg) | Inr app \<Rightarrow> Inr app)"

definition AdminHandler_removeDB ::
  "observed \<Rightarrow> string \<Rightarrow> ('db, 'it, 'fs) admin_handler \<Rightarrow> nat reply \<times> ('db, 'it, 'fs) admin_handler" where
  "AdminHandler_removeDB obs db_name w =
    (let (res, m, r) = Manager_removeDB db_name (obs_use_counts obs) (obs_owners obs) (db_manager w) (the_replicator w);
         w = w\<lparr>db_manager := m, the_replicator := r\<rparr>
     in case res of
          None \<Rightarrow> (Waiting, w)
        | Some (Inl err_msg) \<Rightarrow> (Exception (admin_error ADMIN_DB_NOT_FOUND err_msg), w)
        | Some (Inr p) \<Rightarrow> (Result p, w))"

text \<open>\<open>removeDB(db_name, nullptr)\<close> as a statement: the error is ignored, the returned database is deleted.\<close>

definition discard_db ::
  "('db, 'fs, 'opts) admin_env \<Rightarrow> observed \<Rightarrow> string \<Rightarrow> ('db, 'it, 'fs) admin_handler \<Rightarrow>
   unit reply \<times> ('db, 'it, 'fs) admin_handler" where
  "discard_db env obs db_name w =
    (case AdminHandler_removeDB obs db_name w of
       (Exception _, w) \<Rightarrow> (Result (), w)
     | rw \<Rightarrow> and_then rw (\<lambda>p w. (Result (), delete_db env p w)))"

definition getMetaData :: "('db, 'fs, 'opts) admin_env \<Rightarrow> string \<Rightarrow> ('db, 'it, 'fs) admin_handler \<Rightarrow> db_meta_data" where
  "getMetaData env db_name w =
    (case env_Get env (db_heap w (meta_db w)) db_name of
       (s, buffer) \<Rightarrow>
         if status_ok s then env_deserialize_meta env buffer
         else \<lparr>meta_db_name = db_name, meta_s3_bucket = None, meta_s3_path = None, meta_last_kafka_msg_timestamp_ms = None\<rparr>)"

definition clearMetaData ::
  "('db, 'fs, 'opts) admin_env \<Rightarrow> string \<Rightarrow> ('db, 'it, 'fs) admin_handler \<Rightarrow> bool \<times> ('db, 'it, 'fs) admin_handler" where
  "clearMetaData env db_name w =
    (let (s, db) = env_Delete env (db_heap w (meta_db w)) db_name
     in (status_ok s, w\<lparr>db_heap := (db_heap w)(meta_db w := db)\<rparr>))"

definition writeMetaData ::
  "('db, 'fs, 'opts) admin_env \<Rightarrow> string \<Rightarrow> string \<Rightarrow> string \<Rightarrow> int \<Rightarrow> ('db, 'it, 'fs) admin_handler \<Rightarrow>
   bool \<times> ('db, 'it, 'fs) admin_handler" where
  "writeMetaData env db_name s3_bucket s3_path last_kafka_msg_timestamp_ms w =
    (let meta = \<lparr>meta_db_name = db_name, meta_s3_bucket = Some s3_bucket, meta_s3_path = Some s3_path,
                 meta_last_kafka_msg_timestamp_ms = Some last_kafka_msg_timestamp_ms\<rparr>;
         (s, db) = env_Put env (db_heap w (meta_db w)) db_name (env_serialize_meta env meta)
     in (status_ok s, w\<lparr>db_heap := (db_heap w)(meta_db w := db)\<rparr>))"

end
