(* ===== verification/Admin_Handler.thy ===== *)
theory Admin_Handler
  imports Admin_State
begin

text \<open>
  The handlers of the admin service, \<open>rocksdb_admin/admin_handler.cpp\<close>, one definition each, in the order of the
  code. A handler yields its \<open>reply\<close> and the new state.
\<close>

section \<open>addDB\<close>

record add_db_request =
  add_db_name :: string
  add_upstream_ip :: string
  add_overwrite :: bool
  add_db_role :: "string option"

definition requested_role :: "string option \<Rightarrow> db_role option" where
  "requested_role db_role =
    (case db_role of
       None \<Rightarrow> Some SLAVE
     | Some s \<Rightarrow> if s = ''SLAVE'' then Some SLAVE else if s = ''NOOP'' then Some NOOP else None)"

definition async_tm_addDB ::
  "admin_flags \<Rightarrow> replicator_flags \<Rightarrow> ('db, 'it, 'wb, 'raw) rocksdb_api \<Rightarrow> ('db, 'fs, 'opts) admin_env \<Rightarrow> add_db_request \<Rightarrow>
   ('db, 'it, 'fs) admin_handler \<Rightarrow> unit reply \<times> ('db, 'it, 'fs) admin_handler" where
  "async_tm_addDB af fl api env request w =
    (case AdminHandler_getDB (add_db_name request) w of
       Inr _ \<Rightarrow> (Exception (admin_error DB_EXIST ''Db already exists''), w)
     | Inl _ \<Rightarrow>
    (case SetAddressOrException env (add_upstream_ip request) (rocksdb_replicator_port af) of
       Inl e \<Rightarrow> (Exception e, w)
     | Inr upstream_addr \<Rightarrow>
    let segment = DbNameToSegment (add_db_name request);
        db_path = rocksdb_dir af @ add_db_name request;
        (status, w) =
          (if add_overwrite request
           then DestroyDB env db_path (env_rocksdb_options env segment) (snd (clearMetaData env (add_db_name request) w))
           else (StOk, w))
    in case OKOrSetException env status DB_ADMIN_ERROR of
         Some e \<Rightarrow> (Exception e, w)
       | None \<Rightarrow>
    (case DB_Open env (env_rocksdb_options env segment) db_path w of
       (Inl status, w) \<Rightarrow> (Exception (admin_error DB_ERROR (env_ToString env status)), w)
     | (Inr rocksdb_db, w) \<Rightarrow>
    (case requested_role (add_db_role request) of
       None \<Rightarrow> (Exception (admin_error INVALID_DB_ROLE (the (add_db_role request))), w)
     | Some role \<Rightarrow> manager_addDB fl api env (add_db_name request) rocksdb_db role (Some upstream_addr) w))))"

definition async_tm_ping :: "('db, 'it, 'fs) admin_handler \<Rightarrow> unit reply \<times> ('db, 'it, 'fs) admin_handler" where
  "async_tm_ping w = (Result (), w)"

section \<open>Backup and restore through a BackupEngine\<close>

text \<open>\<open>kMB\<close> is an \<open>int\<close>; the product with a \<open>uint32_t\<close> is taken in 32 bits before it is widened.\<close>

definition rate_limit_bytes :: "bool \<Rightarrow> u32 \<Rightarrow> u64" where
  "rate_limit_bytes enable_rate_limit limit = (if enable_rate_limit \<and> limit > 0 then ucast (limit * 1048576) else 0)"

definition engine_options :: "admin_flags \<Rightarrow> string \<Rightarrow> backup_env \<Rightarrow> bool \<Rightarrow> u32 \<Rightarrow> backup_options" where
  "engine_options af dir benv enable_rate_limit limit =
    \<lparr>backup_dir = dir, max_background_operations = num_hdfs_access_threads af,
     rate_limit = rate_limit_bytes enable_rate_limit limit, backup_env_of = benv\<rparr>"

text \<open>The result is \<open>true\<close>, or \<open>false\<close> with the exception as the caller raises it.\<close>

definition backupDBHelper ::
  "admin_flags \<Rightarrow> ('db, 'fs, 'opts) admin_env \<Rightarrow> string \<Rightarrow> string \<Rightarrow> backup_env \<Rightarrow> bool \<Rightarrow> u32 \<Rightarrow>
   ('db, 'it, 'fs) admin_handler \<Rightarrow> unit reply \<times> ('db, 'it, 'fs) admin_handler" where
  "backupDBHelper af env db_name dir benv enable_backup_rate_limit backup_rate_limit w =
    (case AdminHandler_getDB db_name w of
       Inl e \<Rightarrow> (Exception e, w)
     | Inr db \<Rightarrow>
         let options = engine_options af dir benv enable_backup_rate_limit backup_rate_limit;
             (status, fs) = env_BackupEngine_Open env (outside w) options;
             w = w\<lparr>outside := fs\<rparr>
         in case OKOrSetException env status DB_ADMIN_ERROR of
              Some e \<Rightarrow> (Exception e, w)
            | None \<Rightarrow>
                let (status, fs) = env_CreateNewBackup env (outside w) options (db_heap w (app_db db));
                    w = w\<lparr>outside := fs\<rparr>
                in if status_ok status then (Result (), w) else (Exception default_exception, w))"

definition restoreDBHelper ::
  "admin_flags \<Rightarrow> replicator_flags \<Rightarrow> ('db, 'it, 'wb, 'raw) rocksdb_api \<Rightarrow> ('db, 'fs, 'opts) admin_env \<Rightarrow> string \<Rightarrow> string \<Rightarrow>
   backup_env \<Rightarrow> string \<Rightarrow> bool \<Rightarrow> u32 \<Rightarrow> ('db, 'it, 'fs) admin_handler \<Rightarrow> unit reply \<times> ('db, 'it, 'fs) admin_handler" where
  "restoreDBHelper af fl api env db_name dir benv upstream_addr enable_restore_rate_limit restore_rate_limit w =
    (case Manager_getDB db_name (db_manager w) of
       Inr _ \<Rightarrow> (Exception (admin_error DB_EXIST ''Could not restore an opened DB, close it first''), w)
     | Inl _ \<Rightarrow>
         let options = engine_options af dir benv enable_restore_rate_limit restore_rate_limit;
             (status, fs) = env_BackupEngine_Open env (outside w) options;
             w = w\<lparr>outside := fs\<rparr>
         in case OKOrSetException env status DB_ADMIN_ERROR of
              Some e \<Rightarrow> (Exception e, w)
            | None \<Rightarrow>
                let db_path = rocksdb_dir af @ db_name;
                    (status, fs) = env_RestoreDBFromLatestBackup env (outside w) options db_path;
                    w = w\<lparr>outside := fs\<rparr>
                in case OKOrSetException env status DB_ADMIN_ERROR of
                     Some e \<Rightarrow> (Exception e, w)
                   | None \<Rightarrow>
                       (case DB_Open env (env_rocksdb_options env (DbNameToSegment db_name)) db_path w of
                          (Inl status, w) \<Rightarrow> (Exception (admin_error DB_ERROR (env_ToString env status)), w)
                        | (Inr rocksdb_db, w) \<Rightarrow> manager_addDB fl api env db_name rocksdb_db SLAVE (Some upstream_addr) w))"

record backup_request =
  bk_db_name :: string
  bk_hdfs_dir :: string
  bk_limit_mbs :: "u32 option"

definition limit_of :: "u32 option \<Rightarrow> u32" where
  "limit_of l = (case l of None \<Rightarrow> 0 | Some v \<Rightarrow> v)"

definition async_tm_backupDB ::
  "admin_flags \<Rightarrow> ('db, 'fs, 'opts) admin_env \<Rightarrow> observed \<Rightarrow> backup_request \<Rightarrow> ('db, 'it, 'fs) admin_handler \<Rightarrow>
   unit reply \<times> ('db, 'it, 'fs) admin_handler" where
  "async_tm_backupDB af env obs request w =
    (let full_path = hdfs_name_node af @ bk_hdfs_dir request
     in case OKOrSetException env (env_NewHdfsEnv env full_path) DB_ADMIN_ERROR of
          Some e \<Rightarrow> (Exception e, incr_stat ''hdfs_backup_failure'' w)
        | None \<Rightarrow>
            timed ''hdfs_backup_ms'' (obs_elapsed_ms obs)
              (and_then (on_failure ''hdfs_backup_failure''
                 (backupDBHelper af env (bk_db_name request) full_path (HdfsEnv full_path)
                    (bk_limit_mbs request \<noteq> None) (limit_of (bk_limit_mbs request)) w))
               (\<lambda>_ w. (Result (), incr_stat ''hdfs_backup_success'' w))))"

record restore_request =
  rs_db_name :: string
  rs_hdfs_dir :: string
  rs_upstream_ip :: string
  rs_upstream_port :: u16
  rs_limit_mbs :: "u32 option"

definition async_tm_restoreDB ::
  "admin_flags \<Rightarrow> replicator_flags \<Rightarrow> ('db, 'it, 'wb, 'raw) rocksdb_api \<Rightarrow> ('db, 'fs, 'opts) admin_env \<Rightarrow> observed \<Rightarrow>
   restore_request \<Rightarrow> ('db, 'it, 'fs) admin_handler \<Rightarrow> unit reply \<times> ('db, 'it, 'fs) admin_handler" where
  "async_tm_restoreDB af fl api env obs request w =
    (case SetAddressOrException env (rs_upstream_ip request) (rocksdb_replicator_port af) of
       Inl e \<Rightarrow> (Exception e, incr_stat ''hdfs_restore_failure'' w)
     | Inr upstream_addr \<Rightarrow>
         let full_path = hdfs_name_node af @ rs_hdfs_dir request
         in case OKOrSetException env (env_NewHdfsEnv env full_path) DB_ADMIN_ERROR of
              Some e \<Rightarrow> (Exception e, incr_stat ''hdfs_restore_failure'' w)
            | None \<Rightarrow>
                timed ''hdfs_restore_ms'' (obs_elapsed_ms obs)
                  (and_then (on_failure ''hdfs_restore_failure''
                     (restoreDBHelper af fl api env (rs_db_name request) full_path (HdfsEnv full_path) upstream_addr
                        (rs_limit_mbs request \<noteq> None) (limit_of (rs_limit_mbs request)) w))
                   (\<lambda>_ w. (Result (), incr_stat ''hdfs_restore_success'' w))))"

section \<open>S3\<close>

text \<open>
  The S3 client is kept while the rate limit and the bucket stay the same; another one waits until nobody else
  uses the old one (\<open>None\<close> while it still waits after the use counts seen).
\<close>

definition should_new_s3_client :: "s3_client \<Rightarrow> u32 \<Rightarrow> string \<Rightarrow> bool" where
  "should_new_s3_client util limit_mb bucket \<longleftrightarrow> snd util \<noteq> bucket \<or> fst util \<noteq> limit_mb"

fun s3_util_drained :: "nat list \<Rightarrow> bool" where
  "s3_util_drained [] = False"
| "s3_util_drained (use_count # rest) = (if use_count > 1 then s3_util_drained rest else True)"

definition createLocalS3Util ::
  "observed \<Rightarrow> u32 \<Rightarrow> string \<Rightarrow> ('db, 'it, 'fs) admin_handler \<Rightarrow> s3_client reply \<times> ('db, 'it, 'fs) admin_handler" where
  "createLocalS3Util obs read_ratelimit_mb bucket w =
    (case s3_util w of
       None \<Rightarrow> (Result (read_ratelimit_mb, bucket), w\<lparr>s3_util := Some (read_ratelimit_mb, bucket)\<rparr>)
     | Some util \<Rightarrow>
         if should_new_s3_client util read_ratelimit_mb bucket
         then if s3_util_drained (obs_s3_use_counts obs)
              then (Result (read_ratelimit_mb, bucket), w\<lparr>s3_util := Some (read_ratelimit_mb, bucket)\<rparr>)
              else (Waiting, w)
         else (Result util, w))"

definition rtrim :: "string \<Rightarrow> char \<Rightarrow> string" where
  "rtrim str c = (if length str > 0 \<and> last str = c then butlast str else str)"

definition ensure_ends_with_pathsep :: "string \<Rightarrow> string" where
  "ensure_ends_with_pathsep s = (if s \<noteq> [] \<and> last s \<noteq> CHR ''/'' then s @ ''/'' else s)"

text \<open>Distribution of files over batches, round robin by index, and the transfer of one batch up to the first error.\<close>

definition is_dot_dir :: "string \<Rightarrow> bool" where
  "is_dot_dir file \<longleftrightarrow> file = ''.'' \<or> file = ''..''"

definition file_batches :: "(string \<Rightarrow> bool) \<Rightarrow> nat \<Rightarrow> string list \<Rightarrow> string list list" where
  "file_batches skip n files =
    fold (\<lambda>i batches. if skip (files ! i) then batches
                       else batches[i mod n := batches ! (i mod n) @ [files ! i]])
      [0..<length files] (replicate n [])"

fun transfer_files :: "(string \<Rightarrow> bool) \<Rightarrow> (string \<Rightarrow> 'fs \<Rightarrow> string \<times> 'fs) \<Rightarrow> string list \<Rightarrow> 'fs \<Rightarrow> bool \<times> 'fs" where
  "transfer_files skip copy [] fs = (True, fs)"
| "transfer_files skip copy (file # files) fs =
    (if skip file then transfer_files skip copy files fs
     else let (error, fs) = copy file fs in if error \<noteq> [] then (False, fs) else transfer_files skip copy files fs)"

text \<open>
  The batches run on an executor; here they run one after the other, and all of them, since a failed one does not
  stop the others. The results are looked at afterwards.
\<close>

fun transfer_batches :: "(string \<Rightarrow> 'fs \<Rightarrow> string \<times> 'fs) \<Rightarrow> string list list \<Rightarrow> 'fs \<Rightarrow> bool list \<times> 'fs" where
  "transfer_batches copy [] fs = ([], fs)"
| "transfer_batches copy (files # batches) fs =
    (let (res, fs) = transfer_files (\<lambda>_. False) copy files fs;
         (rest, fs) = transfer_batches copy batches fs
     in (res # rest, fs))"

definition transfer_all ::
  "(string \<Rightarrow> bool) \<Rightarrow> int \<Rightarrow> (string \<Rightarrow> 'fs \<Rightarrow> string \<times> 'fs) \<Rightarrow> string list \<Rightarrow> 'fs \<Rightarrow> bool \<times> 'fs" where
  "transfer_all skip batch_num copy files fs =
    (if batch_num > 1
     then let (results, fs) = transfer_batches copy (file_batches skip (nat batch_num) files) fs
          in (list_all (\<lambda>res. res) results, fs)
     else transfer_files skip copy files fs)"

text \<open>Preparing a scratch directory: it is removed and created, and the two error codes are looked at together.\<close>

definition fresh_directory ::
  "('db, 'fs, 'opts) admin_env \<Rightarrow> string \<Rightarrow> ('db, 'it, 'fs) admin_handler \<Rightarrow> bool \<times> ('db, 'it, 'fs) admin_handler" where
  "fresh_directory env local_path w =
    (let (remove_err, fs) = env_remove_all env (outside w) local_path;
         (create_err, fs) = env_create_directories env fs local_path
     in (\<not> (remove_err \<or> create_err), w\<lparr>outside := fs\<rparr>))"

definition remove_directory ::
  "('db, 'fs, 'opts) admin_env \<Rightarrow> string \<Rightarrow> ('db, 'it, 'fs) admin_handler \<Rightarrow> ('db, 'it, 'fs) admin_handler" where
  "remove_directory env local_path w = w\<lparr>outside := snd (env_remove_all env (outside w) local_path)\<rparr>"

definition s3_tmp_path :: "admin_flags \<Rightarrow> string \<Rightarrow> nat \<Rightarrow> string" where
  "s3_tmp_path af db_name ts =
    takeWhile (\<lambda>c. c \<noteq> CHR 0x00) (rocksdb_dir af) @ ''s3_tmp/'' @ takeWhile (\<lambda>c. c \<noteq> CHR 0x00) db_name @ show_nat ts @ ''/''"

definition limit_error :: "string \<Rightarrow> int \<Rightarrow> string \<Rightarrow> admin_exception" where
  "limit_error what n db_name =
    admin_error DB_ADMIN_ERROR (''Concurrent '' @ what @ '' limit hits '' @ show_padded 0 n @ '' by '' @
      takeWhile (\<lambda>c. c \<noteq> CHR 0x00) db_name)"

record s3_backup_request =
  sb_db_name :: string
  sb_s3_bucket :: string
  sb_s3_backup_dir :: string
  sb_limit_mbs :: "u32 option"

text \<open>The branch of \<open>backupDBToS3\<close> that uploads a checkpoint.\<close>

definition checkpoint_to_s3 ::
  "admin_flags \<Rightarrow> ('db, 'fs, 'opts) admin_env \<Rightarrow> observed \<Rightarrow> s3_backup_request \<Rightarrow> string \<Rightarrow> ('db, 'it, 'fs) admin_handler \<Rightarrow>
   unit reply \<times> ('db, 'it, 'fs) admin_handler" where
  "checkpoint_to_s3 af env obs request local_path w =
    (case AdminHandler_getDB (sb_db_name request) w of
       Inl e \<Rightarrow> (Exception e, w)
     | Inr db \<Rightarrow>
    (case OKOrSetException env (env_Checkpoint_Create env (db_heap w (app_db db))) DB_ADMIN_ERROR of
       Some e \<Rightarrow> (Exception e, w)
     | None \<Rightarrow>
    let checkpoint_local_path = local_path @ ''checkpoint'';
        (status, fs) = env_CreateCheckpoint env (outside w) (db_heap w (app_db db)) checkpoint_local_path;
        w = w\<lparr>outside := fs\<rparr>
    in case OKOrSetException env status DB_ADMIN_ERROR of
         Some e \<Rightarrow> (Exception e, w)
       | None \<Rightarrow>
    let (status, checkpoint_files) = env_GetChildren env (outside w) checkpoint_local_path
    in case OKOrSetException env status DB_ADMIN_ERROR of
         Some e \<Rightarrow> (Exception e, w)
       | None \<Rightarrow>
    and_then (createLocalS3Util obs (limit_of (sb_limit_mbs request)) (sb_s3_bucket request) w)
      (\<lambda>util w.
        let formatted_s3_dir_path = ensure_ends_with_pathsep (sb_s3_backup_dir request);
            formatted_checkpoint_local_path = ensure_ends_with_pathsep checkpoint_local_path;
            upload_func = (\<lambda>file. env_putObject env util (formatted_s3_dir_path @ file) (formatted_checkpoint_local_path @ file));
            (uploaded, fs) =
              transfer_all is_dot_dir (checkpoint_backup_batch_num_upload af) upload_func checkpoint_files (outside w);
            w = w\<lparr>outside := fs\<rparr>
        in if \<not> uploaded
           then (Exception (admin_error DB_ADMIN_ERROR ''Error happened when uploading files from checkpoint to S3''), w)
           else let (err, fs) = env_remove_all env (outside w) local_path; w = w\<lparr>outside := fs\<rparr>
                in if err then (Thrown FilesystemError, w) else (Result (), w))))"

definition async_tm_backupDBToS3 ::
  "admin_flags \<Rightarrow> ('db, 'fs, 'opts) admin_env \<Rightarrow> observed \<Rightarrow> s3_backup_request \<Rightarrow> ('db, 'it, 'fs) admin_handler \<Rightarrow>
   unit reply \<times> ('db, 'it, 'fs) admin_handler" where
  "async_tm_backupDBToS3 af env obs request w =
    (let n = num_current_s3_sst_uploadings w;
         w = w\<lparr>num_current_s3_sst_uploadings := n + 1\<rparr>
     in scope_exit (\<lambda>w. w\<lparr>num_current_s3_sst_uploadings := num_current_s3_sst_uploadings w - 1\<rparr>)
    (if n \<ge> max_s3_sst_loading_concurrency af
     then (Exception (limit_error ''uploading/downloading'' n (sb_db_name request)), incr_stat ''s3_backup_failure'' w)
     else timed ''s3_backup_ms'' (obs_elapsed_ms obs)
    (let local_path = s3_tmp_path af (sb_db_name request) (obs_now obs);
         (dir_ok, w) = fresh_directory env local_path w
     in scope_exit (remove_directory env local_path)
    (and_then
      (on_failure ''s3_backup_failure''
        (if \<not> dir_ok
         then (Exception (admin_error DB_ADMIN_ERROR (''Cannot remove/create dir for backup: '' @ local_path)), w)
         else if enable_checkpoint_backup af then checkpoint_to_s3 af env obs request local_path w
         else
           and_then (createLocalS3Util obs (limit_of (sb_limit_mbs request)) (sb_s3_bucket request) w)
             (\<lambda>util w.
               let formatted_s3_dir_path = rtrim (sb_s3_backup_dir request) CHR ''/''
               in backupDBHelper af env (sb_db_name request) formatted_s3_dir_path
                    (S3Env formatted_s3_dir_path local_path util)
                    (sb_limit_mbs request \<noteq> None) (limit_of (sb_limit_mbs request)) w)))
      (\<lambda>_ w. (Result (), incr_stat ''s3_backup_success'' w))))))"

record s3_restore_request =
  sr_db_name :: string
  sr_s3_bucket :: string
  sr_s3_backup_dir :: string
  sr_upstream_ip :: string
  sr_limit_mbs :: "u32 option"

text \<open>The branch of \<open>restoreDBFromS3\<close> that downloads a checkpoint into the directory of the database.\<close>

definition checkpoint_from_s3 ::
  "admin_flags \<Rightarrow> replicator_flags \<Rightarrow> ('db, 'it, 'wb, 'raw) rocksdb_api \<Rightarrow> ('db, 'fs, 'opts) admin_env \<Rightarrow> s3_client \<Rightarrow>
   s3_restore_request \<Rightarrow> string \<Rightarrow> string \<Rightarrow> ('db, 'it, 'fs) admin_handler \<Rightarrow> unit reply \<times> ('db, 'it, 'fs) admin_handler" where
  "checkpoint_from_s3 af fl api env util request local_path upstream_addr w =
    (let formatted_s3_dir_path = ensure_ends_with_pathsep (sr_s3_backup_dir request);
         formatted_local_path = ensure_ends_with_pathsep local_path;
         (error, objects) = env_listAllObjects env util formatted_s3_dir_path (outside w)
     in if error \<noteq> []
        then (Exception (admin_error DB_ADMIN_ERROR
               (''Error happened when fetching files in checkpoint from S3: '' @ takeWhile (\<lambda>c. c \<noteq> CHR 0x00) error @
                '' under path: '' @ takeWhile (\<lambda>c. c \<noteq> CHR 0x00) formatted_s3_dir_path)), w)
        else
    let download_func = (\<lambda>s3_path. env_getObject env util s3_path
          (formatted_local_path @ drop (length formatted_s3_dir_path) s3_path) (s3_direct_io af));
        (downloaded, fs) =
          transfer_all (\<lambda>_. False) (checkpoint_backup_batch_num_download af) download_func objects (outside w);
        w = w\<lparr>outside := fs\<rparr>
    in if \<not> downloaded
       then (Exception (admin_error DB_ADMIN_ERROR
              ''Error happened when downloading the file in checkpoint from S3 to local''), w)
       else
    (case DB_Open env (env_rocksdb_options env (DbNameToSegment (sr_db_name request))) formatted_local_path w of
       (Inl status, w) \<Rightarrow> (Exception (admin_error DB_ERROR (env_ToString env status)), w)
     | (Inr restore_db, w) \<Rightarrow> manager_addDB fl api env (sr_db_name request) restore_db SLAVE (Some upstream_addr) w))"

definition async_tm_restoreDBFromS3 ::
  "admin_flags \<Rightarrow> replicator_flags \<Rightarrow> ('db, 'it, 'wb, 'raw) rocksdb_api \<Rightarrow> ('db, 'fs, 'opts) admin_env \<Rightarrow> observed \<Rightarrow>
   s3_restore_request \<Rightarrow> ('db, 'it, 'fs) admin_handler \<Rightarrow> unit reply \<times> ('db, 'it, 'fs) admin_handler" where
  "async_tm_restoreDBFromS3 af fl api env obs request w =
    (let n = num_current_s3_sst_downloadings w;
         w = w\<lparr>num_current_s3_sst_downloadings := n + 1\<rparr>
     in scope_exit (\<lambda>w. w\<lparr>num_current_s3_sst_downloadings := num_current_s3_sst_downloadings w - 1\<rparr>)
    (if n \<ge> max_s3_sst_loading_concurrency af
     then (Exception (limit_error ''uploading/downloading'' n (sr_db_name request)), incr_stat ''s3_restore_failure'' w)
     else
       let local_path = (if enable_checkpoint_backup af then rocksdb_dir af @ sr_db_name request
                         else s3_tmp_path af (sr_db_name request) (obs_now obs));
           (dir_ok, w) = fresh_directory env local_path w
       in scope_exit (\<lambda>w. if enable_checkpoint_backup af then w else remove_directory env local_path w)
    (if \<not> dir_ok
     then (Exception (admin_error DB_ADMIN_ERROR (''Cannot remove/create dir for restore: '' @ local_path)),
           incr_stat ''s3_restore_failure'' w)
     else
    (case SetAddressOrException env (sr_upstream_ip request) (rocksdb_replicator_port af) of
       Inl e \<Rightarrow> (Exception e, incr_stat ''s3_restore_failure'' w)
     | Inr upstream_addr \<Rightarrow>
    timed ''s3_restore_ms'' (obs_elapsed_ms obs)
    (and_then
      (on_failure ''s3_restore_failure''
        (and_then (createLocalS3Util obs (limit_of (sr_limit_mbs request)) (sr_s3_bucket request) w)
          (\<lambda>util w.
            if enable_checkpoint_backup af
            then checkpoint_from_s3 af fl api env util request local_path upstream_addr w
            else
              let formatted_s3_dir_path = rtrim (sr_s3_backup_dir request) CHR ''/''
              in restoreDBHelper af fl api env (sr_db_name request) formatted_s3_dir_path
                   (S3Env formatted_s3_dir_path local_path util) upstream_addr
                   (sr_limit_mbs request \<noteq> None) (limit_of (sr_limit_mbs request)) w)))
      (\<lambda>_ w. (Result (), incr_stat ''s3_restore_success'' w)))))))"

section \<open>Looking at, closing and changing databases\<close>

record check_db_response =
  cr_seq_num :: u64
  cr_wal_ttl_seconds :: u64
  cr_last_update_timestamp_ms :: u64
  cr_is_master :: bool

definition async_tm_checkDB ::
  "('db, 'it, 'wb, 'raw) rocksdb_api \<Rightarrow> ('db, 'fs, 'opts) admin_env \<Rightarrow> observed \<Rightarrow> string \<Rightarrow> ('db, 'it, 'fs) admin_handler \<Rightarrow>
   check_db_response reply \<times> ('db, 'it, 'fs) admin_handler" where
  "async_tm_checkDB api env obs db_name w =
    (case AdminHandler_getDB db_name w of
       Inl e \<Rightarrow> (Exception e, w)
     | Inr db \<Rightarrow>
         let rocksdb = db_heap w (app_db db);
             response = \<lparr>cr_seq_num = db_GetLatestSequenceNumber api rocksdb,
               cr_wal_ttl_seconds = env_WAL_ttl_seconds env rocksdb, cr_last_update_timestamp_ms = 0,
               cr_is_master = (\<not> ApplicationDB_IsSlave db)\<rparr>
         in if cr_seq_num response = 0 then (Result response, w)
            else
              (case db_GetUpdatesSince api rocksdb (cr_seq_num response) of
                 (status, Some iter) \<Rightarrow>
                   if status_ok status \<and> it_Valid api iter
                   then let (status, blobs) = wb_Iterate api (it_GetBatch api iter)
                        in case LogExtractor_LogData (obs_junk obs) blobs of
                             None \<Rightarrow> (Aborted, w)
                           | Some ms \<Rightarrow>
                               if status_ok status then (Result (response\<lparr>cr_last_update_timestamp_ms := ms\<rparr>), w)
                               else (Result response, w)
                   else (Result response, w)
               | (_, None) \<Rightarrow> (Result response, w)))"

definition async_tm_closeDB ::
  "('db, 'fs, 'opts) admin_env \<Rightarrow> observed \<Rightarrow> string \<Rightarrow> ('db, 'it, 'fs) admin_handler \<Rightarrow>
   unit reply \<times> ('db, 'it, 'fs) admin_handler" where
  "async_tm_closeDB env obs db_name w =
    and_then (AdminHandler_removeDB obs db_name w) (\<lambda>p w. (Result (), delete_db env p w))"

record change_role_request =
  cg_db_name :: string
  cg_new_role :: string
  cg_upstream_ip :: "string option"
  cg_upstream_port :: "u16 option"

definition async_tm_changeDBRoleAndUpStream ::
  "admin_flags \<Rightarrow> replicator_flags \<Rightarrow> ('db, 'it, 'wb, 'raw) rocksdb_api \<Rightarrow> ('db, 'fs, 'opts) admin_env \<Rightarrow> observed \<Rightarrow>
   change_role_request \<Rightarrow> ('db, 'it, 'fs) admin_handler \<Rightarrow> unit reply \<times> ('db, 'it, 'fs) admin_handler" where
  "async_tm_changeDBRoleAndUpStream af fl api env obs request w =
    (let proceed = (\<lambda>new_role.
       case (if new_role = SLAVE \<and> cg_upstream_ip request \<noteq> None \<and> cg_upstream_port request \<noteq> None
             then map_sum id Some (SetAddressOrException env (the (cg_upstream_ip request)) (rocksdb_replicator_port af))
             else Inr None) of
         Inl e \<Rightarrow> (Exception e, w)
       | Inr upstream_addr \<Rightarrow>
           and_then (AdminHandler_removeDB obs (cg_db_name request) w)
             (\<lambda>db w. manager_addDB fl api env (cg_db_name request) db new_role upstream_addr w))
     in if cg_new_role request = ''MASTER'' then proceed MASTER
        else if cg_new_role request = ''SLAVE'' then proceed SLAVE
        else (Exception (admin_error INVALID_DB_ROLE (cg_new_role request)), w))"

definition async_tm_getSequenceNumber ::
  "('db, 'it, 'wb, 'raw) rocksdb_api \<Rightarrow> string \<Rightarrow> ('db, 'it, 'fs) admin_handler \<Rightarrow> u64 reply \<times> ('db, 'it, 'fs) admin_handler" where
  "async_tm_getSequenceNumber api db_name w =
    (case AdminHandler_getDB db_name w of
       Inl e \<Rightarrow> (Exception e, w)
     | Inr db \<Rightarrow> (Result (db_GetLatestSequenceNumber api (db_heap w (app_db db))), w))"

text \<open>The role a database is reopened with.\<close>

definition reopen_role :: "application_db \<Rightarrow> db_role" where
  "reopen_role db = (if ApplicationDB_IsSlave db then SLAVE else MASTER)"

definition async_tm_clearDB ::
  "admin_flags \<Rightarrow> replicator_flags \<Rightarrow> ('db, 'it, 'wb, 'raw) rocksdb_api \<Rightarrow> ('db, 'fs, 'opts) admin_env \<Rightarrow> observed \<Rightarrow>
   string \<Rightarrow> bool \<Rightarrow> ('db, 'it, 'fs) admin_handler \<Rightarrow> unit reply \<times> ('db, 'it, 'fs) admin_handler" where
  "async_tm_clearDB af fl api env obs db_name reopen_db w =
    (let reopen = (case AdminHandler_getDB db_name w of
           Inl _ \<Rightarrow> None | Inr db \<Rightarrow> Some (reopen_role db, app_upstream db))
     in and_then (discard_db env obs db_name w)
    (\<lambda>_ w.
      let options = env_rocksdb_options env (DbNameToSegment db_name);
          db_path = rocksdb_dir af @ db_name;
          (_, w) = clearMetaData env db_name w;
          (status, w) = DestroyDB env db_path options w
      in case OKOrSetException env status DB_ADMIN_ERROR of
           Some e \<Rightarrow> (Exception e, w)
         | None \<Rightarrow>
             (case (if reopen_db then reopen else None) of
                None \<Rightarrow> (Result (), w)
              | Some (db_role, upstream_addr) \<Rightarrow>
                  (case GetRocksdb env db_path options w of
                     (None, w) \<Rightarrow> (Exception (admin_error DB_ADMIN_ERROR (''Failed to open DB: '' @ db_name)), w)
                   | (Some db, w) \<Rightarrow> manager_addDB fl api env db_name db db_role upstream_addr w))))"

definition async_tm_setDBOptions ::
  "('db, 'fs, 'opts) admin_env \<Rightarrow> string \<Rightarrow> (string \<times> string) list \<Rightarrow> ('db, 'it, 'fs) admin_handler \<Rightarrow>
   unit reply \<times> ('db, 'it, 'fs) admin_handler" where
  "async_tm_setDBOptions env db_name options w =
    (case AdminHandler_getDB db_name w of
       Inl e \<Rightarrow> (Exception e, w)
     | Inr db \<Rightarrow>
         let (status, rocksdb) = env_SetOptions env (db_heap w (app_db db)) (map_of options);
             w = w\<lparr>db_heap := (db_heap w)(app_db db := rocksdb)\<rparr>
         in case OKOrSetException env status DB_ADMIN_ERROR of Some e \<Rightarrow> (Exception e, w) | None \<Rightarrow> (Result (), w))"

definition async_tm_compactDB ::
  "('db, 'fs, 'opts) admin_env \<Rightarrow> observed \<Rightarrow> string \<Rightarrow> ('db, 'it, 'fs) admin_handler \<Rightarrow>
   unit reply \<times> ('db, 'it, 'fs) admin_handler" where
  "async_tm_compactDB env obs db_name w =
    (case AdminHandler_getDB db_name w of
       Inl e \<Rightarrow> (Exception e, w)
     | Inr db \<Rightarrow>
         let (status, heap, evs) = ApplicationDB_CompactRange (obs_elapsed_ms obs) (env_CompactRange env) db (db_heap w);
             w = w\<lparr>db_heap := heap, stats := stats w @ evs\<rparr>
         in case OKOrSetException env status DB_ERROR of Some e \<Rightarrow> (Exception e, w) | None \<Rightarrow> (Result (), w))"

section \<open>Loading SST files from S3\<close>

record add_s3_sst_request =
  ss_db_name :: string
  ss_s3_bucket :: string
  ss_s3_path :: string
  ss_download_limit_mb :: u32

text \<open>The files of the directory that are loaded: those with at least one character before the suffix.\<close>

definition is_sst_file :: "string \<Rightarrow> bool" where
  "is_sst_file file_name \<longleftrightarrow>
    \<not> (length file_name < length ''.sst'' + 1 \<or> drop (length file_name - length ''.sst'') file_name \<noteq> ''.sst'')"

definition already_hosting :: "db_meta_data \<Rightarrow> add_s3_sst_request \<Rightarrow> bool" where
  "already_hosting meta request \<longleftrightarrow>
    meta_s3_bucket meta = Some (ss_s3_bucket request) \<and> meta_s3_path meta = Some (ss_s3_path request)"

text \<open>Downloading the files into the scratch directory (lines up to the listing of the directory).\<close>

definition download_sst_files ::
  "admin_flags \<Rightarrow> ('db, 'fs, 'opts) admin_env \<Rightarrow> observed \<Rightarrow> add_s3_sst_request \<Rightarrow> string \<Rightarrow> ('db, 'it, 'fs) admin_handler \<Rightarrow>
   string list reply \<times> ('db, 'it, 'fs) admin_handler" where
  "download_sst_files af env obs request local_path w =
    (let limit_mb = (if s3_download_limit_mb af > 0 then word_of_int (s3_download_limit_mb af) else ss_download_limit_mb request)
     in and_then (createLocalS3Util obs limit_mb (ss_s3_bucket request) w)
    (\<lambda>util w.
      let ((error, responses), fs) = env_getObjects env util (ss_s3_path request) local_path ''/'' (s3_direct_io af) (outside w);
          w = w\<lparr>outside := fs\<rparr>
      in if error \<noteq> [] \<or> responses = []
         then (Exception (admin_error DB_ADMIN_ERROR
                (''Failed to list any object from '' @ ss_s3_path request @ (if error \<noteq> [] then '' AWS Error: '' @ error else []))), w)
         else
           (case find (\<lambda>(body, _). \<not> body) responses of
              Some (_, response_error) \<Rightarrow> (Exception (admin_error DB_ADMIN_ERROR response_error), w)
            | None \<Rightarrow>
                (case env_directory_iterator env (outside w) local_path of
                   None \<Rightarrow> (Thrown FilesystemError, w)
                 | Some file_names \<Rightarrow> (Result (map (\<lambda>f. local_path @ f) (filter is_sst_file file_names)), w)))))"

text \<open>Without overlapping keys the database is emptied first: closed, destroyed, reopened and added again.\<close>

definition recreate_db ::
  "admin_flags \<Rightarrow> replicator_flags \<Rightarrow> ('db, 'it, 'wb, 'raw) rocksdb_api \<Rightarrow> ('db, 'fs, 'opts) admin_env \<Rightarrow> observed \<Rightarrow>
   string \<Rightarrow> application_db \<Rightarrow> ('db, 'it, 'fs) admin_handler \<Rightarrow> application_db reply \<times> ('db, 'it, 'fs) admin_handler" where
  "recreate_db af fl api env obs db_name db w =
    (let db_role = reopen_role db;
         upstream_addr = (if db_role = SLAVE then app_upstream db else None)
     in and_then (discard_db env obs db_name w)
    (\<lambda>_ w.
      let options = env_rocksdb_options env (DbNameToSegment db_name);
          db_path = rocksdb_dir af @ db_name;
          (status, w) = DestroyDB env db_path options w
      in case OKOrSetException env status DB_ADMIN_ERROR of
           Some e \<Rightarrow> (Exception e, w)
         | None \<Rightarrow>
             (case GetRocksdb env db_path options w of
                (None, w) \<Rightarrow> (Exception (admin_error DB_ADMIN_ERROR (''Failed to open DB: '' @ db_name)), w)
              | (Some rocksdb_db, w) \<Rightarrow>
                  and_then (manager_addDB fl api env db_name rocksdb_db db_role upstream_addr w)
                    (\<lambda>_ w. case AdminHandler_getDB db_name w of
                             Inr db \<Rightarrow> (Result db, w) | Inl _ \<Rightarrow> (Aborted, w)))))"

definition async_tm_addS3SstFilesToDB ::
  "admin_flags \<Rightarrow> replicator_flags \<Rightarrow> ('db, 'it, 'wb, 'raw) rocksdb_api \<Rightarrow> ('db, 'fs, 'opts) admin_env \<Rightarrow> observed \<Rightarrow>
   add_s3_sst_request \<Rightarrow> ('db, 'it, 'fs) admin_handler \<Rightarrow> unit reply \<times> ('db, 'it, 'fs) admin_handler" where
  "async_tm_addS3SstFilesToDB af fl api env obs request w =
    (case AdminHandler_getDB (ss_db_name request) w of
       Inl _ \<Rightarrow> (Exception (admin_error DB_ADMIN_ERROR (ss_db_name request @ '' doesnt exist.'')), w)
     | Inr db \<Rightarrow>
    if already_hosting (getMetaData env (ss_db_name request) w) request then (Result (), w)
    else
    let n = num_current_s3_sst_downloadings w;
        w = w\<lparr>num_current_s3_sst_downloadings := n + 1\<rparr>
    in scope_exit (\<lambda>w. w\<lparr>num_current_s3_sst_downloadings := num_current_s3_sst_downloadings w - 1\<rparr>)
    (if n \<ge> max_s3_sst_loading_concurrency af
     then (Exception (limit_error ''downloading'' n (ss_db_name request)), w)
     else
    let local_path = rocksdb_dir af @ ''s3_tmp/'' @ ss_db_name request @ ''/'';
        (dir_ok, w) = fresh_directory env local_path w
    in scope_exit (remove_directory env local_path)
    (if \<not> dir_ok then (Exception (admin_error DB_ADMIN_ERROR (''Cannot remove/create dir: '' @ local_path)), w)
     else and_then (download_sst_files af env obs request local_path w)
    (\<lambda>sst_file_paths w.
      let (_, w) = clearMetaData env (ss_db_name request) w;
          segment = DbNameToSegment (ss_db_name request);
          allow_overlapping_keys =
            segment \<in> set (allow_overlapping_keys_segments af) \<or> rocksdb_allow_overlapping_keys af
      in and_then (if \<not> allow_overlapping_keys then recreate_db af fl api env obs (ss_db_name request) db w
                   else (Result db, w))
    (\<lambda>db w.
      let (status, rocksdb, fs) =
            env_IngestExternalFile env (outside w) (db_heap w (app_db db)) sst_file_paths allow_overlapping_keys;
          w = w\<lparr>db_heap := (db_heap w)(app_db db := rocksdb), outside := fs\<rparr>
      in case OKOrSetException env status DB_ADMIN_ERROR of
           Some e \<Rightarrow> (Exception e, w)
         | None \<Rightarrow>
             let (_, w) = writeMetaData env (ss_db_name request) (ss_s3_bucket request) (ss_s3_path request) (-1) w
             in if compact_db_after_load_sst af
                then let (_, rocksdb) = env_CompactRange env (db_heap w (app_db db))
                     in (Result (), w\<lparr>db_heap := (db_heap w)(app_db db := rocksdb)\<rparr>)
                else (Result (), w))))))"

section \<open>Kafka ingestion\<close>

text \<open>\<open>DeserializeKafkaPayload\<close>: the operation code and the value, the empty string when it is not set.\<close>

definition DeserializeKafkaPayload :: "('db, 'fs, 'opts) admin_env \<Rightarrow> string \<Rightarrow> (int \<times> string) option" where
  "DeserializeKafkaPayload env payload =
    map_option (\<lambda>(op_code, val). (op_code, case val of None \<Rightarrow> [] | Some v \<Rightarrow> v)) (env_decode_payload env payload)"

definition segment_stat :: "string \<Rightarrow> string \<Rightarrow> string" where
  "segment_stat name segment = name @ '' segment='' @ takeWhile (\<lambda>c. c \<noteq> CHR 0x00) segment"

definition bump :: "string \<Rightarrow> string \<Rightarrow> ('db, 'it, 'fs) admin_handler \<Rightarrow> ('db, 'it, 'fs) admin_handler" where
  "bump name segment w = incr_stat (segment_stat name segment) w"

text \<open>One of the three operations on the database, with its counters.\<close>

definition kafka_write ::
  "string \<Rightarrow> string \<Rightarrow> string \<Rightarrow> nat \<Rightarrow> ('db \<Rightarrow> rdb_status \<times> 'db) \<Rightarrow> ('db, 'it, 'fs) admin_handler \<Rightarrow> ('db, 'it, 'fs) admin_handler" where
  "kafka_write msg_stat err_stat segment p wr w =
    (let w = bump msg_stat segment w;
         (status, db) = wr (db_heap w p);
         w = w\<lparr>db_heap := (db_heap w)(p := db)\<rparr>
     in if status_ok status then w else bump err_stat segment w)"

definition kafka_apply ::
  "('db, 'fs, 'opts) admin_env \<Rightarrow> string \<Rightarrow> nat \<Rightarrow> int \<Rightarrow> string \<Rightarrow> string \<Rightarrow> ('db, 'it, 'fs) admin_handler \<Rightarrow> ('db, 'it, 'fs) admin_handler" where
  "kafka_apply env segment p op_code key val w =
    (if op_code = 1
     then kafka_write ''kafka_put_msg_consumed'' ''kafka_db_put_errors'' segment p (\<lambda>db. env_Put env db key val) w
     else if op_code = 2
     then kafka_write ''kafka_del_msg_consumed'' ''kafka_db_delete_errors'' segment p (\<lambda>db. env_Delete env db key) w
     else if op_code = 3
     then kafka_write ''kafka_merge_msg_consumed'' ''kafka_db_merge_errors'' segment p (\<lambda>db. env_Merge env db key val) w
     else bump ''kafka_invalid_opcode'' segment w)"

text \<open>The message handler of \<open>startMessageIngestion\<close>; its state is its message counter and the state of the service.\<close>

definition kafka_handler ::
  "admin_flags \<Rightarrow> ('db, 'fs, 'opts) admin_env \<Rightarrow> (kafka_message \<Rightarrow> int) \<Rightarrow> string \<Rightarrow> nat \<Rightarrow> string \<Rightarrow> bool \<Rightarrow> kafka_message \<Rightarrow> bool \<Rightarrow>
   int \<times> ('db, 'it, 'fs) admin_handler \<Rightarrow> int \<times> ('db, 'it, 'fs) admin_handler" where
  "kafka_handler af env now_ms db_name p segment should_deserialize m is_replay s =
    (let (message_count, w) = s;
         message_count = message_count + 1;
         w = (if is_replay then w
              else w\<lparr>stats := stats w @ [AddMetric (segment_stat ''kafka_consumer_latency'' segment) (now_ms m - msg_timestamp m)]\<rparr>)
     in case (if should_deserialize then DeserializeKafkaPayload env (msg_payload m) else Some (1, msg_payload m)) of
          None \<Rightarrow> (message_count, incr_stat ''kafka_deser_failure'' w)
        | Some (op_code, val) \<Rightarrow>
            let w = kafka_apply env segment p op_code (msg_key m) val w
            in if message_count mod kafka_ts_update_interval af = 0
               then let meta = getMetaData env db_name w;
                        (_, w) = writeMetaData env db_name (case meta_s3_bucket meta of None \<Rightarrow> [] | Some b \<Rightarrow> b)
                          (case meta_s3_path meta of None \<Rightarrow> [] | Some q \<Rightarrow> q) (msg_timestamp m) w
                    in (message_count, w)
               else (message_count, w))"

definition watcher_config_of ::
  "admin_flags \<Rightarrow> ('db, 'fs, 'opts) admin_env \<Rightarrow> (kafka_message \<Rightarrow> int) \<Rightarrow> string \<Rightarrow> kafka_watcher \<Rightarrow>
   (int \<times> ('db, 'it, 'fs) admin_handler) watcher_config" where
  "watcher_config_of af env now_ms db_name kw =
    \<lparr>wc_flags = kafka_flags af, wc_name = kw_name kw, wc_init_blocking_consume_timeout_ms = -1, wc_loop_cycle_limit_ms = 10000,
     wc_handler = kafka_handler af env now_ms db_name (kw_db kw) (kw_segment kw) (kw_should_deserialize kw)\<rparr>"

text \<open>The watcher of an entry of \<open>kafka_watcher_map_\<close>, running on a state, and the entry after a run.\<close>

definition watcher_of :: "kafka_watcher \<Rightarrow> ('db, 'it, 'fs) admin_handler \<Rightarrow> (int \<times> ('db, 'it, 'fs) admin_handler) watcher" where
  "watcher_of kw w = \<lparr>ws_handler_state = (kw_message_count kw, w), ws_err_count = kw_err_count kw, ws_thread = kw_thread kw, ws_stats = []\<rparr>"

definition store_watcher ::
  "string \<Rightarrow> kafka_watcher \<Rightarrow> (int \<times> ('db, 'it, 'fs) admin_handler) watcher \<Rightarrow> ('db, 'it, 'fs) admin_handler" where
  "store_watcher db_name kw ws =
    (let (n, w) = ws_handler_state ws
     in w\<lparr>kafka_watcher_map := (kafka_watcher_map w)(db_name \<mapsto>
            kw\<lparr>kw_message_count := n, kw_thread := ws_thread ws, kw_err_count := ws_err_count ws\<rparr>),
          stats := stats w @ ws_stats ws\<rparr>)"

record start_ingestion_request =
  si_db_name :: string
  si_topic_name :: string
  si_serverset_path :: string
  si_replay_timestamp_ms :: int
  si_is_kafka_payload_serialized :: bool

definition async_tm_startMessageIngestion ::
  "admin_flags \<Rightarrow> ('db, 'fs, 'opts) admin_env \<Rightarrow> observed \<Rightarrow> start_ingestion_request \<Rightarrow> ('db, 'it, 'fs) admin_handler \<Rightarrow>
   unit reply \<times> ('db, 'it, 'fs) admin_handler" where
  "async_tm_startMessageIngestion af env obs request w =
    (let db_name = si_db_name request
     in case AdminHandler_getDB db_name w of
          Inl e \<Rightarrow> (Exception (e\<lparr>message := db_name @ '' doesn'' @ [CHR 0x27] @ ''t exist.''\<rparr>), w)
        | Inr db \<Rightarrow>
    let meta_ts = (case meta_last_kafka_msg_timestamp_ms (getMetaData env db_name w) of None \<Rightarrow> 0 | Some ts \<Rightarrow> ts);
        replay_timestamp_ms = max meta_ts (si_replay_timestamp_ms request)
    in if kafka_watcher_map w db_name \<noteq> None
       then (Exception (admin_error DB_ADMIN_ERROR (db_name @ '' is already being consumed'')), w)
       else
    let segment = DbNameToSegment db_name;
        partition_id = ExtractShardId (env_to_int env) db_name
    in if partition_id = -1 then (Exception (admin_error DB_ADMIN_ERROR (''Invalid db_name: '' @ db_name)), w)
       else
    let kw = \<lparr>kw_name = ''rocksplicator_watcher_'' @ takeWhile (\<lambda>c. c \<noteq> CHR 0x00) segment,
              kw_consumer_type = ''rocksplicator_consumer_'' @ takeWhile (\<lambda>c. c \<noteq> CHR 0x00) segment,
              kw_group_id = env_local_ip env @ ''_'' @ db_name,
              kw_brokers = env_broker_list env (si_serverset_path request),
              kw_topic = si_topic_name request, kw_partition = partition_id,
              kw_timeout_ms = kafka_consumer_timeout_ms af, kw_replay_timestamp_ms = replay_timestamp_ms,
              kw_db = app_db db, kw_segment = segment,
              kw_should_deserialize = si_is_kafka_payload_serialized request,
              kw_message_count = 0, kw_thread = False, kw_err_count = 0\<rparr>;
        w = w\<lparr>kafka_watcher_map := (kafka_watcher_map w)(db_name \<mapsto> kw)\<rparr>
    in case KafkaWatcher_Start (watcher_config_of af env (obs_message_now_ms obs) db_name kw) (obs_elapsed_ms obs)
              replay_timestamp_ms [obs_consumer obs] (watcher_of kw w) of
         None \<Rightarrow> (Waiting, w)
       | Some ws \<Rightarrow> (Result (), store_watcher db_name kw ws))"

text \<open>What the thread of a watcher does between two requests.\<close>

definition kafka_thread ::
  "admin_flags \<Rightarrow> ('db, 'fs, 'opts) admin_env \<Rightarrow> observed \<Rightarrow> string \<Rightarrow> ('db, 'it, 'fs) admin_handler \<Rightarrow> ('db, 'it, 'fs) admin_handler" where
  "kafka_thread af env obs db_name w =
    (case kafka_watcher_map w db_name of
       None \<Rightarrow> w
     | Some kw \<Rightarrow>
         if kw_thread kw
         then store_watcher db_name kw
           (snd (StartWatchLoop (watcher_config_of af env (obs_message_now_ms obs) db_name kw) (obs_watch_events obs)
              (obs_cycle_end obs) (watcher_of kw w)))
         else w)"

definition async_tm_stopMessageIngestion ::
  "admin_flags \<Rightarrow> ('db, 'fs, 'opts) admin_env \<Rightarrow> observed \<Rightarrow> string \<Rightarrow> ('db, 'it, 'fs) admin_handler \<Rightarrow>
   unit reply \<times> ('db, 'it, 'fs) admin_handler" where
  "async_tm_stopMessageIngestion af env obs db_name w =
    (case AdminHandler_getDB db_name w of
       Inl e \<Rightarrow> (Exception (e\<lparr>message := db_name @ '' doesn'' @ [CHR 0x27] @ ''t exist.''\<rparr>), w)
     | Inr _ \<Rightarrow>
    (case kafka_watcher_map w db_name of
       None \<Rightarrow> (Exception (admin_error DB_ADMIN_ERROR (db_name @ '' is not being consumed'')), w)
     | Some kw \<Rightarrow>
    (case StopAndWait (watcher_config_of af env (obs_message_now_ms obs) db_name kw) (obs_watch_events obs) (obs_cycle_end obs)
            (watcher_of kw w) of
       None \<Rightarrow> (Waiting, w)
     | Some ws \<Rightarrow>
         let w = store_watcher db_name kw ws
         in (Result (), w\<lparr>kafka_watcher_map := (kafka_watcher_map w)(db_name := None)\<rparr>))))"

section \<open>The service\<close>

text \<open>
  The constructor, with the manager and the replicator it is given: \<open>None\<close> is a failed \<open>CHECK\<close>. The upload
  counter is not initialised, so it starts with an arbitrary value.
\<close>

definition OpenMetaDB ::
  "admin_flags \<Rightarrow> ('db, 'fs, 'opts) admin_env \<Rightarrow> ('db, 'it, 'fs) admin_handler \<Rightarrow> (nat \<times> ('db, 'it, 'fs) admin_handler) option" where
  "OpenMetaDB af env w =
    (case DB_Open env (env_meta_options env) (rocksdb_dir af @ ''meta_db'') w of
       (Inl _, _) \<Rightarrow> None | (Inr p, w) \<Rightarrow> Some (p, w))"

definition AdminHandler_ctor ::
  "admin_flags \<Rightarrow> ('db, 'fs, 'opts) admin_env \<Rightarrow> int \<Rightarrow> ('db, 'it, 'fs) admin_handler \<Rightarrow> ('db, 'it, 'fs) admin_handler option" where
  "AdminHandler_ctor af env uninitialised w =
    (case OpenMetaDB af env w of
       None \<Rightarrow> None
     | Some (p, w) \<Rightarrow>
         if max_s3_sst_loading_concurrency af > 0
         then Some (w\<lparr>meta_db := p, s3_util := None, num_current_s3_sst_downloadings := 0,
                num_current_s3_sst_uploadings := uninitialised, kafka_watcher_map := Map.empty\<rparr>)
         else None)"

datatype admin_request =
  Ping | AddDB add_db_request | BackupDB backup_request | RestoreDB restore_request
| BackupDBToS3 s3_backup_request | RestoreDBFromS3 s3_restore_request | CheckDB string | CloseDB string
| ChangeDBRoleAndUpStream change_role_request | GetSequenceNumber string | ClearDB string bool
| AddS3SstFilesToDB add_s3_sst_request | StartMessageIngestion start_ingestion_request | StopMessageIngestion string
| SetDBOptions string "(string \<times> string) list" | CompactDB string

datatype admin_response = Done | CheckDBResponse check_db_response | SequenceNumber u64

definition respond :: "('a \<Rightarrow> admin_response) \<Rightarrow> 'a reply \<times> 'w \<Rightarrow> admin_response reply \<times> 'w" where
  "respond f rw = and_then rw (\<lambda>x w. (Result (f x), w))"

fun AdminHandler_process ::
  "admin_flags \<Rightarrow> replicator_flags \<Rightarrow> ('db, 'it, 'wb, 'raw) rocksdb_api \<Rightarrow> ('db, 'fs, 'opts) admin_env \<Rightarrow> observed \<Rightarrow>
   admin_request \<Rightarrow> ('db, 'it, 'fs) admin_handler \<Rightarrow> admin_response reply \<times> ('db, 'it, 'fs) admin_handler" where
  "AdminHandler_process af fl api env obs Ping w = respond (\<lambda>_. Done) (async_tm_ping w)"
| "AdminHandler_process af fl api env obs (AddDB q) w = respond (\<lambda>_. Done) (async_tm_addDB af fl api env q w)"
| "AdminHandler_process af fl api env obs (BackupDB q) w = respond (\<lambda>_. Done) (async_tm_backupDB af env obs q w)"
| "AdminHandler_process af fl api env obs (RestoreDB q) w = respond (\<lambda>_. Done) (async_tm_restoreDB af fl api env obs q w)"
| "AdminHandler_process af fl api env obs (BackupDBToS3 q) w = respond (\<lambda>_. Done) (async_tm_backupDBToS3 af env obs q w)"
| "AdminHandler_process af fl api env obs (RestoreDBFromS3 q) w =
     respond (\<lambda>_. Done) (async_tm_restoreDBFromS3 af fl api env obs q w)"
| "AdminHandler_process af fl api env obs (CheckDB name) w = respond CheckDBResponse (async_tm_checkDB api env obs name w)"
| "AdminHandler_process af fl api env obs (CloseDB name) w = respond (\<lambda>_. Done) (async_tm_closeDB env obs name w)"
| "AdminHandler_process af fl api env obs (ChangeDBRoleAndUpStream q) w =
     respond (\<lambda>_. Done) (async_tm_changeDBRoleAndUpStream af fl api env obs q w)"
| "AdminHandler_process af fl api env obs (GetSequenceNumber name) w =
     respond SequenceNumber (async_tm_getSequenceNumber api name w)"
| "AdminHandler_process af fl api env obs (ClearDB name reopen) w =
     respond (\<lambda>_. Done) (async_tm_clearDB af fl api env obs name reopen w)"
| "AdminHandler_process af fl api env obs (AddS3SstFilesToDB q) w =
     respond (\<lambda>_. Done) (async_tm_addS3SstFilesToDB af fl api env obs q w)"
| "AdminHandler_process af fl api env obs (StartMessageIngestion q) w =
     respond (\<lambda>_. Done) (async_tm_startMessageIngestion af env obs q w)"
| "AdminHandler_process af fl api env obs (StopMessageIngestion name) w =
     respond (\<lambda>_. Done) (async_tm_stopMessageIngestion af env obs name w)"
| "AdminHandler_process af fl api env obs (SetDBOptions name options) w =
     respond (\<lambda>_. Done) (async_tm_setDBOptions env name options w)"
| "AdminHandler_process af fl api env obs (CompactDB name) w = respond (\<lambda>_. Done) (async_tm_compactDB env obs name w)"

end
