(* ===== verification/Admin_Safety.thy ===== *)
theory Admin_Safety
  imports Admin_Handler
begin

text \<open>
  The invariant of the admin service and the behaviour of its handlers: which pointers the service may use, that
  every request keeps this, that counters are given back, and what each handler does on success and on failure.
\<close>

section \<open>The invariant\<close>

text \<open>
  The manager and the replicator agree; every managed database is an open RocksDB object of its own, none of them
  the meta database.
\<close>

definition pointers_ok :: "manager \<Rightarrow> (nat \<times> string) list \<Rightarrow> nat \<Rightarrow> nat \<Rightarrow> bool" where
  "pointers_ok m op next meta \<longleftrightarrow>
    distinct (map fst op) \<and> (\<forall>p \<in> fst ` set op. p < next) \<and> meta \<in> fst ` set op \<and>
    distinct (map (app_db \<circ> snd) m) \<and>
    (\<forall>app \<in> snd ` set m. app_db app \<in> fst ` set op \<and> app_db app \<noteq> meta)"

definition admin_inv :: "('db, 'it, 'fs) admin_handler \<Rightarrow> bool" where
  "admin_inv w \<longleftrightarrow> service_inv (db_manager w) (the_replicator w) \<and>
     pointers_ok (db_manager w) (opened w) (next_ptr w) (meta_db w)"

text \<open>A pointer a handler owns: open, and nobody else's.\<close>

definition owned :: "nat \<Rightarrow> ('db, 'it, 'fs) admin_handler \<Rightarrow> bool" where
  "owned p w \<longleftrightarrow> p \<in> fst ` set (opened w) \<and> p \<noteq> meta_db w \<and> (\<forall>app \<in> snd ` set (db_manager w). app_db app \<noteq> p)"

lemma admin_inv_simps [simp]:
  "admin_inv (w\<lparr>outside := a\<rparr>) = admin_inv w" "admin_inv (w\<lparr>db_heap := b\<rparr>) = admin_inv w"
  "admin_inv (w\<lparr>s3_util := c\<rparr>) = admin_inv w" "admin_inv (w\<lparr>num_current_s3_sst_downloadings := d\<rparr>) = admin_inv w"
  "admin_inv (w\<lparr>num_current_s3_sst_uploadings := d\<rparr>) = admin_inv w" "admin_inv (w\<lparr>kafka_watcher_map := e\<rparr>) = admin_inv w"
  "admin_inv (w\<lparr>stats := f\<rparr>) = admin_inv w"
  by (simp_all add: admin_inv_def)

lemma owned_simps [simp]:
  "owned p (w\<lparr>outside := a\<rparr>) = owned p w" "owned p (w\<lparr>db_heap := b\<rparr>) = owned p w"
  "owned p (w\<lparr>s3_util := c\<rparr>) = owned p w" "owned p (w\<lparr>num_current_s3_sst_downloadings := d\<rparr>) = owned p w"
  "owned p (w\<lparr>num_current_s3_sst_uploadings := d\<rparr>) = owned p w" "owned p (w\<lparr>kafka_watcher_map := e\<rparr>) = owned p w"
  "owned p (w\<lparr>stats := f\<rparr>) = owned p w"
  by (simp_all add: owned_def)

text \<open>The state in which a request is served: the invariant, and the values the two counters have.\<close>

definition serving :: "int \<Rightarrow> int \<Rightarrow> ('db, 'it, 'fs) admin_handler \<Rightarrow> bool" where
  "serving d u w \<longleftrightarrow> admin_inv w \<and> num_current_s3_sst_downloadings w = d \<and> num_current_s3_sst_uploadings w = u"

lemma serving_simps [simp]:
  "serving d u (w\<lparr>outside := a\<rparr>) = serving d u w" "serving d u (w\<lparr>db_heap := b\<rparr>) = serving d u w"
  "serving d u (w\<lparr>s3_util := c\<rparr>) = serving d u w" "serving d u (w\<lparr>kafka_watcher_map := e\<rparr>) = serving d u w"
  "serving d u (w\<lparr>stats := f\<rparr>) = serving d u w" "serving d u (incr_stat name w) = serving d u w"
  by (simp_all add: serving_def incr_stat_def)

section \<open>A calculus for handlers\<close>

text \<open>
  \<open>run_ok P Q rw\<close>: the run does not abort and lets no \<open>ReturnCode\<close> escape; its state satisfies \<open>Q\<close> of the result,
  or \<open>P\<close> when it raised an exception.
\<close>

definition run_ok :: "('w \<Rightarrow> bool) \<Rightarrow> ('a \<Rightarrow> 'w \<Rightarrow> bool) \<Rightarrow> 'a reply \<times> 'w \<Rightarrow> bool" where
  "run_ok P Q rw \<longleftrightarrow>
    (case rw of
       (Result x, w) \<Rightarrow> Q x w
     | (Exception e, w) \<Rightarrow> P w
     | (Thrown (ThrownCode c), w) \<Rightarrow> False
     | (Thrown FilesystemError, w) \<Rightarrow> P w
     | (Waiting, w) \<Rightarrow> True
     | (Aborted, w) \<Rightarrow> False)"

lemma run_ok_simps [simp]:
  "run_ok P Q (Result x, w) = Q x w" "run_ok P Q (Exception e, w) = P w" "run_ok P Q (Waiting, w)"
  "run_ok P Q (Thrown c, w) = (c = FilesystemError \<and> P w)" "\<not> run_ok P Q (Aborted, w)"
  by (simp_all add: run_ok_def split: cpp_exception.split)

lemma run_ok_and_then:
  assumes "run_ok P Q rw" "\<And>x w. Q x w \<Longrightarrow> run_ok P R (k x w)"
  shows "run_ok P R (and_then rw k)"
proof (cases rw)
  case (Pair out w)
  with assms show ?thesis by (cases out) (auto simp: and_then_def)
qed

lemma run_ok_scope_exit:
  assumes "run_ok P Q rw" "\<And>w. P w \<Longrightarrow> P' (f w)" "\<And>x w. Q x w \<Longrightarrow> Q' x (f w)"
  shows "run_ok P' Q' (scope_exit f rw)"
proof (cases rw)
  case (Pair out w)
  with assms show ?thesis by (cases out) (auto simp: scope_exit_def)
qed

lemma run_ok_timed:
  assumes "run_ok (serving d u) (\<lambda>_. serving d u) rw"
  shows "run_ok (serving d u) (\<lambda>_. serving d u) (timed name ms rw)"
  unfolding timed_def by (rule run_ok_scope_exit [OF assms]) simp_all

lemma run_ok_on_failure:
  assumes "run_ok (serving d u) Q rw"
  shows "run_ok (serving d u) Q (on_failure name rw)"
proof (cases rw)
  case (Pair out w)
  with assms show ?thesis by (cases out) (auto simp: on_failure_def)
qed

lemma run_ok_respond: "run_ok P (\<lambda>_. P) rw \<Longrightarrow> run_ok P (\<lambda>_. P) (respond f rw)"
  unfolding respond_def by (erule run_ok_and_then) simp

section \<open>The operations the handlers are made of\<close>

lemma serving_DB_Open:
  assumes "DB_Open env options path w = (res, w')" "serving d u w"
  shows "serving d u w'" and "res = Inr p \<Longrightarrow> owned p w'"
proof -
  obtain status db fs where o: "env_Open env (outside w) (map snd (opened w)) options path = (status, db, fs)"
    by (metis prod_cases3)
  have inv: "pointers_ok (db_manager w) (opened w) (next_ptr w) (meta_db w)" "service_inv (db_manager w) (the_replicator w)"
    using assms(2) by (simp_all add: serving_def admin_inv_def)
  then have lt: "\<forall>p \<in> fst ` set (opened w). p < next_ptr w" unfolding pointers_ok_def by blast
  then have fresh: "next_ptr w \<notin> fst ` set (opened w)" by blast
  moreover have "meta_db w \<noteq> next_ptr w" "\<forall>app \<in> snd ` set (db_manager w). app_db app \<noteq> next_ptr w"
    using inv(1) fresh unfolding pointers_ok_def by metis+
  ultimately have own: "owned (next_ptr w) (w\<lparr>opened := (next_ptr w, path) # opened w\<rparr>)" by (simp add: owned_def)
  have "pointers_ok (db_manager w) ((next_ptr w, path) # opened w) (next_ptr w + 1) (meta_db w)"
    using inv(1) fresh lt unfolding pointers_ok_def by (auto simp: less_Suc_eq)
  with assms inv own o show "serving d u w'" "res = Inr p \<Longrightarrow> owned p w'"
    by (auto simp: DB_Open_def Let_def serving_def admin_inv_def owned_def split: if_splits)
qed

lemma serving_GetRocksdb:
  assumes "GetRocksdb env dir options w = (res, w')" "serving d u w"
  shows "serving d u w'" and "res = Some p \<Longrightarrow> owned p w'"
proof -
  obtain res1 w1 where o: "DB_Open env options dir w = (res1, w1)" by fastforce
  note ok = serving_DB_Open [OF o assms(2)]
  from o assms(1) have "w' = w1" "res = Some p \<Longrightarrow> res1 = Inr p" by (auto simp: GetRocksdb_def split: sum.splits)
  with ok show "serving d u w'" "res = Some p \<Longrightarrow> owned p w'" by blast+
qed

lemma pointers_ok_delete:
  assumes "pointers_ok m op n meta" "p \<noteq> meta" "\<forall>app \<in> snd ` set m. app_db app \<noteq> p"
  shows "pointers_ok m (filter (\<lambda>(q, _). q \<noteq> p) op) n meta"
proof -
  have fsts: "fst ` set (filter (\<lambda>(q, _). q \<noteq> p) op) = fst ` set op - {p}" by force
  have "distinct (map fst (filter (\<lambda>(q, _). q \<noteq> p) op))"
    using assms(1) by (simp add: pointers_ok_def distinct_map_filter)
  then show ?thesis using assms unfolding pointers_ok_def fsts by blast
qed

lemma serving_delete_db:
  assumes "serving d u w" "owned p w"
  shows "serving d u (delete_db env p w)"
  using assms pointers_ok_delete [of "db_manager w" "opened w" "next_ptr w" "meta_db w" p]
  by (auto simp: delete_db_def serving_def admin_inv_def owned_def split: option.split)

lemma serving_Destroy:
  assumes "DestroyDB env path options w = (st, w')" "serving d u w"
  shows "serving d u w'"
  using assms by (auto simp: DestroyDB_def split: prod.splits)

lemma serving_meta [simp]:
  "serving d u (snd (clearMetaData env name w)) = serving d u w"
  "serving d u (snd (writeMetaData env name b q ts w)) = serving d u w"
  by (auto simp: clearMetaData_def writeMetaData_def Let_def split: prod.split)

lemma serving_directory [simp]:
  "serving d u (snd (fresh_directory env path w)) = serving d u w"
  "serving d u (remove_directory env path w) = serving d u w"
  by (auto simp: fresh_directory_def remove_directory_def Let_def split: prod.split)

lemma run_ok_manager_addDB_managed:
  assumes "serving d u w" "owned p w"
  shows "run_ok (serving d u) (\<lambda>_ w'. serving d u w' \<and> (\<exists>app. map_of (db_manager w') name = Some app \<and> app_db app = p))
    (manager_addDB fl api env name p role up w)"
proof (cases "map_of (db_manager w) name")
  case None
  have inv: "service_inv (db_manager w) (the_replicator w)"
    using assms by (simp add: serving_def admin_inv_def)
  from service_inv_add [OF inv, of name fl api "db_heap w" p role up] None obtain app r' where
    a: "Manager_addDB fl api (db_heap w) name p role up (db_manager w) (the_replicator w) =
        Some (AddTrue, db_manager w @ [(name, app)], r')"
      "service_inv (db_manager w @ [(name, app)]) r'" "app_db app = p" by auto
  have "pointers_ok (db_manager w @ [(name, app)]) (opened w) (next_ptr w) (meta_db w)"
    using assms a(3) by (auto simp: serving_def admin_inv_def owned_def pointers_ok_def)
  with a assms None show ?thesis by (simp add: manager_addDB_def serving_def admin_inv_def map_add_def)
next
  case (Some app)
  have inv: "service_inv (db_manager w) (the_replicator w)"
    using assms by (simp add: serving_def admin_inv_def)
  from service_inv_add [OF inv, of name fl api "db_heap w" p role up] Some
  have "Manager_addDB fl api (db_heap w) name p role up (db_manager w) (the_replicator w) =
      Some (AddFalse (name @ '' has already been added''), db_manager w, the_replicator w)" by simp
  moreover have "w\<lparr>db_manager := db_manager w, the_replicator := the_replicator w\<rparr> = w" by simp
  ultimately show ?thesis using serving_delete_db [OF assms, of env] by (simp add: manager_addDB_def)
qed

lemma run_ok_mono:
  assumes "run_ok P Q rw" "\<And>x w. Q x w \<Longrightarrow> Q' x w"
  shows "run_ok P Q' rw"
  using assms by (cases rw, cases "fst rw") auto

lemma run_ok_manager_addDB:
  assumes "serving d u w" "owned p w"
  shows "run_ok (serving d u) (\<lambda>_. serving d u) (manager_addDB fl api env name p role up w)"
  by (rule run_ok_mono [OF run_ok_manager_addDB_managed [OF assms]]) blast

lemma distinct_map_filter_neq:
  assumes "distinct (map f xs)" "x \<in> set xs"
  shows "f x \<notin> f ` (set xs - {x})"
  using assms by (auto simp: distinct_map dest: inj_onD)

lemma run_ok_removeDB:
  assumes "serving d u w"
  shows "run_ok (serving d u) (\<lambda>p w'. serving d u w' \<and> owned p w') (AdminHandler_removeDB obs name w)"
proof -
  obtain res m r where rm: "Manager_removeDB name (obs_use_counts obs) (obs_owners obs) (db_manager w) (the_replicator w) = (res, m, r)"
    by (metis prod_cases3)
  have inv: "service_inv (db_manager w) (the_replicator w)" "pointers_ok (db_manager w) (opened w) (next_ptr w) (meta_db w)"
    using assms by (simp_all add: serving_def admin_inv_def)
  show ?thesis
  proof (cases "map_of (db_manager w) name")
    case None
    then have "res = Some (Inl (name @ '' does not exist''))" "m = db_manager w" "r = the_replicator w"
      using rm by (auto simp: Manager_removeDB_def)
    with rm assms show ?thesis by (simp add: AdminHandler_removeDB_def serving_def admin_inv_def)
  next
    case (Some app)
    obtain fin r1 where dt: "ApplicationDB_dtor (obs_owners obs) app (the_replicator w) = (fin, r1)" by fastforce
    note drop = service_inv_drop [OF inv(1) Some dt]
    have m: "m = filter (\<lambda>(k, _). k \<noteq> name) (db_manager w)" using rm Some
      by (auto simp: Manager_removeDB_def Let_def split: option.splits prod.splits)
    show ?thesis
    proof (cases res)
      case None
      with rm show ?thesis by (simp add: AdminHandler_removeDB_def)
    next
      case (Some res')
      then have res': "res' = Inr (app_db app)" "r = r1" using rm dt \<open>map_of (db_manager w) name = Some app\<close>
        by (auto simp: Manager_removeDB_def Let_def split: option.splits prod.splits if_splits)
      have mem: "(name, app) \<in> set (db_manager w)" using \<open>map_of (db_manager w) name = Some app\<close> by (rule map_of_SomeD)
      have sub: "set m \<subseteq> set (db_manager w) - {(name, app)}" by (auto simp: m)
      have "(app_db \<circ> snd) (name, app) \<notin> (app_db \<circ> snd) ` (set (db_manager w) - {(name, app)})"
        by (rule distinct_map_filter_neq [OF _ mem]) (use inv(2) in \<open>simp add: pointers_ok_def o_def\<close>)
      then have "\<forall>app' \<in> snd ` set m. app_db app' \<noteq> app_db app" using sub by force
      moreover have "pointers_ok m (opened w) (next_ptr w) (meta_db w)"
        using inv(2) by (auto simp: pointers_ok_def m distinct_map_filter)
      moreover have "app_db app \<in> fst ` set (opened w)" "app_db app \<noteq> meta_db w"
        using inv(2) mem by (force simp: pointers_ok_def)+
      moreover have "service_inv m r" using drop m res'(2) by blast
      ultimately have "serving d u (w\<lparr>db_manager := m, the_replicator := r\<rparr>)" "owned (app_db app) (w\<lparr>db_manager := m, the_replicator := r\<rparr>)"
        using assms unfolding serving_def admin_inv_def owned_def by simp_all
      then show ?thesis using rm Some res'(1) by (simp add: AdminHandler_removeDB_def)
    qed
  qed
qed

lemma run_ok_discard:
  assumes "serving d u w"
  shows "run_ok (serving d u) (\<lambda>_. serving d u) (discard_db env obs name w)"
proof -
  obtain out w' where rm: "AdminHandler_removeDB obs name w = (out, w')" by fastforce
  with run_ok_removeDB [OF assms, of obs name] show ?thesis
    by (cases out) (auto simp: discard_db_def and_then_def intro: serving_delete_db)
qed

section \<open>Every handler is safe\<close>

abbreviation safe :: "int \<Rightarrow> int \<Rightarrow> 'a reply \<times> ('db, 'it, 'fs) admin_handler \<Rightarrow> bool" where
  "safe d u \<equiv> run_ok (serving d u) (\<lambda>_. serving d u)"

lemma safe_DB_Open:
  assumes "serving d u w" "\<And>st w'. serving d u w' \<Longrightarrow> run_ok P Q (f st w')"
    and "\<And>p w'. serving d u w' \<Longrightarrow> owned p w' \<Longrightarrow> run_ok P Q (g p w')"
  shows "run_ok P Q (case DB_Open env options path w of (Inl st, w') \<Rightarrow> f st w' | (Inr p, w') \<Rightarrow> g p w')"
proof -
  obtain res w' where o: "DB_Open env options path w = (res, w')" by fastforce
  from serving_DB_Open [OF o assms(1)] assms(2,3) show ?thesis by (cases res) (auto simp: o)
qed

lemma safe_GetRocksdb:
  assumes "serving d u w" "\<And>w'. serving d u w' \<Longrightarrow> run_ok P Q (f w')"
    and "\<And>p w'. serving d u w' \<Longrightarrow> owned p w' \<Longrightarrow> run_ok P Q (g p w')"
  shows "run_ok P Q (case GetRocksdb env path options w of (None, w') \<Rightarrow> f w' | (Some p, w') \<Rightarrow> g p w')"
proof -
  obtain res w' where o: "GetRocksdb env path options w = (res, w')" by fastforce
  from serving_GetRocksdb [OF o assms(1)] assms(2,3) show ?thesis by (cases res) (auto simp: o)
qed

lemma safe_OKOrSetException:
  assumes "serving d u w" "OKOrSetException env status code = None \<Longrightarrow> run_ok (serving d u) Q rw"
  shows "run_ok (serving d u) Q (case OKOrSetException env status code of Some e \<Rightarrow> (Exception e, w) | None \<Rightarrow> rw)"
  using assms by (simp split: option.split)

lemma safe_addDB:
  assumes "serving d u w"
  shows "safe d u (async_tm_addDB af fl api env request w)"
proof -
  let ?name = "add_db_name request" and ?opts = "env_rocksdb_options env (DbNameToSegment (add_db_name request))"
  let ?path = "rocksdb_dir af @ ?name"
  obtain status w1 where d: "(if add_overwrite request then DestroyDB env ?path ?opts (snd (clearMetaData env ?name w)) else (StOk, w))
      = (status, w1)" by fastforce
  then have w1: "serving d u w1"
    using assms serving_Destroy [of env ?path ?opts "snd (clearMetaData env ?name w)" status w1] by (auto split: if_splits)
  have "safe d u (case DB_Open env ?opts ?path w1 of
       (Inl status, w) \<Rightarrow> (Exception (admin_error DB_ERROR (env_ToString env status)), w)
     | (Inr rocksdb_db, w) \<Rightarrow>
         (case requested_role (add_db_role request) of
            None \<Rightarrow> (Exception (admin_error INVALID_DB_ROLE (the (add_db_role request))), w)
          | Some role \<Rightarrow> manager_addDB fl api env ?name rocksdb_db role (Some upstream_addr) w))" for upstream_addr
    by (rule safe_DB_Open [OF w1]) (auto split: option.split intro: run_ok_manager_addDB)
  with d w1 assms show ?thesis
    by (simp add: async_tm_addDB_def Let_def split: sum.split option.split)
qed

lemma safe_backupDBHelper:
  assumes "serving d u w"
  shows "safe d u (backupDBHelper af env name dir benv enable limit w)"
  using assms by (simp add: backupDBHelper_def Let_def split: sum.split option.split prod.split)

lemma safe_restoreDBHelper:
  assumes "serving d u w"
  shows "safe d u (restoreDBHelper af fl api env name dir benv up enable limit w)"
proof -
  have "safe d u (case DB_Open env options path w' of
       (Inl status, w) \<Rightarrow> (Exception (admin_error DB_ERROR (env_ToString env status)), w)
     | (Inr rocksdb_db, w) \<Rightarrow> manager_addDB fl api env name rocksdb_db SLAVE (Some up) w)"
    if "serving d u w'" for options path w'
    by (rule safe_DB_Open [OF that]) (auto intro: run_ok_manager_addDB)
  with assms show ?thesis
    by (simp add: restoreDBHelper_def Let_def split: sum.split option.split prod.split)
qed

lemma safe_counted:
  assumes "safe d u rw"
  shows "safe d u (timed t ms (and_then (on_failure f rw) (\<lambda>_ w. (Result (), incr_stat s w))))"
  by (rule run_ok_timed, rule run_ok_and_then, rule run_ok_on_failure [OF assms]) simp

lemma safe_backupDB:
  assumes "serving d u w"
  shows "safe d u (async_tm_backupDB af env obs request w)"
  using assms by (auto simp: async_tm_backupDB_def Let_def split: option.split intro!: safe_counted safe_backupDBHelper)

lemma safe_restoreDB:
  assumes "serving d u w"
  shows "safe d u (async_tm_restoreDB af fl api env obs request w)"
  using assms by (auto simp: async_tm_restoreDB_def Let_def split: sum.split option.split intro!: safe_counted safe_restoreDBHelper)

lemma safe_createLocalS3Util:
  assumes "serving d u w"
  shows "run_ok (serving d u) (\<lambda>_. serving d u) (createLocalS3Util obs limit bucket w)"
  using assms by (simp add: createLocalS3Util_def split: option.split)

lemma safe_checkpoint_to_s3:
  assumes "serving d u w"
  shows "safe d u (checkpoint_to_s3 af env obs request path w)"
proof -
  have upload: "safe d u (and_then (createLocalS3Util obs limit bucket w') (\<lambda>util w.
      let (uploaded, fs) = transfer_all skip n (cp util) files (outside w); w = w\<lparr>outside := fs\<rparr>
      in if \<not> uploaded then (Exception e, w)
         else let (err, fs) = env_remove_all env (outside w) path; w = w\<lparr>outside := fs\<rparr>
              in if err then (Thrown FilesystemError, w) else (Result (), w)))"
    if "serving d u w'" for limit bucket w' skip n cp files e
    by (rule run_ok_and_then, rule safe_createLocalS3Util [OF that]) (simp add: Let_def split: prod.split)
  show ?thesis
    unfolding checkpoint_to_s3_def Let_def
    using assms by (auto split: sum.split option.split prod.split intro!: upload [unfolded Let_def])
qed

lemma safe_uploading:
  assumes "safe d (u + 1) rw"
  shows "safe d u (scope_exit (\<lambda>w. w\<lparr>num_current_s3_sst_uploadings := num_current_s3_sst_uploadings w - 1\<rparr>) rw)"
  by (rule run_ok_scope_exit [OF assms]) (simp_all add: serving_def)

lemma safe_downloading:
  assumes "safe (d + 1) u rw"
  shows "safe d u (scope_exit (\<lambda>w. w\<lparr>num_current_s3_sst_downloadings := num_current_s3_sst_downloadings w - 1\<rparr>) rw)"
  by (rule run_ok_scope_exit [OF assms]) (simp_all add: serving_def)

lemma safe_backupDBToS3:
  assumes "serving d u w"
  shows "safe d u (async_tm_backupDBToS3 af env obs request w)"
proof -
  let ?w = "w\<lparr>num_current_s3_sst_uploadings := num_current_s3_sst_uploadings w + 1\<rparr>"
  have w1: "serving d (u + 1) ?w" using assms by (simp add: serving_def)
  obtain dir_ok w2 where dir: "fresh_directory env path ?w = (dir_ok, w2)" if "path = s3_tmp_path af (sb_db_name request) (obs_now obs)" for path
    by (metis surj_pair)
  then have w2: "serving d (u + 1) w2"
    using serving_directory(1) [of d "u + 1" env _ ?w] w1 by (metis snd_conv)
  show ?thesis
    unfolding async_tm_backupDBToS3_def Let_def
    by (rule safe_uploading) (use w1 w2 in \<open>auto simp: dir safe_checkpoint_to_s3 safe_createLocalS3Util safe_backupDBHelper
        intro!: run_ok_timed run_ok_scope_exit [where P = "serving d (u + 1)" and Q = "\<lambda>_. serving d (u + 1)"]
        run_ok_and_then [where Q = "\<lambda>_. serving d (u + 1)"] run_ok_on_failure split: prod.split\<close>)
qed

lemma safe_checkpoint_from_s3:
  assumes "serving d u w"
  shows "safe d u (checkpoint_from_s3 af fl api env util request path up w)"
proof -
  have "safe d u (case DB_Open env options p w' of
       (Inl status, w) \<Rightarrow> (Exception (admin_error DB_ERROR (env_ToString env status)), w)
     | (Inr restore_db, w) \<Rightarrow> manager_addDB fl api env (sr_db_name request) restore_db SLAVE (Some up) w)"
    if "serving d u w'" for options p w'
    by (rule safe_DB_Open [OF that]) (auto intro: run_ok_manager_addDB)
  with assms show ?thesis
    by (auto simp: checkpoint_from_s3_def Let_def split: prod.split)
qed

lemma safe_restoreDBFromS3:
  assumes "serving d u w"
  shows "safe d u (async_tm_restoreDBFromS3 af fl api env obs request w)"
proof -
  let ?w = "w\<lparr>num_current_s3_sst_downloadings := num_current_s3_sst_downloadings w + 1\<rparr>"
  let ?path = "if enable_checkpoint_backup af then rocksdb_dir af @ sr_db_name request
    else s3_tmp_path af (sr_db_name request) (obs_now obs)"
  have w1: "serving (d + 1) u ?w" using assms by (simp add: serving_def)
  obtain dir_ok w2 where dir: "fresh_directory env ?path ?w = (dir_ok, w2)" by fastforce
  then have w2: "serving (d + 1) u w2" using serving_directory(1) [of "d + 1" u env ?path ?w] w1 by simp
  show ?thesis
    unfolding async_tm_restoreDBFromS3_def Let_def dir
    by (rule safe_downloading) (use w1 w2 in \<open>auto simp: safe_checkpoint_from_s3 safe_createLocalS3Util safe_restoreDBHelper
        intro!: run_ok_timed run_ok_scope_exit [where P = "serving (d + 1) u" and Q = "\<lambda>_. serving (d + 1) u"]
        run_ok_and_then [where Q = "\<lambda>_. serving (d + 1) u"] run_ok_on_failure split: sum.split\<close>)
qed

lemma safe_closeDB:
  assumes "serving d u w"
  shows "safe d u (async_tm_closeDB env obs name w)"
  unfolding async_tm_closeDB_def
  by (rule run_ok_and_then [OF run_ok_removeDB [OF assms]]) (simp add: serving_delete_db)

lemma safe_changeDBRole:
  assumes "serving d u w"
  shows "safe d u (async_tm_changeDBRoleAndUpStream af fl api env obs request w)"
proof -
  have "safe d u (and_then (AdminHandler_removeDB obs name w) (\<lambda>db w. manager_addDB fl api env name db role up w))" for name role up
    by (rule run_ok_and_then [OF run_ok_removeDB [OF assms]]) (simp add: run_ok_manager_addDB)
  with assms show ?thesis
    by (simp add: async_tm_changeDBRoleAndUpStream_def Let_def split: sum.split)
qed

lemma safe_getSequenceNumber: "serving d u w \<Longrightarrow> safe d u (async_tm_getSequenceNumber api name w)"
  by (simp add: async_tm_getSequenceNumber_def split: sum.split)

lemma safe_setDBOptions: "serving d u w \<Longrightarrow> safe d u (async_tm_setDBOptions env name options w)"
  by (simp add: async_tm_setDBOptions_def Let_def split: sum.split prod.split option.split)

lemma safe_compactDB: "serving d u w \<Longrightarrow> safe d u (async_tm_compactDB env obs name w)"
  by (auto simp: async_tm_compactDB_def Let_def split: sum.split prod.split option.split)

lemma safe_clearDB:
  assumes "serving d u w"
  shows "safe d u (async_tm_clearDB af fl api env obs name reopen w)"
proof -
  have reopen: "safe d u (case GetRocksdb env path options w' of
       (None, w) \<Rightarrow> (Exception e, w) | (Some db, w) \<Rightarrow> manager_addDB fl api env name db role up w)"
    if "serving d u w'" for path options w' e role up
    by (rule safe_GetRocksdb [OF that]) (auto intro: run_ok_manager_addDB)
  show ?thesis
    unfolding async_tm_clearDB_def Let_def
  proof (rule run_ok_and_then [OF run_ok_discard [OF assms]], goal_cases)
    case (1 x w')
    let ?w = "snd (clearMetaData env name w')"
    obtain st w1 where ds: "DestroyDB env (rocksdb_dir af @ name) (env_rocksdb_options env (DbNameToSegment name)) ?w = (st, w1)"
      by fastforce
    then have "serving d u w1" using serving_Destroy [OF ds] 1 by simp
    with reopen show ?case by (auto simp: ds split_beta split: option.split sum.split)
  qed
qed

lemma safe_recreate_db:
  assumes "serving d u w"
  shows "safe d u (recreate_db af fl api env obs name db w)"
proof -
  have add: "safe d u (and_then (manager_addDB fl api env name p role up w')
      (\<lambda>_ w. case AdminHandler_getDB name w of Inr db \<Rightarrow> (Result db, w) | Inl _ \<Rightarrow> (Aborted, w)))"
    if "serving d u w'" "owned p w'" for p role up w'
    by (rule run_ok_and_then [OF run_ok_manager_addDB_managed [OF that]])
      (auto simp: AdminHandler_getDB_def Manager_getDB_def)
  have reopen: "safe d u (case GetRocksdb env path options w' of
       (None, w) \<Rightarrow> (Exception e, w)
     | (Some p, w) \<Rightarrow> and_then (manager_addDB fl api env name p role up w)
         (\<lambda>_ w. case AdminHandler_getDB name w of Inr db \<Rightarrow> (Result db, w) | Inl _ \<Rightarrow> (Aborted, w)))"
    if "serving d u w'" for path options w' e role up
    by (rule safe_GetRocksdb [OF that]) (auto intro: add)
  show ?thesis
    unfolding recreate_db_def Let_def
  proof (rule run_ok_and_then [OF run_ok_discard [OF assms]], goal_cases)
    case (1 x w')
    obtain st w1 where ds: "DestroyDB env (rocksdb_dir af @ name) (env_rocksdb_options env (DbNameToSegment name)) w' = (st, w1)"
      by fastforce
    with reopen serving_Destroy [OF ds 1] show ?case by (simp add: ds split: option.split)
  qed
qed

lemma safe_download_sst_files:
  assumes "serving d u w"
  shows "safe d u (download_sst_files af env obs request path w)"
  unfolding download_sst_files_def Let_def
  by (rule run_ok_and_then [OF safe_createLocalS3Util [OF assms]]) (auto split: prod.split option.split)

lemma safe_addS3SstFiles:
  assumes "serving d u w"
  shows "safe d u (async_tm_addS3SstFilesToDB af fl api env obs request w)"
proof -
  let ?w = "w\<lparr>num_current_s3_sst_downloadings := num_current_s3_sst_downloadings w + 1\<rparr>"
  let ?path = "rocksdb_dir af @ ''s3_tmp/'' @ ss_db_name request @ ''/''"
  have w1: "serving (d + 1) u ?w" using assms by (simp add: serving_def)
  obtain dir_ok w2 where dir: "fresh_directory env ?path ?w = (dir_ok, w2)" by fastforce
  then have w2: "serving (d + 1) u w2" using serving_directory(1) [of "d + 1" u env ?path ?w] w1 by simp
  show ?thesis
    unfolding async_tm_addS3SstFilesToDB_def Let_def dir
    by (use assms w1 w2 in \<open>auto simp: split_beta safe_recreate_db safe_download_sst_files
        intro!: safe_downloading run_ok_scope_exit [where P = "serving (d + 1) u" and Q = "\<lambda>_. serving (d + 1) u"]
          run_ok_and_then [where Q = "\<lambda>_. serving (d + 1) u"] split: sum.split option.split\<close>)
qed

section \<open>Ingestion is safe\<close>

lemma serving_bump [simp]: "serving d u (bump name segment w) = serving d u w"
  by (simp add: bump_def)

lemma serving_kafka_write [simp]: "serving d u (kafka_write a b segment p wr w) = serving d u w"
  by (simp add: kafka_write_def Let_def split: prod.split)

lemma serving_kafka_apply [simp]: "serving d u (kafka_apply env segment p op key val w) = serving d u w"
  by (simp add: kafka_apply_def)

lemma serving_kafka_handler:
  "serving d u (snd s) \<Longrightarrow> serving d u (snd (kafka_handler af env now name p segment ser m replay s))"
  by (auto simp: kafka_handler_def Let_def split_beta split: option.split)

interpretation ingest: message_handler "watcher_config_of af env now name kw" "\<lambda>s. serving d u (snd s)"
  for af env now name kw d u
  by unfold_locales (simp add: watcher_config_of_def serving_kafka_handler)

lemma serving_store_watcher [simp]: "serving d u (store_watcher name kw ws) = serving d u (snd (ws_handler_state ws))"
  by (simp add: store_watcher_def split: prod.split)

lemma watcher_of_state [simp]: "ws_handler_state (watcher_of kw w) = (kw_message_count kw, w)"
  by (simp add: watcher_of_def)

lemma safe_startMessageIngestion:
  assumes "serving d u w"
  shows "safe d u (async_tm_startMessageIngestion af env obs request w)"
  using assms by (auto simp: async_tm_startMessageIngestion_def Let_def split: sum.split option.split
      dest!: ingest.Start_keeps [where d = d and u = u])

lemma safe_stopMessageIngestion:
  assumes "serving d u w"
  shows "safe d u (async_tm_stopMessageIngestion af env obs name w)"
  using assms by (auto simp: async_tm_stopMessageIngestion_def Let_def split: sum.split option.split
      dest!: ingest.Stop_keeps [where d = d and u = u])

lemma serving_kafka_thread:
  assumes "serving d u w"
  shows "serving d u (kafka_thread af env obs name w)"
proof (cases "kafka_watcher_map w name")
  case (Some kw)
  obtain ended ws where run: "StartWatchLoop (watcher_config_of af env (obs_message_now_ms obs) name kw) (obs_watch_events obs)
      (obs_cycle_end obs) (watcher_of kw w) = (ended, ws)" by fastforce
  from ingest.loop_keeps [where d = d and u = u, OF run] assms run Some show ?thesis by (simp add: kafka_thread_def)
qed (use assms in \<open>simp add: kafka_thread_def\<close>)

lemma process_checkDB:
  assumes "AdminHandler_process af fl api env obs (CheckDB name) w = (out, w')"
  shows "w' = w" and "out \<noteq> Thrown c"
proof -
  obtain out1 w1 where c: "async_tm_checkDB api env obs name w = (out1, w1)" by fastforce
  moreover from c have "w1 = w" "out1 \<noteq> Thrown c"
    by (auto simp: async_tm_checkDB_def Let_def split: sum.splits prod.splits option.splits if_splits)
  ultimately show "w' = w" "out \<noteq> Thrown c"
    using assms by (auto simp: respond_def and_then_def split: reply.splits)
qed

lemma safe_process:
  assumes "serving d u w" "\<nexists>name. req = CheckDB name"
  shows "safe d u (AdminHandler_process af fl api env obs req w)"
  using assms
  by (cases req) (auto intro!: run_ok_respond simp: async_tm_ping_def safe_addDB safe_backupDB safe_restoreDB safe_backupDBToS3
      safe_restoreDBFromS3 safe_closeDB safe_changeDBRole safe_getSequenceNumber safe_clearDB safe_addS3SstFiles
      safe_startMessageIngestion safe_stopMessageIngestion safe_setDBOptions safe_compactDB)

end
