(* ===== verification/Admin_Properties.thy ===== *)
theory Admin_Properties
  imports Admin_Safety
begin

text \<open>
  The admin service as a system: the states it can reach while it serves requests, replication, writes and Kafka
  threads; and what its handlers do, request by request. A small environment shows that the hypotheses can be met.
\<close>

section \<open>Reachable states\<close>

text \<open>The service right after construction, on an empty manager and a fresh replicator.\<close>

definition admin_init :: "admin_flags \<Rightarrow> ('db, 'fs, 'opts) admin_env \<Rightarrow> ('db, 'it, 'fs) admin_handler \<Rightarrow> bool" where
  "admin_init af env w \<longleftrightarrow> (\<exists>w0 uninitialised. db_manager w0 = Manager_ctor \<and> the_replicator w0 = RocksDBReplicator_ctor \<and>
     opened w0 = [] \<and> AdminHandler_ctor af env uninitialised w0 = Some w)"

inductive admin_step ::
  "admin_flags \<Rightarrow> replicator_flags \<Rightarrow> ('db, 'it, 'wb, 'raw) rocksdb_api \<Rightarrow> ('db, 'fs, 'opts) admin_env \<Rightarrow>
   ('db, 'it, 'fs) admin_handler \<Rightarrow> ('db, 'it, 'fs) admin_handler \<Rightarrow> bool"
  for af :: admin_flags and fl :: replicator_flags and api :: "('db, 'it, 'wb, 'raw) rocksdb_api"
    and env :: "('db, 'fs, 'opts) admin_env" where
  request: "AdminHandler_process af fl api env obs req w = (out, w') \<Longrightarrow> out \<noteq> Waiting \<Longrightarrow> admin_step af fl api env w w'"
| kafka: "admin_step af fl api env w (kafka_thread af env obs name w)"
| app_write: "AdminHandler_getDB name w = Inr app \<Longrightarrow>
    ApplicationDB_Write fl api ms t_start t_end el wb app (the_replicator w) (db_heap w) = (res, r, heap, evs) \<Longrightarrow>
    admin_step af fl api env w (w\<lparr>the_replicator := r, db_heap := heap, stats := stats w @ evs\<rparr>)"
| replication: "ReplicatorHandler_replicate fl api c rq (db_heap w) (the_replicator w) = Some (res, r) \<Longrightarrow>
    admin_step af fl api env w (w\<lparr>the_replicator := r\<rparr>)"
| cleaner: "admin_step af fl api env w (w\<lparr>the_replicator := CachedIterCleaner_cleanup fl now (the_replicator w)\<rparr>)"

text \<open>The replicator may change its objects as long as it keeps their roles and databases.\<close>

lemma service_inv_objs:
  assumes "service_inv m r" "registry_inv r'" "db_map r' = db_map r"
    and "\<And>p rdb d. objs r p = Some (rdb, d) \<Longrightarrow> \<exists>rdb'. objs r' p = Some (rdb', d) \<and> rdb_role rdb' = rdb_role rdb"
  shows "service_inv m r'"
proof -
  have "app_ok r' n app" if "app_ok r n app" for n app
    using that assms(3,4) unfolding app_ok_def by (auto split: option.splits) metis
  with assms(1-3) show ?thesis unfolding service_inv_def by (auto split: prod.splits)
qed

lemma service_inv_upd:
  assumes "service_inv m r" "objs r p = Some (rdb, d)" "rdb_role rdb' = rdb_role rdb" "rdb_name rdb' = rdb_name rdb"
  shows "service_inv m (r\<lparr>objs := (objs r)(p \<mapsto> (rdb', d))\<rparr>)"
  by (rule service_inv_objs [OF assms(1) registry_inv_obj [OF service_invD(1) [OF assms(1)] assms(2,4)]])
    (use assms(2,3) in auto)

lemma Write_commit_role:
  "ReplicatedDB_Write_commit fl api ms t_start t_end wb rdb db = (out, rdb', db') \<Longrightarrow> rdb_role rdb' = rdb_role rdb"
  by (auto simp: ReplicatedDB_Write_commit_def report_def Let_def split: if_splits prod.splits)

lemma handle_role:
  "ReplicatedDB_handleReplicateRequest fl api c request rdb db = Some (timer, rdb') \<Longrightarrow> rdb_role rdb' = rdb_role rdb"
  by (auto simp: ReplicatedDB_handleReplicateRequest_def Let_def split: if_splits prod.splits)

lemma service_inv_app_write:
  assumes "service_inv m r" "ApplicationDB_Write fl api ms t_start t_end el wb app r dbs = (res, r', dbs', evs)"
  shows "service_inv m r'"
proof (cases "\<exists>p rdb d. app_replicated app = Some p \<and> objs r p = Some (rdb, d)")
  case True
  then obtain p rdb d where ob: "app_replicated app = Some p" "objs r p = Some (rdb, d)" by blast
  obtain out rdb' db' where w: "ReplicatedDB_Write_commit fl api ms t_start t_end wb rdb (dbs d) = (out, rdb', db')"
    by (metis prod_cases3)
  from service_inv_upd [OF assms(1) ob(2) Write_commit_role [OF w] Write_commit_name [OF w]] assms(2) ob w show ?thesis
    by (auto simp: ApplicationDB_Write_def Let_def)
next
  case False
  then have "r' = r" using assms(2)
    by (auto simp: ApplicationDB_Write_def Let_def split: option.splits prod.splits)
  with assms(1) show ?thesis by simp
qed

lemma service_inv_replicate:
  assumes "service_inv m r" "ReplicatorHandler_replicate fl api c rq dbs r = Some (res, r')"
  shows "service_inv m r'"
proof (cases "FastReadMap_get (req_db_name rq) (db_map r)")
  case (Some p)
  from registry_invD [OF service_invD(1) [OF assms(1)] Some] obtain rdb d where ob: "objs r p = Some (rdb, d)" by blast
  with assms(2) Some obtain timer rdb' where h: "ReplicatedDB_handleReplicateRequest fl api c rq rdb (dbs d) = Some (timer, rdb')"
    "r' = r\<lparr>objs := (objs r)(p \<mapsto> (rdb', d))\<rparr>" by (auto simp: ReplicatorHandler_replicate_def)
  from service_inv_upd [OF assms(1) ob handle_role [OF h(1)] handle_name [OF h(1)]] h(2) show ?thesis by simp
qed (use assms in \<open>simp add: ReplicatorHandler_replicate_def\<close>)

lemma service_inv_cleanup:
  assumes "service_inv m r"
  shows "service_inv m (CachedIterCleaner_cleanup fl now r)"
proof (rule service_inv_objs [OF assms registry_inv_cleanup [OF service_invD(1) [OF assms]]])
  obtain ps os where l: "cleanup_loop fl now (cleaner_dbs r) (objs r) = (ps, os)" by fastforce
  show "db_map (CachedIterCleaner_cleanup fl now r) = db_map r" by (simp add: CachedIterCleaner_cleanup_def l)
  show "\<exists>rdb'. objs (CachedIterCleaner_cleanup fl now r) p = Some (rdb', d) \<and> rdb_role rdb' = rdb_role rdb"
    if "objs r p = Some (rdb, d)" for p rdb d
    using cleanup_loop_objs [OF l] that by (auto simp: CachedIterCleaner_cleanup_def l)
qed

lemma admin_inv_init:
  assumes "admin_init af env w"
  shows "admin_inv w"
proof -
  obtain w0 u where w0: "db_manager w0 = Manager_ctor" "the_replicator w0 = RocksDBReplicator_ctor" "opened w0 = []"
    and c: "AdminHandler_ctor af env u w0 = Some w" using assms by (auto simp: admin_init_def)
  obtain res w1 where o1: "DB_Open env (env_meta_options env) (rocksdb_dir af @ ''meta_db'') w0 = (res, w1)" by fastforce
  with c obtain p where o: "DB_Open env (env_meta_options env) (rocksdb_dir af @ ''meta_db'') w0 = (Inr p, w1)"
    and w: "w = w1\<lparr>meta_db := p, s3_util := None, num_current_s3_sst_downloadings := 0,
                num_current_s3_sst_uploadings := u, kafka_watcher_map := Map.empty\<rparr>"
    by (auto simp: AdminHandler_ctor_def OpenMetaDB_def split: sum.splits if_splits)
  have "db_manager w1 = Manager_ctor" "the_replicator w1 = RocksDBReplicator_ctor" "opened w1 = [(p, rocksdb_dir af @ ''meta_db'')]"
    "next_ptr w1 = p + 1"
    using o w0 by (auto simp: DB_Open_def Let_def split: prod.splits if_splits)
  with service_new(1) show ?thesis by (simp add: w admin_inv_def pointers_ok_def Manager_ctor_def)
qed

lemma admin_inv_step: "admin_inv w \<Longrightarrow> admin_step af fl api env w w' \<Longrightarrow> admin_inv w'"
proof (erule admin_step.cases, goal_cases)
  case (1 obs req v out v')
  show ?case
  proof (cases "\<exists>name. req = CheckDB name")
    case True
    with 1 process_checkDB(1) show ?thesis by blast
  next
    case False
    have "serving (num_current_s3_sst_downloadings w) (num_current_s3_sst_uploadings w) w" using 1 by (simp add: serving_def)
    from safe_process [OF this False, of af fl api env obs] 1 show ?thesis
      by (cases out) (auto simp: serving_def)
  qed
next
  case (2 v obs name)
  then show ?case
    using serving_kafka_thread [of "num_current_s3_sst_downloadings w" "num_current_s3_sst_uploadings w" w af env obs name]
    by (simp add: serving_def)
qed (auto simp: admin_inv_def intro: service_inv_app_write service_inv_replicate service_inv_cleanup)

interpretation admin: invariant_system "admin_init af env" "admin_step af fl api env" admin_inv for af fl api env
  by unfold_locales (rule admin_inv_init, assumption, rule admin_inv_step)

section \<open>An environment\<close>

text \<open>
  Databases as lists of batches with a key-value part, a disk that keeps closed databases by path and refuses to open
  one that is open, an S3 that always delivers one file. It serves the examples.
\<close>

type_synonym kv_db = "list_db \<times> (string \<times> string) list"

definition kv_api :: "(kv_db, list_it, nat batch, nat batch) rocksdb_api" where
  "kv_api = \<lparr>
     db_Write = (\<lambda>db wb. let (st, l) = db_Write list_api (fst db) wb in (st, (l, snd db))),
     db_GetLatestSequenceNumber = (\<lambda>db. db_GetLatestSequenceNumber list_api (fst db)),
     db_GetUpdatesSince = (\<lambda>db seq. db_GetUpdatesSince list_api (fst db) seq),
     it_Valid = it_Valid list_api, it_Next = (\<lambda>db it. it_Next list_api (fst db) it),
     it_GetBatch = it_GetBatch list_api, wb_Count = wb_Count list_api, wb_Data = wb_Data list_api,
     wb_of_Data = wb_of_Data list_api, wb_PutLogData = wb_PutLogData list_api,
     wb_GetDataSize = wb_GetDataSize list_api, wb_Iterate = wb_Iterate list_api, raw_size = raw_size list_api\<rparr>"

definition ex_meta :: db_meta_data where
  "ex_meta = \<lparr>meta_db_name = ''seg00001'', meta_s3_bucket = Some ''bucket'', meta_s3_path = Some ''path'',
     meta_last_kafka_msg_timestamp_ms = Some (-1)\<rparr>"

definition ex_env :: "(kv_db, (string \<times> kv_db) list, unit) admin_env" where
  "ex_env = \<lparr>
     env_setFromIpPort = (\<lambda>ip _. if ip = [] then None else Some ip), env_ToString = (\<lambda>_. ''error''),
     env_rocksdb_options = (\<lambda>_. ()), env_meta_options = (),
     env_Open = (\<lambda>fs locked _ path. if path \<in> set locked then (StError ''locked'', ([], []), fs)
       else (StOk, case map_of fs path of None \<Rightarrow> ([], []) | Some db \<Rightarrow> db, fs)),
     env_Close = (\<lambda>fs path db. (path, db) # fs),
     env_DestroyDB = (\<lambda>fs locked _ path. if path \<in> set locked then (StError ''locked'', fs)
       else (StOk, filter (\<lambda>(p, _). p \<noteq> path) fs)),
     env_Get = (\<lambda>db k. case map_of (snd db) k of None \<Rightarrow> (StNotFound, []) | Some v \<Rightarrow> (StOk, v)),
     env_Put = (\<lambda>db k v. (StOk, (fst db, (k, v) # snd db))),
     env_Delete = (\<lambda>db k. (StOk, (fst db, filter (\<lambda>(j, _). j \<noteq> k) (snd db)))),
     env_Merge = (\<lambda>db k v. (StOk, (fst db, (k, v) # snd db))),
     env_SetOptions = (\<lambda>db _. (StOk, db)), env_CompactRange = (\<lambda>db. (StOk, db)), env_WAL_ttl_seconds = (\<lambda>_. 3600),
     env_IngestExternalFile = (\<lambda>fs db _ _. (StOk, db, fs)), env_NewHdfsEnv = (\<lambda>_. StOk),
     env_BackupEngine_Open = (\<lambda>fs _. (StOk, fs)), env_CreateNewBackup = (\<lambda>fs _ _. (StOk, fs)),
     env_RestoreDBFromLatestBackup = (\<lambda>fs _ _. (StOk, fs)), env_Checkpoint_Create = (\<lambda>_. StOk),
     env_CreateCheckpoint = (\<lambda>fs _ _. (StOk, fs)), env_GetChildren = (\<lambda>_ _. (StOk, [''.'', ''f''])),
     env_remove_all = (\<lambda>fs _. (False, fs)), env_create_directories = (\<lambda>fs _. (False, fs)),
     env_directory_iterator = (\<lambda>_ _. Some [''a.sst'']),
     env_putObject = (\<lambda>_ _ _ fs. ([], fs)), env_getObject = (\<lambda>_ _ _ _ fs. ([], fs)),
     env_listAllObjects = (\<lambda>_ _ _. ([], [])), env_getObjects = (\<lambda>_ _ _ _ _ fs. (([], [(True, [])]), fs)),
     env_serialize_meta = (\<lambda>_. ''meta''), env_deserialize_meta = (\<lambda>_. ex_meta),
     env_decode_payload = (\<lambda>_. None), env_to_int = digits_to_int, env_local_ip = ''1.2.3.4'', env_broker_list = (\<lambda>_. [])\<rparr>"

definition ex_admin_flags :: admin_flags where
  "ex_admin_flags = \<lparr>hdfs_name_node = [], rocksdb_dir = ''/d/'', num_hdfs_access_threads = 8, rocksdb_allow_overlapping_keys = False,
     allow_overlapping_keys_segments = [], compact_db_after_load_sst = False, rocksdb_replicator_port = 9091, s3_direct_io = False,
     max_s3_sst_loading_concurrency = 999, s3_download_limit_mb = 0, kafka_ts_update_interval = 1000,
     kafka_consumer_timeout_ms = 1000, enable_checkpoint_backup = False, checkpoint_backup_batch_num_upload = 1,
     checkpoint_backup_batch_num_download = 1, kafka_flags = ex_kafka_flags\<rparr>"

definition ex_observed :: observed where
  "ex_observed = \<lparr>obs_use_counts = [1], obs_owners = [0], obs_s3_use_counts = [1], obs_now = 7, obs_elapsed_ms = 1, obs_junk = 99,
     obs_consumer = ex_consumer, obs_message_now_ms = (\<lambda>_. 0), obs_watch_events = [], obs_cycle_end = None\<rparr>"

definition ex_boot :: "(kv_db, list_it, (string \<times> kv_db) list) admin_handler" where
  "ex_boot = \<lparr>db_manager = Manager_ctor, the_replicator = RocksDBReplicator_ctor, db_heap = (\<lambda>_. ([], [])), opened = [], next_ptr = 0,
     outside = [], meta_db = 0, s3_util = None, num_current_s3_sst_downloadings = 0, num_current_s3_sst_uploadings = 0,
     kafka_watcher_map = Map.empty, stats = []\<rparr>"

definition ex_admin :: "(kv_db, list_it, (string \<times> kv_db) list) admin_handler" where
  "ex_admin = the (AdminHandler_ctor ex_admin_flags ex_env 0 ex_boot)"

lemma ex_admin_eq:
  "AdminHandler_ctor ex_admin_flags ex_env 0 ex_boot = Some ex_admin"
  "ex_admin = ex_boot\<lparr>opened := [(0, ''/d/meta_db'')], next_ptr := 1\<rparr>"
  by (simp_all add: ex_admin_def AdminHandler_ctor_def OpenMetaDB_def DB_Open_def Let_def ex_env_def ex_boot_def ex_admin_flags_def
      status_ok_def fun_eq_iff)

lemma ex_admin_init: "admin_init ex_admin_flags ex_env ex_admin"
  unfolding admin_init_def
  by (rule exI [of _ ex_boot], rule exI [of _ 0]) (simp add: ex_admin_eq(1), simp add: ex_boot_def)

lemmas ex_admin_inv = admin_inv_init [OF ex_admin_init]

definition ex_add :: add_db_request where
  "ex_add = \<lparr>add_db_name = ''seg00001'', add_upstream_ip = ''1.1.1.1'', add_overwrite = False, add_db_role = None\<rparr>"

definition ex_served :: "(kv_db, list_it, (string \<times> kv_db) list) admin_handler" where
  "ex_served = snd (async_tm_addDB ex_admin_flags ex_flags kv_api ex_env ex_add ex_admin)"

section \<open>Adding a database\<close>

lemma admin_inv_serving:
  "admin_inv w \<Longrightarrow> serving (num_current_s3_sst_downloadings w) (num_current_s3_sst_uploadings w) w"
  by (simp add: serving_def)

lemma manager_addDB_free:
  assumes "admin_inv w" "map_of (db_manager w) name = None"
  shows "\<exists>app r. manager_addDB fl api env name p role up w =
      (Result (), w\<lparr>db_manager := db_manager w @ [(name, app)], the_replicator := r\<rparr>) \<and>
    app_db app = p \<and> app_role app = role \<and> app_upstream app = up"
proof -
  from service_inv_add [of "db_manager w" "the_replicator w" name fl api "db_heap w" p role up] assms obtain app r where
    "Manager_addDB fl api (db_heap w) name p role up (db_manager w) (the_replicator w) = Some (AddTrue, db_manager w @ [(name, app)], r)"
    "app_db app = p" "app_role app = role" "app_upstream app = up" by (auto simp: admin_inv_def)
  then show ?thesis by (intro exI [of _ app] exI [of _ r]) (simp add: manager_addDB_def)
qed

lemma DB_Open_fields:
  assumes "DB_Open env options path w = (res, w')"
  shows "db_manager w' = db_manager w" "the_replicator w' = the_replicator w" "meta_db w' = meta_db w"
    and "kafka_watcher_map w' = kafka_watcher_map w" "stats w' = stats w"
    and "res = Inr p \<Longrightarrow> p = next_ptr w \<and> opened w' = (p, path) # opened w \<and> (\<forall>q. q \<noteq> p \<longrightarrow> db_heap w' q = db_heap w q)"
    and "res = Inl st \<Longrightarrow> opened w' = opened w \<and> db_heap w' = db_heap w \<and> \<not> status_ok st"
    and "res = Inr p \<Longrightarrow> \<exists>fs. status_ok (fst (env_Open env fs (map snd (opened w)) options path))"
  using assms by (auto simp: DB_Open_def Let_def split: prod.splits if_splits) (metis fst_conv)

text \<open>What \<open>addDB\<close> does after the checks of the name and of the upstream.\<close>

lemma addDB_run:
  assumes "admin_inv w" "map_of (db_manager w) (add_db_name request) = None"
    and "SetAddressOrException env (add_upstream_ip request) (rocksdb_replicator_port af) = Inr addr"
    and "async_tm_addDB af fl api env request w = (out, w')"
  obtains (destroy) st where "add_overwrite request" "out = Exception (admin_error DB_ADMIN_ERROR (env_ToString env st))"
      "db_manager w' = db_manager w" "the_replicator w' = the_replicator w" "opened w' = opened w"
  | (not_opened) st where "out = Exception (admin_error DB_ERROR (env_ToString env st))"
      "db_manager w' = db_manager w" "the_replicator w' = the_replicator w" "opened w' = opened w"
  | (bad_role) "requested_role (add_db_role request) = None"
      "out = Exception (admin_error INVALID_DB_ROLE (the (add_db_role request)))"
      "db_manager w' = db_manager w" "the_replicator w' = the_replicator w"
      "opened w' = (next_ptr w, rocksdb_dir af @ add_db_name request) # opened w"
      "\<exists>fs options. status_ok (fst (env_Open env fs (map snd (opened w)) options (rocksdb_dir af @ add_db_name request)))"
  | (added) role app where "requested_role (add_db_role request) = Some role" "out = Result ()"
      "db_manager w' = db_manager w @ [(add_db_name request, app)]" "app_db app = next_ptr w" "app_role app = role"
      "app_upstream app = Some addr" "opened w' = (next_ptr w, rocksdb_dir af @ add_db_name request) # opened w"
      "\<exists>fs options. status_ok (fst (env_Open env fs (map snd (opened w)) options (rocksdb_dir af @ add_db_name request)))"
proof -
  let ?name = "add_db_name request" and ?opts = "env_rocksdb_options env (DbNameToSegment (add_db_name request))"
  let ?path = "rocksdb_dir af @ ?name"
  obtain status w1 where d: "(if add_overwrite request then DestroyDB env ?path ?opts (snd (clearMetaData env ?name w)) else (StOk, w))
      = (status, w1)" by fastforce
  then have w1: "db_manager w1 = db_manager w" "the_replicator w1 = the_replicator w" "opened w1 = opened w"
      "next_ptr w1 = next_ptr w" "meta_db w1 = meta_db w" "\<not> add_overwrite request \<Longrightarrow> status = StOk"
    by (auto simp: DestroyDB_def clearMetaData_def Let_def split: if_splits prod.splits)
  have ne: "AdminHandler_getDB ?name w = Inl (admin_error ADMIN_DB_NOT_FOUND (?name @ '' does not exist''))"
    using assms(2) by (simp add: AdminHandler_getDB_def Manager_getDB_def)
  note run = assms(4) [unfolded async_tm_addDB_def Let_def ne assms(3) sum.case d prod.case]
  show thesis
  proof (cases "status_ok status")
    case False
    with run w1 destroy [of status] show thesis by (auto simp: OKOrSetException_def status_ok_def)
  next
    case True
    obtain res w2 where o: "DB_Open env ?opts ?path w1 = (res, w2)" by fastforce
    note f = DB_Open_fields [OF o]
    show thesis
    proof (cases res)
      case (Inl st)
      with run True o f(1,2,7) w1 not_opened [of st] show thesis by (auto simp: OKOrSetException_def)
    next
      case (Inr p)
      have p: "p = next_ptr w" "opened w2 = (next_ptr w, ?path) # opened w" using f(6) [OF Inr] w1 by auto
      have ok: "\<exists>fs options. status_ok (fst (env_Open env fs (map snd (opened w)) options ?path))" using f(8) [OF Inr] w1 by auto
      show thesis
      proof (cases "requested_role (add_db_role request)")
        case None
        with run True o Inr p f(1,2) w1 ok bad_role show thesis by (simp add: OKOrSetException_def)
      next
        case (Some role)
        have inv: "admin_inv w2" "map_of (db_manager w2) ?name = None"
        proof -
          have "admin_inv w1" using assms(1) w1 by (simp add: admin_inv_def)
          from serving_DB_Open(1) [OF o admin_inv_serving [OF this]] show "admin_inv w2" by (simp add: serving_def)
        qed (use f w1 assms(2) in simp)
        from manager_addDB_free [OF inv, of fl api env p role "Some addr"] obtain app r where
          "manager_addDB fl api env ?name p role (Some addr) w2 =
             (Result (), w2\<lparr>db_manager := db_manager w2 @ [(?name, app)], the_replicator := r\<rparr>)"
          "app_db app = p" "app_role app = role" "app_upstream app = Some addr" by blast
        with run True o Inr Some p f(1) w1 ok added [of role app] show thesis by (simp add: OKOrSetException_def)
      qed
    qed
  qed
qed

lemma addDB_early:
  assumes "async_tm_addDB af fl api env request w = (out, w')"
  shows "map_of (db_manager w) (add_db_name request) \<noteq> None \<Longrightarrow> out = Exception (admin_error DB_EXIST ''Db already exists'') \<and> w' = w"
    and "map_of (db_manager w) (add_db_name request) = None \<Longrightarrow>
      SetAddressOrException env (add_upstream_ip request) (rocksdb_replicator_port af) = Inl e \<Longrightarrow> out = Exception e \<and> w' = w"
  using assms by (auto simp: async_tm_addDB_def AdminHandler_getDB_def Manager_getDB_def)

section \<open>Every request\<close>




lemma ex_served_run:
  "async_tm_addDB ex_admin_flags ex_flags kv_api ex_env ex_add ex_admin = (Result (), ex_served)"
proof -
  have "fst (async_tm_addDB ex_admin_flags ex_flags kv_api ex_env ex_add ex_admin) = Result ()"
    by (simp add: async_tm_addDB_def AdminHandler_getDB_def Manager_getDB_def SetAddressOrException_def OKOrSetException_def
        DB_Open_def manager_addDB_def Manager_addDB_def ApplicationDB_ctor_def RocksDBReplicator_addDB_def Let_def
        ReplicatedDB_pullFromUpstream_def ReplicatedDB_ctor_def frm_defs RocksDBReplicator_ctor_def Manager_ctor_def
        ex_admin_eq(2) ex_boot_def ex_env_def ex_add_def ex_admin_flags_def requested_role_def status_ok_def)
  then show ?thesis unfolding ex_served_def by (metis prod.collapse)
qed

lemma ex_served_reach: "reach (admin_init ex_admin_flags ex_env) (admin_step ex_admin_flags ex_flags kv_api ex_env) ex_served"
proof (rule reach_step [OF reach_init [of "admin_init ex_admin_flags ex_env", OF ex_admin_init]])
  have "AdminHandler_process ex_admin_flags ex_flags kv_api ex_env ex_observed (AddDB ex_add) ex_admin = (Result Done, ex_served)"
    by (simp add: ex_served_run respond_def and_then_def)
  then show "admin_step ex_admin_flags ex_flags kv_api ex_env ex_admin ex_served" by (rule admin_step.request) simp
qed

lemmas ex_served_inv = admin.reach_inv [OF ex_served_reach]

lemma ex_served_app:
  obtains app where "AdminHandler_getDB ''seg00001'' ex_served = Inr app" "app_role app = SLAVE" "app_upstream app = Some ''1.1.1.1''"
    "app_db app = 1" "opened ex_served = [(1, ''/d/seg00001''), (0, ''/d/meta_db'')]"
proof -
  have a: "map_of (db_manager ex_admin) (add_db_name ex_add) = None" by (simp add: ex_admin_eq(2) ex_boot_def Manager_ctor_def)
  have b: "SetAddressOrException ex_env (add_upstream_ip ex_add) (rocksdb_replicator_port ex_admin_flags) = Inr ''1.1.1.1''"
    by (simp add: SetAddressOrException_def ex_env_def ex_add_def)
  from ex_admin_inv a b ex_served_run show thesis
  proof (cases rule: addDB_run)
    case (added role app)
    then show thesis using that [of app]
      by (simp add: AdminHandler_getDB_def Manager_getDB_def ex_admin_eq(2) ex_boot_def Manager_ctor_def ex_add_def
          requested_role_def ex_admin_flags_def)
  qed simp_all
qed


section \<open>Properties of addDB\<close>



text \<open>RocksDB's lock: a path that is open cannot be opened again.\<close>

definition open_refuses_locked :: "('db, 'fs, 'opts) admin_env \<Rightarrow> bool" where
  "open_refuses_locked env \<longleftrightarrow>
    (\<forall>fs locked options path. path \<in> set locked \<longrightarrow> \<not> status_ok (fst (env_Open env fs locked options path)))"

text \<open>
  (C33) An \<open>addDB\<close> with an unknown role leaves the database it has opened behind: nobody manages it or closes it, and
  from then on every \<open>addDB\<close> of that name, whatever its role, is answered with \<open>DB_ERROR\<close>, because RocksDB holds
  the lock of the path. Only a request that overwrites may fail before, with \<open>DB_ADMIN_ERROR\<close>.
\<close>

theorem addDB_bad_role_blocks_name:
  assumes "admin_inv w" "open_refuses_locked env"
    and "async_tm_addDB af fl api env request w = (Exception e, w')" "errorCode e = Some INVALID_DB_ROLE"
    and "add_db_name request' = add_db_name request"
    and "env_setFromIpPort env (add_upstream_ip request') (rocksdb_replicator_port af) \<noteq> None"
  shows "\<exists>code msg. fst (async_tm_addDB af fl api env request' w') = Exception (admin_error code msg) \<and>
    (code = DB_ERROR \<or> add_overwrite request' \<and> code = DB_ADMIN_ERROR)"
proof -
  let ?path = "rocksdb_dir af @ add_db_name request"
  have free: "map_of (db_manager w) (add_db_name request) = None"
    using addDB_early(1) [OF assms(3)] assms(4) by (cases "map_of (db_manager w) (add_db_name request)") auto
  obtain addr where addr: "SetAddressOrException env (add_upstream_ip request) (rocksdb_replicator_port af) = Inr addr"
    using addDB_early(2) [OF assms(3) free] assms(4)
    by (cases "env_setFromIpPort env (add_upstream_ip request) (rocksdb_replicator_port af)")
      (auto simp: SetAddressOrException_def)
  have leak: "db_manager w' = db_manager w" "?path \<in> snd ` set (opened w')" "admin_inv w'"
  proof -
    from assms(1) free addr assms(3) show "db_manager w' = db_manager w" "?path \<in> snd ` set (opened w')"
      using assms(4) by (cases rule: addDB_run; simp)+
    have "safe (num_current_s3_sst_downloadings w) (num_current_s3_sst_uploadings w) (async_tm_addDB af fl api env request w)"
      by (rule safe_addDB [OF admin_inv_serving [OF assms(1)]])
    with assms(3) show "admin_inv w'" by (simp add: serving_def)
  qed
  obtain addr' where addr': "SetAddressOrException env (add_upstream_ip request') (rocksdb_replicator_port af) = Inr addr'"
    using assms(6) by (auto simp: SetAddressOrException_def)
  obtain out w'' where run: "async_tm_addDB af fl api env request' w' = (out, w'')" by fastforce
  have locked: "\<not> status_ok (fst (env_Open env fs (map snd (opened w')) options (rocksdb_dir af @ add_db_name request')))" for fs options
    using assms(2,5) leak(2) by (simp add: open_refuses_locked_def)
  have "map_of (db_manager w') (add_db_name request') = None" using free leak(1) assms(5) by simp
  from leak(3) this addr' run show ?thesis
  proof (cases rule: addDB_run)
    case bad_role
    then show ?thesis using locked by blast
  next
    case added
    then show ?thesis using locked by blast
  qed (use run in auto)
qed

theorem addDB_bad_role_blocks_name_witness:
  "\<exists>code msg. fst (async_tm_addDB ex_admin_flags ex_flags kv_api ex_env ex_add
     (snd (async_tm_addDB ex_admin_flags ex_flags kv_api ex_env (ex_add\<lparr>add_db_role := Some ''MASTER''\<rparr>) ex_admin)))
       = Exception (admin_error code msg)"
proof -
  let ?bad = "ex_add\<lparr>add_db_role := Some ''MASTER''\<rparr>"
  obtain w' where bad: "async_tm_addDB ex_admin_flags ex_flags kv_api ex_env ?bad ex_admin =
      (Exception (admin_error INVALID_DB_ROLE ''MASTER''), w')"
    by (simp add: async_tm_addDB_def AdminHandler_getDB_def Manager_getDB_def SetAddressOrException_def OKOrSetException_def
        DB_Open_def Let_def Manager_ctor_def ex_admin_eq(2) ex_boot_def ex_env_def ex_add_def ex_admin_flags_def
        requested_role_def status_ok_def)
  have "open_refuses_locked ex_env" by (simp add: open_refuses_locked_def ex_env_def status_ok_def)
  moreover have "env_setFromIpPort ex_env (add_upstream_ip ex_add) (rocksdb_replicator_port ex_admin_flags) \<noteq> None"
    by (simp add: ex_env_def ex_add_def)
  ultimately show ?thesis
    using addDB_bad_role_blocks_name [OF ex_admin_inv _ bad, of ex_add] bad by auto
qed

end
