(* ===== verification/Admin_Requests.thy ===== *)
theory Admin_Requests
  imports Admin_Properties
begin

text \<open>
  More of what the handlers of the admin service do: changing a role, clearing a database, loading SST files,
  transferring the files of a checkpoint in batches, rate limits, and starting Kafka ingestion.
\<close>

section \<open>Changing the role of a database\<close>

lemma getDB_managed: "AdminHandler_getDB n w = Inr a \<longleftrightarrow> map_of (db_manager w) n = Some a"
  by (simp add: AdminHandler_getDB_def Manager_getDB_def split: option.split)

text \<open>Everybody who held the database has released it by the time the polls of the removal are over.\<close>

definition released :: "observed \<Rightarrow> bool" where
  "released obs \<longleftrightarrow> waitOnApplicationDBRef (obs_use_counts obs) \<noteq> None \<and> removeDB_poll (obs_owners obs) \<noteq> None"

lemma removeDB_run:
  assumes "admin_inv w" "AdminHandler_removeDB obs name w = (out, w')"
  obtains (absent) "map_of (db_manager w) name = None" "w' = w"
      "out = Exception (admin_error ADMIN_DB_NOT_FOUND (name @ '' does not exist''))"
  | (waiting) app where "map_of (db_manager w) name = Some app" "out = Waiting" "\<not> released obs"
  | (removed) app r where "map_of (db_manager w) name = Some app" "out = Result (app_db app)" "admin_inv w'" "owned (app_db app) w'"
      "w' = w\<lparr>db_manager := filter (\<lambda>(n, _). n \<noteq> name) (db_manager w), the_replicator := r\<rparr>"
proof (cases "map_of (db_manager w) name")
  case None
  moreover have "w' = w" "out = Exception (admin_error ADMIN_DB_NOT_FOUND (name @ '' does not exist''))"
    using assms(2) None by (auto simp: AdminHandler_removeDB_def Manager_removeDB_def)
  ultimately show thesis by (rule absent)
next
  case (Some app)
  let ?P = "serving (num_current_s3_sst_downloadings w) (num_current_s3_sst_uploadings w)"
  have "run_ok ?P (\<lambda>p w. admin_inv w \<and> owned p w) (AdminHandler_removeDB obs name w)"
    by (rule run_ok_mono [OF run_ok_removeDB [OF admin_inv_serving [OF assms(1)]]]) (simp_all add: serving_def)
  then have ok: "run_ok ?P (\<lambda>p w. admin_inv w \<and> owned p w) (out, w')" using assms(2) by simp
  obtain fin r where d: "ApplicationDB_dtor (obs_owners obs) app (the_replicator w) = (fin, r)" by fastforce
  then have fin: "removeDB_poll (obs_owners obs) \<noteq> None \<Longrightarrow> fin"
    by (cases "app_replicated app"; cases "FastReadMap_remove (app_name app) (db_map (the_replicator w))")
      (auto simp: ApplicationDB_dtor_def RocksDBReplicator_removeDB_def Let_def split: option.splits)
  show thesis
  proof (cases "waitOnApplicationDBRef (obs_use_counts obs) = None \<or> \<not> fin")
    case True
    then have "out = Waiting" using assms(2) Some d
      by (auto simp: AdminHandler_removeDB_def Manager_removeDB_def Let_def split: option.splits)
    with Some show thesis using True fin by (intro waiting) (auto simp: released_def)
  next
    case False
    then have "out = Result (app_db app)"
      "w' = w\<lparr>db_manager := filter (\<lambda>(n, _). n \<noteq> name) (db_manager w), the_replicator := r\<rparr>"
      using assms(2) Some d by (auto simp: AdminHandler_removeDB_def Manager_removeDB_def Let_def)
    with ok Some show thesis by (intro removed [of app r]) simp_all
  qed
qed

lemma map_of_removed: "map_of (filter (\<lambda>(n, _). n \<noteq> k) m @ [(k, v)]) = (map_of m)(k \<mapsto> v)"
  by (induction m) (auto simp: fun_eq_iff)

lemma manager_addDB_replace:
  assumes "admin_inv w" "owned p w" "db_manager w = filter (\<lambda>(n, _). n \<noteq> name) m"
  obtains app r where "manager_addDB fl api env name p role up w =
      (Result (), w\<lparr>db_manager := filter (\<lambda>(n, _). n \<noteq> name) m @ [(name, app)], the_replicator := r\<rparr>)"
    "app_db app = p" "app_role app = role" "app_upstream app = up"
proof -
  have "map_of (db_manager w) name = None" using assms(3) by (simp add: map_of_filter_neq)
  from manager_addDB_free [OF assms(1) this] assms(3) that show thesis by metis
qed

definition role_of :: "string \<Rightarrow> db_role option" where
  "role_of s = (if s = ''MASTER'' then Some MASTER else if s = ''SLAVE'' then Some SLAVE else None)"

text \<open>Removing a database and adding it again under a new role, once the request has been checked.\<close>

lemma change_role_run:
  assumes "admin_inv w"
    and "and_then (AdminHandler_removeDB obs name w) (\<lambda>db w. manager_addDB fl api env name db role up w) = (out, w')"
  obtains (absent) "map_of (db_manager w) name = None" "w' = w"
      "out = Exception (admin_error ADMIN_DB_NOT_FOUND (name @ '' does not exist''))"
  | (waiting) "out = Waiting" "\<not> released obs"
  | (changed) app app' where "out = Result ()" "map_of (db_manager w) name = Some app" "app_db app' = app_db app" "app_role app' = role"
      "app_upstream app' = up" "map_of (db_manager w') = (map_of (db_manager w))(name \<mapsto> app')" "db_heap w' = db_heap w" "opened w' = opened w"
proof -
  obtain out1 w1 where rm: "AdminHandler_removeDB obs name w = (out1, w1)" by fastforce
  from assms(1) rm show thesis
  proof (cases rule: removeDB_run)
    case (removed app r)
    have m: "db_manager w1 = filter (\<lambda>(n, _). n \<noteq> name) (db_manager w)" using removed(5) by simp
    from manager_addDB_replace [OF removed(3,4) m, of fl api env role up] obtain app' r' where
      add: "manager_addDB fl api env name (app_db app) role up w1 = (Result (),
          w1\<lparr>db_manager := filter (\<lambda>(n, _). n \<noteq> name) (db_manager w) @ [(name, app')], the_replicator := r'\<rparr>)"
        "app_db app' = app_db app" "app_role app' = role" "app_upstream app' = up" by metis
    have "out = Result ()" "w' = w1\<lparr>db_manager := filter (\<lambda>(n, _). n \<noteq> name) (db_manager w) @ [(name, app')], the_replicator := r'\<rparr>"
      using assms(2) rm removed(2) add(1) by (simp_all add: and_then_def)
    then show thesis using removed(1,5) add(2-4)
      by (intro changed [of app app']) (simp_all add: map_of_removed del: map_of_append)
  next
    case absent
    then show thesis using assms(2) rm by (intro that(1)) (simp_all add: and_then_def)
  next
    case waiting
    then show thesis using assms(2) rm by (intro that(2)) (simp_all add: and_then_def)
  qed
qed

text \<open>
  (C9) \<open>changeDBRoleAndUpStream\<close> either changes nothing, and then raises \<open>INVALID_DB_ROLE\<close> exactly for an unknown
  role, \<open>INVALID_UPSTREAM\<close> for a bad address of a slave and \<open>DB_NOT_FOUND\<close> for an unmanaged name; or it succeeds, and then the
  database keeps its RocksDB object with all its data, has the new role, and a master has no upstream, while no other
  database is touched. It never fails half way. It keeps waiting only while somebody holds the database.
\<close>

theorem changeDBRole_all_or_nothing:
  assumes "admin_inv w" "async_tm_changeDBRoleAndUpStream af fl api env obs request w = (out, w')"
  shows "out = Waiting \<and> \<not> released obs \<or>
    (\<exists>code msg. out = Exception (admin_error code msg) \<and> w' = w \<and> code \<in> {INVALID_DB_ROLE, INVALID_UPSTREAM, ADMIN_DB_NOT_FOUND} \<and>
       (code = INVALID_DB_ROLE \<longleftrightarrow> role_of (cg_new_role request) = None) \<and>
       (code = INVALID_UPSTREAM \<longrightarrow> cg_new_role request = ''SLAVE'') \<and>
       (code = ADMIN_DB_NOT_FOUND \<longrightarrow> map_of (db_manager w) (cg_db_name request) = None)) \<or>
    (\<exists>app app'. out = Result () \<and> AdminHandler_getDB (cg_db_name request) w = Inr app \<and>
       AdminHandler_getDB (cg_db_name request) w' = Inr app' \<and> app_db app' = app_db app \<and>
       role_of (cg_new_role request) = Some (app_role app') \<and> (app_role app' = MASTER \<longrightarrow> app_upstream app' = None) \<and>
       db_heap w' = db_heap w \<and> opened w' = opened w \<and>
       (\<forall>name. name \<noteq> cg_db_name request \<longrightarrow> AdminHandler_getDB name w' = AdminHandler_getDB name w))"
proof (cases "role_of (cg_new_role request)")
  case None
  then have "out = Exception (admin_error INVALID_DB_ROLE (cg_new_role request))" "w' = w" using assms(2)
    by (simp_all add: async_tm_changeDBRoleAndUpStream_def role_of_def Let_def split: if_split_asm)
  with None show ?thesis
    by (intro disjI2 disjI1 exI [of _ INVALID_DB_ROLE] exI [of _ "cg_new_role request"]) simp
next
  case (Some role)
  let ?name = "cg_db_name request"
  let ?addr = "if role = SLAVE \<and> cg_upstream_ip request \<noteq> None \<and> cg_upstream_port request \<noteq> None
     then map_sum id Some (SetAddressOrException env (the (cg_upstream_ip request)) (rocksdb_replicator_port af)) else Inr None"
  have run: "(case ?addr of Inl e \<Rightarrow> (Exception e, w) | Inr up \<Rightarrow>
      and_then (AdminHandler_removeDB obs ?name w) (\<lambda>db w. manager_addDB fl api env ?name db role up w)) = (out, w')"
    using assms(2) Some unfolding async_tm_changeDBRoleAndUpStream_def role_of_def Let_def
    by (cases "cg_new_role request = ''MASTER''"; cases "cg_new_role request = ''SLAVE''") (auto split del: if_split)
  show ?thesis
  proof (cases ?addr)
    case (Inl e)
    then obtain msg where "e = admin_error INVALID_UPSTREAM msg" "role = SLAVE"
      by (auto simp: SetAddressOrException_def split: if_splits option.splits)
    with run Inl Some show ?thesis
      by (intro disjI2 disjI1 exI [of _ INVALID_UPSTREAM] exI [of _ msg]) (simp add: role_of_def split: if_splits)
  next
    case (Inr up)
    have master: "role = MASTER \<Longrightarrow> up = None" using Inr by (auto split: if_splits)
    from run Inr have "and_then (AdminHandler_removeDB obs ?name w) (\<lambda>db w. manager_addDB fl api env ?name db role up w) = (out, w')"
      by simp
    with assms(1) show ?thesis
    proof (cases rule: change_role_run)
      case absent
      then show ?thesis using Some
        by (intro disjI2 disjI1 exI [of _ ADMIN_DB_NOT_FOUND] exI [of _ "?name @ '' does not exist''"]) simp
    next
      case (changed app app')
      then show ?thesis using master Some
        by (intro disjI2 exI [of _ app] exI [of _ app'])
          (simp add: getDB_managed, simp add: AdminHandler_getDB_def Manager_getDB_def)
    qed simp
  qed
qed

lemma ex_served_fields:
  "num_current_s3_sst_downloadings ex_served = 0" "s3_util ex_served = None" "db_heap ex_served (meta_db ex_served) = ([], [])"
  "kafka_watcher_map ex_served = Map.empty"
  by (simp_all add: ex_served_def async_tm_addDB_def AdminHandler_getDB_def Manager_getDB_def SetAddressOrException_def
      OKOrSetException_def DB_Open_def manager_addDB_def Manager_addDB_def ApplicationDB_ctor_def RocksDBReplicator_addDB_def Let_def
      ReplicatedDB_pullFromUpstream_def ReplicatedDB_ctor_def frm_defs RocksDBReplicator_ctor_def Manager_ctor_def
      ex_admin_eq(2) ex_boot_def ex_env_def ex_add_def ex_admin_flags_def requested_role_def status_ok_def)

definition ex_promote :: change_role_request where
  "ex_promote = \<lparr>cg_db_name = ''seg00001'', cg_new_role = ''MASTER'', cg_upstream_ip = None, cg_upstream_port = None\<rparr>"

theorem changeDBRole_all_or_nothing_witness:
  "\<exists>app. AdminHandler_getDB ''seg00001''
       (snd (async_tm_changeDBRoleAndUpStream ex_admin_flags ex_flags kv_api ex_env ex_observed ex_promote ex_served)) = Inr app \<and>
     app_role app = MASTER \<and> app_db app = 1 \<and> app_upstream app = None"
proof -
  let ?run = "async_tm_changeDBRoleAndUpStream ex_admin_flags ex_flags kv_api ex_env ex_observed ex_promote ex_served"
  obtain app where app: "AdminHandler_getDB ''seg00001'' ex_served = Inr app" "app_db app = 1"
    by (rule ex_served_app) metis
  have "released ex_observed" by (simp add: released_def ex_observed_def)
  then show ?thesis
    using changeDBRole_all_or_nothing [OF ex_served_inv, of ex_admin_flags ex_flags kv_api ex_env ex_observed ex_promote
        "fst ?run" "snd ?run"] app
    by (auto simp: ex_promote_def role_of_def getDB_managed)
qed

section \<open>Transferring files in batches\<close>

lemma mset_concat_append_at:
  "i < length bs \<Longrightarrow> mset (concat (bs[i := bs ! i @ [x]])) = add_mset x (mset (concat bs))"
  by (induction bs arbitrary: i) (auto split: nat.split)

lemma file_batches_mset:
  assumes "0 < n"
  shows "mset (concat (file_batches skip n files)) = mset (filter (\<lambda>f. \<not> skip f) files)"
proof -
  define step where "step i batches = (if skip (files ! i) then batches
      else batches[i mod n := batches ! (i mod n) @ [files ! i]])" for i batches
  have "length (fold step [0..<k] (replicate n [])) = n \<and>
      mset (concat (fold step [0..<k] (replicate n []))) = mset (filter (\<lambda>f. \<not> skip f) (take k files))"
    if "k \<le> length files" for k
    using that
  proof (induction k)
    case 0
    show ?case by (induction n) simp_all
  next
    case (Suc k)
    then show ?case using assms
      by (auto simp: step_def take_Suc_conv_app_nth mset_concat_append_at)
  qed
  from this [of "length files"] show ?thesis by (simp add: file_batches_def step_def [abs_def])
qed

text \<open>How a transfer of files goes when the error of each file does not depend on the other files.\<close>

lemma transfer_files_run:
  assumes "\<And>f fs. fst (copy f fs) = err f"
  shows "fst (transfer_files skip copy files fs) = list_all (\<lambda>f. skip f \<or> err f = []) files"
    and "fst (transfer_files skip copy files fs) \<Longrightarrow>
      snd (transfer_files skip copy files fs) = fold (\<lambda>f s. snd (copy f s)) (filter (\<lambda>f. \<not> skip f) files) fs"
  using assms by (induction files arbitrary: fs) (auto simp: split_beta Let_def split: if_splits)

lemma transfer_batches_run:
  assumes "\<And>f fs. fst (copy f fs) = err f"
  shows "list_all (\<lambda>r. r) (fst (transfer_batches copy bs fs)) = list_all (\<lambda>f. err f = []) (concat bs)"
    and "list_all (\<lambda>r. r) (fst (transfer_batches copy bs fs)) \<Longrightarrow>
      snd (transfer_batches copy bs fs) = fold (\<lambda>f s. snd (copy f s)) (concat bs) fs"
proof (induction bs arbitrary: fs)
  case (Cons files bs)
  case 1
  show ?case using Cons(1) transfer_files_run(1) [of copy err "\<lambda>_. False" files, OF assms] by (simp add: split_beta)
  case 2
  then show ?case using Cons(2) transfer_files_run(2) [of copy err "\<lambda>_. False" files fs, OF assms] by (auto simp: split_beta)
qed simp_all

text \<open>
  (C10) Uploading and downloading in parallel batches is equivalent to doing it file by file. The batches contain every
  file that is not skipped exactly once, whatever their number; the transfer succeeds exactly when every such file is
  transferred without error; and then, if transfers of different files do not disturb each other, the outside
  world is as after the sequential transfer.
\<close>

theorem transfer_batches_equiv:
  assumes "\<And>f fs. fst (copy f fs) = err f"
    and "\<And>f g fs. snd (copy f (snd (copy g fs))) = snd (copy g (snd (copy f fs)))"
  shows "fst (transfer_all skip batch_num copy files fs) = fst (transfer_files skip copy files fs) \<and>
    fst (transfer_all skip batch_num copy files fs) = (\<forall>f \<in> set files. skip f \<or> err f = []) \<and>
    (fst (transfer_all skip batch_num copy files fs) \<longrightarrow>
       snd (transfer_all skip batch_num copy files fs) = snd (transfer_files skip copy files fs)) \<and>
    (batch_num > 0 \<longrightarrow> mset (concat (file_batches skip (nat batch_num) files)) = mset (filter (\<lambda>f. \<not> skip f) files))"
proof (cases "batch_num > 1")
  case True
  let ?bs = "file_batches skip (nat batch_num) files"
  have ms: "mset (concat ?bs) = mset (filter (\<lambda>f. \<not> skip f) files)" using file_batches_mset True by simp
  have all: "list_all (\<lambda>f. err f = []) (concat ?bs) = list_all (\<lambda>f. skip f \<or> err f = []) files"
    using mset_eq_setD [OF ms] by (auto simp: list_all_iff)
  have "fold (\<lambda>f s. snd (copy f s)) (concat ?bs) fs = fold (\<lambda>f s. snd (copy f s)) (filter (\<lambda>f. \<not> skip f) files) fs"
    by (rule fun_cong [OF fold_multiset_equiv [OF _ ms]]) (simp add: assms(2) fun_eq_iff)
  then show ?thesis
    using True all ms transfer_files_run [of copy err skip files fs, OF assms(1)] transfer_batches_run [of copy err ?bs fs, OF assms(1)]
    by (simp add: transfer_all_def split_beta list_all_iff)
next
  case False
  then show ?thesis using transfer_files_run(1) [of copy err skip files fs, OF assms(1)] file_batches_mset
    by (auto simp: transfer_all_def list_all_iff)
qed

theorem transfer_batches_equiv_witness:
  "transfer_all is_dot_dir 2 (\<lambda>f fs. ([], fs + length f)) [''.'', ''a'', ''bb'', ''ccc''] 0 = (True, 6) \<and>
   file_batches is_dot_dir 2 [''.'', ''a'', ''bb'', ''ccc''] = [[''bb''], [''a'', ''ccc'']]"
proof -
  have "fst (transfer_all is_dot_dir 2 (\<lambda>f fs. ([], fs + length f)) [''.'', ''a'', ''bb'', ''ccc''] 0) \<and>
     snd (transfer_all is_dot_dir 2 (\<lambda>f fs. ([], fs + length f)) [''.'', ''a'', ''bb'', ''ccc''] 0) =
     snd (transfer_files is_dot_dir (\<lambda>f fs. ([], fs + length f)) [''.'', ''a'', ''bb'', ''ccc''] (0::nat))"
    using transfer_batches_equiv [of "\<lambda>f fs. ([], fs + length f)" "\<lambda>_. []" is_dot_dir 2 "[''.'', ''a'', ''bb'', ''ccc'']" 0] by simp
  moreover have "snd (transfer_files is_dot_dir (\<lambda>f fs. ([], fs + length f)) [''.'', ''a'', ''bb'', ''ccc''] (0::nat)) = 6"
    by (simp add: is_dot_dir_def)
  moreover have "file_batches is_dot_dir 2 [''.'', ''a'', ''bb'', ''ccc''] = [[''bb''], [''a'', ''ccc'']]" by code_simp
  ultimately show ?thesis by (simp add: prod_eq_iff)
qed

section \<open>Rate limits\<close>



section \<open>Loading SST files twice\<close>

text \<open>What the handler relies on of its meta database and of the serialization of its records.\<close>

definition meta_store_spec :: "('db, 'fs, 'opts) admin_env \<Rightarrow> db_meta_data \<Rightarrow> bool" where
  "meta_store_spec env meta \<longleftrightarrow>
    (\<forall>db k v. fst (env_Put env db k v) = StOk \<and> env_Get env (snd (env_Put env db k v)) k = (StOk, v)) \<and>
    env_deserialize_meta env (env_serialize_meta env meta) = meta"

text \<open>What a handler that succeeds has established.\<close>

definition yields :: "('a \<Rightarrow> 'w \<Rightarrow> bool) \<Rightarrow> 'a reply \<times> 'w \<Rightarrow> bool" where
  "yields Q rw \<longleftrightarrow> (\<forall>x w. rw = (Result x, w) \<longrightarrow> Q x w)"

lemma yields_and_then:
  assumes "yields Q rw" "\<And>x w. Q x w \<Longrightarrow> yields R (k x w)"
  shows "yields R (and_then rw k)"
proof (cases rw)
  case (Pair out w)
  with assms show ?thesis by (cases out) (auto simp: and_then_def yields_def)
qed

lemma yields_scope_exit:
  assumes "yields Q rw" "\<And>x w. Q x w \<Longrightarrow> R x (f w)"
  shows "yields R (scope_exit f rw)"
proof (cases rw)
  case (Pair out w)
  with assms show ?thesis by (cases out) (auto simp: scope_exit_def yields_def)
qed

lemma yields_simps [simp]:
  "yields Q (Result x, w) = Q x w" "yields Q (Exception e, w)" "yields Q (Thrown c, w)" "yields Q (Waiting, w)" "yields Q (Aborted, w)"
  by (simp_all add: yields_def)

lemma run_ok_yields: "run_ok P Q rw \<Longrightarrow> yields Q rw"
  by (cases rw; cases "fst rw") auto

definition hosts :: "string \<Rightarrow> application_db \<Rightarrow> ('db, 'it, 'fs) admin_handler \<Rightarrow> bool" where
  "hosts name db w \<longleftrightarrow> admin_inv w \<and> AdminHandler_getDB name w = Inr db"

lemma hosts_simps [simp]:
  "hosts name db (w\<lparr>outside := a\<rparr>) = hosts name db w" "hosts name db (w\<lparr>db_heap := b\<rparr>) = hosts name db w"
  "hosts name db (w\<lparr>s3_util := c\<rparr>) = hosts name db w" "hosts name db (w\<lparr>num_current_s3_sst_downloadings := d\<rparr>) = hosts name db w"
  by (simp_all add: hosts_def AdminHandler_getDB_def)

lemma hosts_admin_inv: "hosts name db w \<Longrightarrow> admin_inv (snd (clearMetaData env n w))"
  by (simp add: hosts_def clearMetaData_def split_beta)

lemma hosts_not_meta: "hosts name db w \<Longrightarrow> app_db db \<noteq> meta_db w"
  by (force simp: hosts_def getDB_managed admin_inv_def pointers_ok_def dest: map_of_SomeD)

lemma hosts_clearMetaData [simp]: "hosts name db (snd (clearMetaData env n w)) = hosts name db w"
  by (simp add: clearMetaData_def split_beta)

lemma yields_download:
  assumes "hosts name db w"
  shows "yields (\<lambda>_. hosts name db) (download_sst_files af env obs request path w)"
  unfolding download_sst_files_def Let_def
  by (rule yields_and_then [where Q = "\<lambda>_. hosts name db"])
    (use assms in \<open>auto simp: createLocalS3Util_def split_beta split: option.split\<close>)

lemma yields_recreate:
  assumes "admin_inv w"
  shows "yields (hosts name) (recreate_db af fl api env obs name db w)"
proof -
  have "yields (\<lambda>_. serving (num_current_s3_sst_downloadings w) (num_current_s3_sst_uploadings w)) (recreate_db af fl api env obs name db w)"
    by (rule run_ok_yields [OF safe_recreate_db [OF admin_inv_serving [OF assms]]])
  moreover have "yields (\<lambda>db w. AdminHandler_getDB name w = Inr db) (recreate_db af fl api env obs name db w)"
    unfolding recreate_db_def Let_def
    by (auto simp: split_beta intro!: yields_and_then [where Q = "\<lambda>_ _. True"] split: sum.split option.split)
      (auto simp: yields_def)
  ultimately show ?thesis by (auto simp: yields_def hosts_def serving_def)
qed

definition loaded :: "('db, 'fs, 'opts) admin_env \<Rightarrow> add_s3_sst_request \<Rightarrow> ('db, 'it, 'fs) admin_handler \<Rightarrow> bool" where
  "loaded env request w \<longleftrightarrow> (\<exists>db. AdminHandler_getDB (ss_db_name request) w = Inr db) \<and>
     already_hosting (getMetaData env (ss_db_name request) w) request"

lemma loaded_simps [simp]:
  "loaded env request (w\<lparr>num_current_s3_sst_downloadings := k\<rparr>) = loaded env request w"
  "loaded env request (remove_directory env path w) = loaded env request w"
  by (simp_all add: loaded_def remove_directory_def getMetaData_def AdminHandler_getDB_def)

lemma loaded_writeMetaData:
  assumes "hosts (ss_db_name request) db w"
    and "meta_store_spec env \<lparr>meta_db_name = ss_db_name request, meta_s3_bucket = Some (ss_s3_bucket request),
      meta_s3_path = Some (ss_s3_path request), meta_last_kafka_msg_timestamp_ms = Some (-1)\<rparr>"
    and "v = snd (writeMetaData env (ss_db_name request) (ss_s3_bucket request) (ss_s3_path request) (-1) w)"
  shows "loaded env request v" "loaded env request (v\<lparr>db_heap := (db_heap v)(app_db db := x)\<rparr>)"
  using assms(2,3) hosts_not_meta [OF assms(1)] assms(1)
  by (auto simp: loaded_def writeMetaData_def getMetaData_def meta_store_spec_def already_hosting_def status_ok_def hosts_def
      AdminHandler_getDB_def split_beta)


definition ex_load :: add_s3_sst_request where
  "ex_load = \<lparr>ss_db_name = ''seg00001'', ss_s3_bucket = ''bucket'', ss_s3_path = ''path'', ss_download_limit_mb = 10\<rparr>"


section \<open>Starting Kafka ingestion\<close>

text \<open>
  (C35) When the consumer cannot be positioned at the requested timestamp, \<open>startMessageIngestion\<close> answers with success
  although nothing is or ever will be ingested: no message has reached any database, the watcher it has entered has
  no thread, so it does nothing from then on, and a further request for this database is refused as
  already being consumed.
\<close>

theorem startMessageIngestion_failed_seek_is_silent:
  assumes "AdminHandler_getDB (si_db_name request) w = Inr db" "kafka_watcher_map w (si_db_name request) = None"
    and "ExtractShardId (env_to_int env) (si_db_name request) \<noteq> -1" "cv_healthy (obs_consumer obs)"
    and "meta_last_kafka_msg_timestamp_ms (getMetaData env (si_db_name request) w) = ts"
    and "\<not> InitKafkaConsumerSeek (obs_consumer obs) (max (case ts of None \<Rightarrow> 0 | Some t \<Rightarrow> t) (si_replay_timestamp_ms request))"
  shows "\<exists>w'. async_tm_startMessageIngestion af env obs request w = (Result (), w') \<and> db_heap w' = db_heap w \<and>
    kafka_watcher_map w' (si_db_name request) \<noteq> None \<and> (\<forall>obs'. kafka_thread af env obs' (si_db_name request) w' = w') \<and>
    (\<forall>obs'. async_tm_startMessageIngestion af env obs' request w' =
      (Exception (admin_error DB_ADMIN_ERROR (si_db_name request @ '' is already being consumed'')), w'))"
proof -
  let ?run = "async_tm_startMessageIngestion af env obs request w"
  have "fst ?run = Result () \<and> db_heap (snd ?run) = db_heap w \<and>
      AdminHandler_getDB (si_db_name request) (snd ?run) = Inr db \<and>
      (\<exists>kw. kafka_watcher_map (snd ?run) (si_db_name request) = Some kw \<and> \<not> kw_thread kw)"
    using assms by (simp add: async_tm_startMessageIngestion_def Let_def KafkaWatcher_Start_def store_watcher_def watcher_of_def
        AdminHandler_getDB_def)
  then show ?thesis
    by (intro exI [of _ "snd ?run"]) (auto simp: prod_eq_iff kafka_thread_def async_tm_startMessageIngestion_def [of _ _ _ _ "snd ?run"] Let_def)
qed

theorem startMessageIngestion_failed_seek_is_silent_witness:
  "\<exists>w'. async_tm_startMessageIngestion ex_admin_flags ex_env (ex_observed\<lparr>obs_consumer := ex_consumer\<lparr>cv_seek := \<lambda>_ _. False\<rparr>\<rparr>)
      \<lparr>si_db_name = ''seg00001'', si_topic_name = ''t'', si_serverset_path = ''s'', si_replay_timestamp_ms = 5,
       si_is_kafka_payload_serialized = True\<rparr> ex_served = (Result (), w') \<and> db_heap w' = db_heap ex_served"
proof -
  let ?rq = "\<lparr>si_db_name = ''seg00001'', si_topic_name = ''t'', si_serverset_path = ''s'', si_replay_timestamp_ms = 5,
       si_is_kafka_payload_serialized = True\<rparr>"
  let ?obs = "ex_observed\<lparr>obs_consumer := ex_consumer\<lparr>cv_seek := \<lambda>_ _. False\<rparr>\<rparr>"
  obtain app where "AdminHandler_getDB ''seg00001'' ex_served = Inr app" by (rule ex_served_app)
  moreover have "kafka_watcher_map ex_served = Map.empty" by (rule ex_served_fields)
  moreover have "ExtractShardId (env_to_int ex_env) ''seg00001'' \<noteq> -1" unfolding ex_env_def by code_simp
  moreover have "\<not> InitKafkaConsumerSeek (obs_consumer ?obs) (max k 5)" for k
    by (simp add: InitKafkaConsumerSeek_def ex_consumer_def)
  moreover have "cv_healthy (obs_consumer ?obs)" by (simp add: ex_consumer_def)
  ultimately show ?thesis
    using startMessageIngestion_failed_seek_is_silent [of ?rq ex_served app ex_env ?obs _ ex_admin_flags] by auto
qed

end
