(* ===== verification/Cluster_Layout.thy ===== *)
theory Cluster_Layout
  imports Admin_Utils
begin

text \<open>
  \<open>common/thrift_router.cpp\<close>: the parser of shard maps. A layout has a set of hosts, allocated one by one, and per
  segment and shard the pointers to its hosts with their roles. The heap of \<open>Host\<close> objects is explicit, because the
  parser erases and inserts again a host that occurs in several segments, while pointers to it have been stored.
  jsoncpp and \<open>folly::SocketAddress\<close> are not part of the repository: the parsed text is a \<open>json\<close> value, and an address is what
  \<open>setFromIpPort\<close> yields.
\<close>

section \<open>Data\<close>

datatype router_role = R_MASTER | R_SLAVE | R_ANY

text \<open>
  A \<open>Json::Value\<close> as the parser looks at it: \<open>JInt\<close> is a value for which \<open>isInt()\<close> holds, \<open>JOther\<close> one that is none of
  these (null, a boolean, another number). The members of an object are listed in the order of \<open>getMemberNames\<close>.
\<close>

datatype json = JInt int | JString string | JArray "json list" | JObject "(string \<times> json) list" | JOther

record 'a host =
  h_addr :: 'a
  groups_prefix_lengths :: "string \<rightharpoonup> u16"

type_synonym shard_hosts = "(nat \<times> router_role) list list"

record 'a cluster_layout =
  segments :: "(string \<times> shard_hosts) list"
  all_hosts :: "('a \<times> nat) list"
  host_heap :: "nat \<rightharpoonup> 'a host"

definition ClusterLayout_ctor :: "'a cluster_layout" where
  "ClusterLayout_ctor = \<lparr>segments = [], all_hosts = [], host_heap = Map.empty\<rparr>"

datatype 'a parsed = Parsed 'a | Nullptr | JsonAssertion

section \<open>Helpers of the parser\<close>

text \<open>\<open>atoi\<close> of the C library, through a 64 bit \<open>strtol\<close>.\<close>

definition is_space :: "char \<Rightarrow> bool" where
  "is_space c \<longleftrightarrow> c \<in> {CHR '' '', CHR 0x09, CHR 0x0A, CHR 0x0B, CHR 0x0C, CHR 0x0D}"

definition atoi :: "string \<Rightarrow> int" where
  "atoi str =
    (let s = dropWhile is_space (takeWhile (\<lambda>c. c \<noteq> CHR 0x00) str);
         (negative, digits) = (case s of
            [] \<Rightarrow> (False, [])
          | c # cs \<Rightarrow> if c = CHR ''-'' then (True, cs) else if c = CHR ''+'' then (False, cs) else (False, s));
         n = int (digits_value (takeWhile is_digit digits));
         v = (if negative then - n else n)
     in signed_take_bit 31 (max (- (2 ^ 63)) (min (2 ^ 63 - 1) v)))"

text \<open>The length of the common prefix, \<open>distance(begin, mismatch(...).first)\<close>.\<close>

fun common_prefix_length :: "string \<Rightarrow> string \<Rightarrow> nat" where
  "common_prefix_length (x # xs) (y # ys) = (if x = y then Suc (common_prefix_length xs ys) else 0)"
| "common_prefix_length _ _ = 0"

definition parseHost :: "(string \<Rightarrow> u16 \<Rightarrow> 'a option) \<Rightarrow> string \<Rightarrow> string \<Rightarrow> string \<Rightarrow> 'a host option" where
  "parseHost setFromIpPort str segment local_group =
    (let tokens = split_at CHR '':'' str
     in if length tokens < 2 \<or> length tokens > 3 then None
        else let port = word_of_int (atoi (tokens ! 1))
             in case setFromIpPort (tokens ! 0) port of
                  None \<Rightarrow> None
                | Some addr \<Rightarrow>
                    let group = (if length tokens = 3 then tokens ! 2 else [])
                    in Some \<lparr>h_addr = addr,
                         groups_prefix_lengths = [segment \<mapsto> of_nat (common_prefix_length group local_group)]\<rparr>)"

definition parseShard :: "string \<Rightarrow> (router_role \<times> u32) option" where
  "parseShard str =
    (let tokens = split_at CHR '':'' str
     in if length tokens < 1 \<or> length tokens > 2 then None
        else Some (if length tokens = 2 \<and> tokens ! 1 = ''S'' then R_SLAVE else R_MASTER, word_of_int (atoi (tokens ! 0))))"

section \<open>The parser\<close>

text \<open>
  Entering a host. One with the same address is erased and its prefix lengths are kept, those of the new host having
  precedence. \<open>alloc\<close> is the memory allocator: it gets the block that has just been freed, if there is one, and the blocks in use.
\<close>

type_synonym allocator = "nat option \<Rightarrow> nat list \<Rightarrow> nat"

definition enter_host :: "allocator \<Rightarrow> 'a host \<Rightarrow> 'a cluster_layout \<Rightarrow> nat \<times> 'a cluster_layout" where
  "enter_host alloc host cl =
    (let (freed, host, cl) = (case map_of (all_hosts cl) (h_addr host) of
           None \<Rightarrow> (None, host, cl)
         | Some p \<Rightarrow>
             (Some p,
              host\<lparr>groups_prefix_lengths := groups_prefix_lengths (the (host_heap cl p)) ++ groups_prefix_lengths host\<rparr>,
              cl\<lparr>all_hosts := filter (\<lambda>(a, _). a \<noteq> h_addr host) (all_hosts cl), host_heap := (host_heap cl)(p := None)\<rparr>));
         q = alloc freed (map snd (all_hosts cl))
     in (q, cl\<lparr>all_hosts := (h_addr host, q) # all_hosts cl, host_heap := (host_heap cl)(q \<mapsto> host)\<rparr>))"

text \<open>The shards of a host. The lists of the current segment are threaded through the loops.\<close>

fun parse_shard_list :: "u32 \<Rightarrow> nat \<Rightarrow> json list \<Rightarrow> shard_hosts \<Rightarrow> shard_hosts option" where
  "parse_shard_list shard_number pHost [] shards = Some shards"
| "parse_shard_list shard_number pHost (shard # shard_list) shards =
    (case shard of
       JString shard_str \<Rightarrow>
         (case parseShard shard_str of
            None \<Rightarrow> None
          | Some (role, shard_id) \<Rightarrow>
              if shard_id \<ge> shard_number then None
              else parse_shard_list shard_number pHost shard_list
                (shards[unat shard_id := shards ! unat shard_id @ [(pHost, role)]]))
     | _ \<Rightarrow> None)"

definition is_shard_number_key :: "string \<Rightarrow> bool" where
  "is_shard_number_key k \<longleftrightarrow> k = ''num_leaf_segments'' \<or> k = ''num_shards''"

text \<open>\<open>shard_list\<close> of a member: only an array can be indexed by a number; a value of another type has size 0, but an object
  has the size of its members.\<close>

fun parse_hosts ::
  "(string \<Rightarrow> u16 \<Rightarrow> 'a option) \<Rightarrow> allocator \<Rightarrow> string \<Rightarrow> string \<Rightarrow> u32 \<Rightarrow> (string \<times> json) list \<Rightarrow> shard_hosts \<Rightarrow> 'a cluster_layout \<Rightarrow>
   (shard_hosts \<times> 'a cluster_layout) parsed" where
  "parse_hosts setFromIpPort alloc local_group segment shard_number [] shards cl = Parsed (shards, cl)"
| "parse_hosts setFromIpPort alloc local_group segment shard_number ((host_port_group, shard_list) # members) shards cl =
    (if is_shard_number_key host_port_group
     then parse_hosts setFromIpPort alloc local_group segment shard_number members shards cl
     else case parseHost setFromIpPort host_port_group segment local_group of
            None \<Rightarrow> Nullptr
          | Some host \<Rightarrow>
              let (pHost, cl) = enter_host alloc host cl
              in case shard_list of
                   JObject (_ # _) \<Rightarrow> JsonAssertion
                 | _ \<Rightarrow>
                     (case parse_shard_list shard_number pHost (case shard_list of JArray xs \<Rightarrow> xs | _ \<Rightarrow> []) shards of
                        None \<Rightarrow> Nullptr
                      | Some shards \<Rightarrow> parse_hosts setFromIpPort alloc local_group segment shard_number members shards cl))"

definition shard_number_of :: "(string \<times> json) list \<Rightarrow> u32 option" where
  "shard_number_of members =
    (case map_of members ''num_leaf_segments'' of
       Some (JInt n) \<Rightarrow> Some (word_of_int n)
     | _ \<Rightarrow> (case map_of members ''num_shards'' of
               Some (JInt n) \<Rightarrow> Some (word_of_int n)
             | _ \<Rightarrow> None))"

fun parse_segments ::
  "(string \<Rightarrow> u16 \<Rightarrow> 'a option) \<Rightarrow> allocator \<Rightarrow> string \<Rightarrow> (string \<times> json) list \<Rightarrow> 'a cluster_layout \<Rightarrow> 'a cluster_layout parsed" where
  "parse_segments setFromIpPort alloc local_group [] cl = Parsed cl"
| "parse_segments setFromIpPort alloc local_group ((segment, segment_value) # root) cl =
    (case segment_value of
       JObject members \<Rightarrow>
         (case shard_number_of members of
            None \<Rightarrow> Nullptr
          | Some shard_number \<Rightarrow>
              (case parse_hosts setFromIpPort alloc local_group segment shard_number members (replicate (unat shard_number) []) cl of
                 Nullptr \<Rightarrow> Nullptr
               | JsonAssertion \<Rightarrow> JsonAssertion
               | Parsed (shards, cl) \<Rightarrow>
                   parse_segments setFromIpPort alloc local_group root (cl\<lparr>segments := segments cl @ [(segment, shards)]\<rparr>)))
     | _ \<Rightarrow> Nullptr)"

definition parseConfig ::
  "(string \<Rightarrow> json option) \<Rightarrow> (string \<Rightarrow> u16 \<Rightarrow> 'a option) \<Rightarrow> allocator \<Rightarrow> string \<Rightarrow> string \<Rightarrow> 'a cluster_layout parsed" where
  "parseConfig parse setFromIpPort alloc content local_group =
    (case parse content of
       Some (JObject root) \<Rightarrow> parse_segments setFromIpPort alloc local_group root ClusterLayout_ctor
     | _ \<Rightarrow> Nullptr)"

section \<open>What a shard map says\<close>

text \<open>
  The reading of a shard map that the parser implements: which roles a value gives to a shard, which addresses a segment
  lists for a shard, and when a map is well formed.
\<close>

definition shard_entry :: "json \<Rightarrow> (router_role \<times> u32) option" where
  "shard_entry j = (case j of JString str \<Rightarrow> parseShard str | _ \<Rightarrow> None)"

definition array_of :: "json \<Rightarrow> json list" where
  "array_of j = (case j of JArray xs \<Rightarrow> xs | _ \<Rightarrow> [])"

definition listed_roles :: "json list \<Rightarrow> nat \<Rightarrow> router_role list" where
  "listed_roles xs i = map fst (filter (\<lambda>(_, shard). unat shard = i) (List.map_filter shard_entry xs))"

definition host_address :: "(string \<Rightarrow> u16 \<Rightarrow> 'a option) \<Rightarrow> string \<Rightarrow> 'a option" where
  "host_address setFromIpPort key = map_option h_addr (parseHost setFromIpPort key [] [])"

definition listed :: "(string \<Rightarrow> u16 \<Rightarrow> 'a option) \<Rightarrow> (string \<times> json) list \<Rightarrow> nat \<Rightarrow> ('a \<times> router_role) list" where
  "listed setFromIpPort members i =
    concat (map (\<lambda>(key, v). if is_shard_number_key key then []
      else map (Pair (the (host_address setFromIpPort key))) (listed_roles (array_of v) i)) members)"

definition member_ok :: "(string \<Rightarrow> u16 \<Rightarrow> 'a option) \<Rightarrow> u32 \<Rightarrow> string \<times> json \<Rightarrow> bool" where
  "member_ok setFromIpPort n kv \<longleftrightarrow> is_shard_number_key (fst kv) \<or>
    \<not> Option.is_none (host_address setFromIpPort (fst kv)) \<and> (case snd kv of JObject (_ # _) \<Rightarrow> False | _ \<Rightarrow> True) \<and>
    list_all (\<lambda>j. case shard_entry j of None \<Rightarrow> False | Some (_, shard) \<Rightarrow> shard < n) (array_of (snd kv))"

definition segment_ok :: "(string \<Rightarrow> u16 \<Rightarrow> 'a option) \<Rightarrow> json \<Rightarrow> bool" where
  "segment_ok setFromIpPort v \<longleftrightarrow>
    (case v of
       JObject members \<Rightarrow> (case shard_number_of members of None \<Rightarrow> False | Some n \<Rightarrow> list_all (member_ok setFromIpPort n) members)
     | _ \<Rightarrow> False)"

section \<open>The heap of hosts\<close>

text \<open>
  \<open>malloc\<close> never hands out a block in use. The parser is right about its pointers if, in addition, a block is handed out
  again when it has just been freed for an object of the same size.
\<close>

definition alloc_fresh :: "allocator \<Rightarrow> bool" where
  "alloc_fresh alloc \<longleftrightarrow> (\<forall>freed used. alloc freed used \<notin> set used)"

definition alloc_reuses :: "allocator \<Rightarrow> bool" where
  "alloc_reuses alloc \<longleftrightarrow> (\<forall>p used. p \<notin> set used \<longrightarrow> alloc (Some p) used = p)"

definition layout_ok :: "'a cluster_layout \<Rightarrow> bool" where
  "layout_ok cl \<longleftrightarrow> distinct (map fst (all_hosts cl)) \<and>
    (\<forall>a p. map_of (all_hosts cl) a = Some p \<longleftrightarrow> (\<exists>h. host_heap cl p = Some h \<and> h_addr h = a))"

text \<open>A later heap: no host is lost, moved or readdressed, and none forgets a segment.\<close>

definition heap_le :: "(nat \<rightharpoonup> 'a host) \<Rightarrow> (nat \<rightharpoonup> 'a host) \<Rightarrow> bool" where
  "heap_le H H' \<longleftrightarrow> (\<forall>p h. H p = Some h \<longrightarrow>
     (\<exists>h'. H' p = Some h' \<and> h_addr h' = h_addr h \<and> dom (groups_prefix_lengths h) \<subseteq> dom (groups_prefix_lengths h')))"

lemma heap_le_refl [simp]: "heap_le H H" by (auto simp: heap_le_def)

lemma heap_leD:
  assumes "heap_le H H'" "H p = Some h"
  obtains h' where "H' p = Some h'" "h_addr h' = h_addr h" "dom (groups_prefix_lengths h) \<subseteq> dom (groups_prefix_lengths h')"
  using assms unfolding heap_le_def by blast

lemma heap_le_trans:
  assumes "heap_le H H'" "heap_le H' H''"
  shows "heap_le H H''"
  unfolding heap_le_def
proof (intro allI impI)
  fix p h assume "H p = Some h"
  from heap_leD [OF assms(1) this] obtain h' where h': "H' p = Some h'" "h_addr h' = h_addr h"
    "dom (groups_prefix_lengths h) \<subseteq> dom (groups_prefix_lengths h')" .
  from heap_leD [OF assms(2) h'(1)] obtain h'' where "H'' p = Some h''" "h_addr h'' = h_addr h'"
    "dom (groups_prefix_lengths h') \<subseteq> dom (groups_prefix_lengths h'')" .
  with h' show "\<exists>h'. H'' p = Some h' \<and> h_addr h' = h_addr h \<and> dom (groups_prefix_lengths h) \<subseteq> dom (groups_prefix_lengths h')"
    by (intro exI [of _ h'']) simp
qed

definition shards_ok :: "string \<Rightarrow> (nat \<rightharpoonup> 'a host) \<Rightarrow> shard_hosts \<Rightarrow> bool" where
  "shards_ok seg H shards \<longleftrightarrow>
    (\<forall>i p r. i < length shards \<and> (p, r) \<in> set (shards ! i) \<longrightarrow> (\<exists>h. H p = Some h \<and> seg \<in> dom (groups_prefix_lengths h)))"

definition deref :: "(nat \<rightharpoonup> 'a host) \<Rightarrow> (nat \<times> router_role) list \<Rightarrow> ('a \<times> router_role) list" where
  "deref H = map (\<lambda>(p, r). (h_addr (the (H p)), r))"

lemma deref_simps [simp]: "deref H [] = []" "deref H (xs @ ys) = deref H xs @ deref H ys"
  "H p = Some h \<Longrightarrow> deref H (map (Pair p) rs) = map (Pair (h_addr h)) rs"
  by (simp_all add: deref_def)

lemma shards_okD:
  assumes "shards_ok seg H shards" "i < length shards" "(p, r) \<in> set (shards ! i)"
  obtains h where "H p = Some h" "seg \<in> dom (groups_prefix_lengths h)"
  using assms unfolding shards_ok_def by blast

lemma shards_ok_le:
  assumes "shards_ok seg H shards" "heap_le H H'"
  shows "shards_ok seg H' shards" "i < length shards \<Longrightarrow> deref H' (shards ! i) = deref H (shards ! i)"
proof -
  have *: "\<exists>h. H' p = Some h \<and> seg \<in> dom (groups_prefix_lengths h) \<and> h_addr h = h_addr (the (H p))"
    if "i < length shards" "(p, r) \<in> set (shards ! i)" for i p r
  proof -
    from shards_okD [OF assms(1) that] obtain h where h: "H p = Some h" "seg \<in> dom (groups_prefix_lengths h)" .
    from heap_leD [OF assms(2) h(1)] obtain h' where "H' p = Some h'" "h_addr h' = h_addr h"
      "dom (groups_prefix_lengths h) \<subseteq> dom (groups_prefix_lengths h')" .
    with h show ?thesis by (intro exI [of _ h']) auto
  qed
  then show "shards_ok seg H' shards" unfolding shards_ok_def by blast
  show "deref H' (shards ! i) = deref H (shards ! i)" if "i < length shards"
    unfolding deref_def by (rule map_cong [OF refl]) (use * [OF that] in force)
qed

lemma enter_host:
  assumes "layout_ok cl" "alloc_fresh alloc" "alloc_reuses alloc" "enter_host alloc host cl = (q, cl')"
  shows "layout_ok cl'" "heap_le (host_heap cl) (host_heap cl')" "segments cl' = segments cl"
    and "\<exists>h. host_heap cl' q = Some h \<and> h_addr h = h_addr host \<and> dom (groups_prefix_lengths host) \<subseteq> dom (groups_prefix_lengths h)"
proof -
  have ok: "map_of (all_hosts cl) a = Some p \<longleftrightarrow> (\<exists>h. host_heap cl p = Some h \<and> h_addr h = a)" for a p
    using assms(1) by (simp add: layout_ok_def)
  have d: "distinct (map fst (all_hosts cl))" using assms(1) by (simp add: layout_ok_def)
  have used: "host_heap cl p = Some h \<and> h_addr h = a \<Longrightarrow> (a, p) \<in> set (all_hosts cl)"
    "(a, p) \<in> set (all_hosts cl) \<Longrightarrow> \<exists>h. host_heap cl p = Some h \<and> h_addr h = a" for a p h
    using ok [of a p] d by (auto simp: map_of_eq_Some_iff)
  let ?a = "h_addr host"
  obtain h where h: "h_addr h = ?a" "dom (groups_prefix_lengths host) \<subseteq> dom (groups_prefix_lengths h)"
    and q: "all_hosts cl' = (?a, q) # filter (\<lambda>(a, _). a \<noteq> ?a) (all_hosts cl)" "host_heap cl' = (host_heap cl)(q \<mapsto> h)"
      "segments cl' = segments cl" "map_of (all_hosts cl) ?a = Some q \<or> map_of (all_hosts cl) ?a = None \<and> host_heap cl q = None"
      "\<And>g. host_heap cl q = Some g \<Longrightarrow> dom (groups_prefix_lengths g) \<subseteq> dom (groups_prefix_lengths h)"
  proof (cases "map_of (all_hosts cl) ?a")
    case None
    then have "filter (\<lambda>(a, _). a \<noteq> ?a) (all_hosts cl) = all_hosts cl" by (force simp: filter_id_conv map_of_eq_None_iff)
    moreover from None assms(4) have q: "q = alloc None (map snd (all_hosts cl))" by (simp add: enter_host_def Let_def)
    then have "q \<notin> snd ` set (all_hosts cl)" using assms(2) unfolding alloc_fresh_def by (metis set_map)
    then have "host_heap cl q = None" using used(1) [of q] by (cases "host_heap cl q") force+
    ultimately show thesis using None assms(4) q by (intro that [of host]) (auto simp: enter_host_def Let_def)
  next
    case (Some p)
    with ok obtain g where g: "host_heap cl p = Some g" by blast
    have "p \<notin> snd ` set (filter (\<lambda>(a, _). a \<noteq> ?a) (all_hosts cl))" using used(2) [of _ p] Some ok [of ?a p] by force
    with g Some assms(3,4) show thesis
      by (intro that [of "host\<lparr>groups_prefix_lengths := groups_prefix_lengths g ++ groups_prefix_lengths host\<rparr>"])
        (auto simp: enter_host_def Let_def alloc_reuses_def)
  qed
  show "segments cl' = segments cl" by (rule q)
  show "\<exists>h. host_heap cl' q = Some h \<and> h_addr h = ?a \<and> dom (groups_prefix_lengths host) \<subseteq> dom (groups_prefix_lengths h)"
    using h by (simp add: q(2))
  have old: "h_addr g = ?a" if "host_heap cl q = Some g" for g using q(4) ok [of ?a q] that by auto
  show "heap_le (host_heap cl) (host_heap cl')" unfolding heap_le_def
  proof (intro allI impI)
    fix p g assume g: "host_heap cl p = Some g"
    show "\<exists>h'. host_heap cl' p = Some h' \<and> h_addr h' = h_addr g \<and> dom (groups_prefix_lengths g) \<subseteq> dom (groups_prefix_lengths h')"
    proof (cases "p = q")
      case True
      with g have "host_heap cl q = Some g" by simp
      from q(5) [OF this] old [OF this] h(1) True show ?thesis by (intro exI [of _ h]) (simp add: q(2))
    qed (simp add: q(2) g)
  qed
  have "distinct (map fst (all_hosts cl'))" using d by (auto simp: q(1) distinct_map_filter)
  moreover have "map_of (all_hosts cl') a = Some p \<longleftrightarrow> (\<exists>h. host_heap cl' p = Some h \<and> h_addr h = a)" for a p
  proof -
    have "map_of (all_hosts cl') a = (if a = ?a then Some q else map_of (all_hosts cl) a)"
      by (simp add: q(1) map_of_filter_neq)
    then show "map_of (all_hosts cl') a = Some p \<longleftrightarrow> (\<exists>h. host_heap cl' p = Some h \<and> h_addr h = a)"
      using ok [of a p] ok [of ?a q] q(4) h(1) by (cases "a = ?a"; cases "p = q") (auto simp: q(2))
  qed
  ultimately show "layout_ok cl'" by (simp add: layout_ok_def)
qed

section \<open>The parser is right\<close>

lemma listed_roles_Cons: "listed_roles (x # xs) i =
    (case shard_entry x of None \<Rightarrow> [] | Some (role, shard) \<Rightarrow> if unat shard = i then [role] else []) @ listed_roles xs i"
  by (auto simp: listed_roles_def List.map_filter_def split: option.split)

lemma parse_shard_list_None: "parse_shard_list n p xs shards = None \<longleftrightarrow>
    \<not> list_all (\<lambda>j. case shard_entry j of None \<Rightarrow> False | Some (_, shard) \<Rightarrow> shard < n) xs"
  by (induction xs arbitrary: shards) (auto simp: shard_entry_def split: json.splits option.splits)

lemma parse_shard_list_Some:
  assumes "parse_shard_list n p xs shards = Some shards'" "length shards = unat n"
  shows "length shards' = unat n \<and> (\<forall>i < unat n. shards' ! i = shards ! i @ map (Pair p) (listed_roles xs i))"
  using assms
proof (induction xs arbitrary: shards)
  case Nil
  then show ?case by (simp add: listed_roles_def List.map_filter_def)
next
  case (Cons x xs)
  from Cons.prems(1) obtain str role shard where x: "x = JString str" "parseShard str = Some (role, shard)" "shard < n"
    "parse_shard_list n p xs (shards[unat shard := shards ! unat shard @ [(p, role)]]) = Some shards'"
    by (auto split: json.splits option.splits if_splits)
  then have "unat shard < unat n" by (simp add: word_less_nat_alt)
  with Cons.IH [OF x(4)] Cons.prems(2) x show ?case by (auto simp: listed_roles_Cons shard_entry_def nth_list_update)
qed

lemma parseHost_address: "parseHost setFromIpPort key segment lg = None \<longleftrightarrow> host_address setFromIpPort key = None"
  "parseHost setFromIpPort key segment lg = Some h \<Longrightarrow>
     host_address setFromIpPort key = Some (h_addr h) \<and> dom (groups_prefix_lengths h) = {segment}"
  by (auto simp: parseHost_def host_address_def Let_def split: option.splits if_splits)

text \<open>One segment: what the loop over the hosts has done when it has run through.\<close>

lemma parse_hosts_Parsed:
  assumes "parse_hosts setFromIpPort alloc lg seg n members shards cl = Parsed (shards', cl')"
    and "alloc_fresh alloc" "alloc_reuses alloc" "layout_ok cl" "shards_ok seg (host_heap cl) shards" "length shards = unat n"
  shows "layout_ok cl' \<and> heap_le (host_heap cl) (host_heap cl') \<and> segments cl' = segments cl \<and>
    shards_ok seg (host_heap cl') shards' \<and> length shards' = unat n \<and>
    (\<forall>i < unat n. deref (host_heap cl') (shards' ! i) = deref (host_heap cl) (shards ! i) @ listed setFromIpPort members i)"
  using assms
proof (induction members arbitrary: shards cl)
  case Nil
  then show ?case by (auto simp: listed_def)
next
  case (Cons kv members)
  obtain key v where kv: "kv = (key, v)" by fastforce
  show ?case
  proof (cases "is_shard_number_key key")
    case True
    with Cons.IH [OF _ Cons.prems(2-6)] Cons.prems(1) kv show ?thesis by (simp add: listed_def)
  next
    case False
    with Cons.prems(1) kv obtain host where host: "parseHost setFromIpPort key seg lg = Some host"
      by (auto split: option.splits)
    obtain q cl1 where q: "enter_host alloc host cl = (q, cl1)" by fastforce
    with Cons.prems(1) kv False host obtain shards1 where
      sl: "parse_shard_list n q (array_of v) shards = Some shards1"
      and rec: "parse_hosts setFromIpPort alloc lg seg n members shards1 cl1 = Parsed (shards', cl')"
      by (auto simp: array_of_def split: json.splits list.splits option.splits)
    note eh = enter_host [OF Cons.prems(4,2,3) q]
    from eh(4) parseHost_address(2) [OF host] obtain h where h: "host_heap cl1 q = Some h" "h_addr h = h_addr host"
      "seg \<in> dom (groups_prefix_lengths h)" by auto
    note ok1 = shards_ok_le [OF Cons.prems(5) eh(2)]
    from parse_shard_list_Some [OF sl Cons.prems(6)] have sl': "length shards1 = unat n"
      "\<And>i. i < unat n \<Longrightarrow> shards1 ! i = shards ! i @ map (Pair q) (listed_roles (array_of v) i)" by simp_all
    have "shards_ok seg (host_heap cl1) shards1" unfolding shards_ok_def
    proof (intro allI impI)
      fix i p r assume ir: "i < length shards1 \<and> (p, r) \<in> set (shards1 ! i)"
      then consider "p = q" | "i < length shards" "(p, r) \<in> set (shards ! i)" using sl' Cons.prems(6) by auto
      then show "\<exists>h. host_heap cl1 p = Some h \<and> seg \<in> dom (groups_prefix_lengths h)"
        by cases (use h shards_okD [OF ok1(1)] in blast)+
    qed
    from Cons.IH [OF rec Cons.prems(2,3) eh(1) this sl'(1)] show ?thesis
      using eh(2,3) ok1(2) sl' h Cons.prems(6) False kv parseHost_address(2) [OF host]
      by (auto simp: listed_def intro: heap_le_trans)
  qed
qed

text \<open>What a parsed segment looks like on the heap, compared with what the map lists.\<close>

definition segment_parsed ::
  "(string \<Rightarrow> u16 \<Rightarrow> 'a option) \<Rightarrow> (nat \<rightharpoonup> 'a host) \<Rightarrow> string \<times> json \<Rightarrow> string \<times> shard_hosts \<Rightarrow> bool" where
  "segment_parsed setFromIpPort H sv ss \<longleftrightarrow>
    (\<exists>members n. snd sv = JObject members \<and> shard_number_of members = Some n \<and> fst ss = fst sv \<and>
       length (snd ss) = unat n \<and> shards_ok (fst sv) H (snd ss) \<and>
       (\<forall>i < unat n. deref H (snd ss ! i) = listed setFromIpPort members i))"

lemma segment_parsed_le:
  assumes "segment_parsed setFromIpPort H sv ss" "heap_le H H'"
  shows "segment_parsed setFromIpPort H' sv ss"
proof -
  from assms(1) obtain members n where m: "snd sv = JObject members" "shard_number_of members = Some n" "fst ss = fst sv"
    "length (snd ss) = unat n" "shards_ok (fst sv) H (snd ss)" "\<forall>i < unat n. deref H (snd ss ! i) = listed setFromIpPort members i"
    unfolding segment_parsed_def by blast
  with shards_ok_le [OF m(5) assms(2)] show ?thesis
    unfolding segment_parsed_def by (intro exI [of _ members] exI [of _ n]) simp
qed

lemma parse_segments_Parsed:
  assumes "parse_segments setFromIpPort alloc lg root cl = Parsed cl'" "alloc_fresh alloc" "alloc_reuses alloc" "layout_ok cl"
  shows "layout_ok cl' \<and> heap_le (host_heap cl) (host_heap cl') \<and>
    (\<exists>new. segments cl' = segments cl @ new \<and> list_all2 (segment_parsed setFromIpPort (host_heap cl')) root new)"
  using assms
proof (induction root arbitrary: cl)
  case Nil
  then show ?case by simp
next
  case (Cons sv root)
  obtain seg v where sv: "sv = (seg, v)" by fastforce
  with Cons.prems(1) obtain members n shards cl1 where m: "v = JObject members" "shard_number_of members = Some n"
    and ph: "parse_hosts setFromIpPort alloc lg seg n members (replicate (unat n) []) cl = Parsed (shards, cl1)"
    and rec: "parse_segments setFromIpPort alloc lg root (cl1\<lparr>segments := segments cl1 @ [(seg, shards)]\<rparr>) = Parsed cl'"
    by (auto split: json.splits option.splits parsed.splits)
  have "shards_ok seg (host_heap cl) (replicate (unat n) [])" by (auto simp: shards_ok_def)
  note hosts = parse_hosts_Parsed [OF ph Cons.prems(2,3,4) this]
  have "layout_ok (cl1\<lparr>segments := segments cl1 @ [(seg, shards)]\<rparr>)" using hosts by (simp add: layout_ok_def)
  from Cons.IH [OF rec Cons.prems(2,3) this] obtain new where
    new: "layout_ok cl'" "heap_le (host_heap cl1) (host_heap cl')" "segments cl' = segments cl1 @ (seg, shards) # new"
      "list_all2 (segment_parsed setFromIpPort (host_heap cl')) root new" by auto
  have "segment_parsed setFromIpPort (host_heap cl1) sv (seg, shards)"
    using hosts m sv by (simp add: segment_parsed_def)
  from segment_parsed_le [OF this new(2)] new hosts show ?case by (auto intro: heap_le_trans)
qed

text \<open>When the parser succeeds.\<close>

lemma parse_hosts_ok: "(\<exists>r. parse_hosts setFromIpPort alloc lg seg n members shards cl = Parsed r) \<longleftrightarrow>
    list_all (member_ok setFromIpPort n) members"
proof (induction members arbitrary: shards cl)
  case (Cons kv members)
  obtain key v where kv: "kv = (key, v)" by fastforce
  show ?case
  proof (cases "parseHost setFromIpPort key seg lg")
    case None
    then show ?thesis using Cons kv parseHost_address(1) [of setFromIpPort key seg lg] by (auto simp: member_ok_def Option.is_none_def)
  next
    case (Some host)
    obtain q cl1 where q: "enter_host alloc host cl = (q, cl1)" by fastforce
    show ?thesis using Some q Cons kv parseHost_address(2) [OF Some] parse_shard_list_None [of n q "array_of v" shards]
      by (auto simp: member_ok_def array_of_def Option.is_none_def split: json.split list.split option.splits)
  qed
qed simp

lemma parse_segments_ok: "(\<exists>cl'. parse_segments setFromIpPort alloc lg root cl = Parsed cl') \<longleftrightarrow>
    list_all (\<lambda>(_, v). segment_ok setFromIpPort v) root"
proof (induction root arbitrary: cl)
  case (Cons sv root)
  obtain seg v where sv: "sv = (seg, v)" by fastforce
  show ?case
  proof (cases "\<exists>members n. v = JObject members \<and> shard_number_of members = Some n")
    case True
    then obtain members n where m: "v = JObject members" "shard_number_of members = Some n" by blast
    show ?thesis
      using Cons sv m parse_hosts_ok [of setFromIpPort alloc lg seg n members "replicate (unat n) []" cl]
      by (auto simp: segment_ok_def split: parsed.split)
  next
    case False
    then show ?thesis using sv by (auto simp: segment_ok_def split: json.split option.split)
  qed
qed simp

section \<open>Properties\<close>


text \<open>A shard map in which one host occurs in two segments, for addresses that are strings.\<close>

definition ex_address :: "string \<Rightarrow> u16 \<Rightarrow> (string \<times> u16) option" where
  "ex_address ip port = (if ip = [] then None else Some (ip, port))"

definition ex_map :: "(string \<times> json) list" where
  "ex_map = [(''s'', JObject [(''1.1.1.1:80:zone_a'', JArray [JString ''00001:S'', JString ''00000'']),
                              (''2.2.2.2:80:zone_b'', JArray [JString ''00001:M'']), (''num_shards'', JInt 2)]),
             (''t'', JObject [(''1.1.1.1:80:zone_a'', JArray [JString ''00000:M'']), (''num_leaf_segments'', JInt 1)])]"

definition ex_malloc :: allocator where
  "ex_malloc freed used = (case freed of Some p \<Rightarrow> if p \<in> set used then Suc (fold max used 0) else p | None \<Rightarrow> Suc (fold max used 0))"

lemma ex_malloc_ok: "alloc_fresh ex_malloc" "alloc_reuses ex_malloc"
proof -
  have "Suc (fold max used 0) \<notin> set used" for used :: "nat list"
    using fold_max_ge_mem [of "Suc (fold max used 0)" used 0] by auto
  then show "alloc_fresh ex_malloc" "alloc_reuses ex_malloc"
    by (auto simp: alloc_fresh_def alloc_reuses_def ex_malloc_def split: option.split)
qed

lemma ex_map_ok: "list_all (\<lambda>(_, v). segment_ok ex_address v) ex_map"
  by code_simp


text \<open>
  With an allocator that does not give the freed block back at once, the pointers the parser has stored for the first segment
  of a host dangle as soon as a second segment names the host.
\<close>

definition ex_lazy_malloc :: allocator where
  "ex_lazy_malloc freed used = Suc (fold max (case freed of None \<Rightarrow> used | Some p \<Rightarrow> p # used) 0)"

theorem parseConfig_dangling:
  "alloc_fresh ex_lazy_malloc \<and>
   (case parseConfig (\<lambda>_. Some (JObject ex_map)) ex_address ex_lazy_malloc ''x'' ''zone_b'' of
      Parsed cl \<Rightarrow> list_ex (\<lambda>(p, _). Option.is_none (host_heap cl p)) (snd (segments cl ! 0) ! 0)
    | _ \<Rightarrow> False)"
proof
  have "Suc (fold max used m) \<notin> set used" for used :: "nat list" and m
    using fold_max_ge_mem [of "Suc (fold max used m)" used m] by auto
  then show "alloc_fresh ex_lazy_malloc" by (auto simp: alloc_fresh_def ex_lazy_malloc_def split: option.split)
qed code_simp

end
