(* ===== verification/Admin_Boot.thy ===== *)
theory Admin_Boot
  imports Admin_Requests Cluster_Layout
begin

text \<open>
  \<open>CreateDBBasedOnConfig\<close> of \<open>rocksdb_admin/admin_handler.cpp\<close> and the constructor of \<open>AdminHandler\<close> without a manager: the
  databases of all shards that the shard map gives to this host are opened and added to a new manager. The databases are
  opened by threads of their own; here they are opened in the order in which the threads are started.
\<close>

section \<open>The shards of this host\<close>

text \<open>\<open>GetRocksdbFuture\<close> yields what \<open>GetRocksdb\<close> returns; an operation waits for it and adds the database.\<close>

record boot_op =
  bo_name :: string
  bo_role :: router_role
  bo_upstream :: "string option"
  bo_db :: "nat option"

text \<open>
  For one shard: the first entry of this host gives its role; the first master is the upstream of a slave, at the port of the
  replicator (\<open>with_port\<close> sets the port of an address).
\<close>

definition my_role :: "(nat \<rightharpoonup> 'a host) \<Rightarrow> 'a \<Rightarrow> (nat \<times> router_role) list \<Rightarrow> router_role option" where
  "my_role H local_addr shard = map_option snd (find (\<lambda>(p, _). h_addr (the (H p)) = local_addr) shard)"

definition upstream_of :: "('a \<Rightarrow> u16 \<Rightarrow> string) \<Rightarrow> admin_flags \<Rightarrow> (nat \<rightharpoonup> 'a host) \<Rightarrow> (nat \<times> router_role) list \<Rightarrow> string option" where
  "upstream_of with_port af H shard =
    map_option (\<lambda>(p, _). with_port (h_addr (the (H p))) (rocksdb_replicator_port af)) (find (\<lambda>(_, r). r = R_MASTER) shard)"

fun open_shards ::
  "admin_flags \<Rightarrow> ('db, 'fs, 'opts) admin_env \<Rightarrow> ('a \<Rightarrow> u16 \<Rightarrow> string) \<Rightarrow> (nat \<rightharpoonup> 'a host) \<Rightarrow> 'a \<Rightarrow> string \<Rightarrow> int \<Rightarrow>
   (nat \<times> router_role) list list \<Rightarrow> ('db, 'it, 'fs) admin_handler \<Rightarrow> boot_op list \<times> ('db, 'it, 'fs) admin_handler" where
  "open_shards af env with_port H local_addr segment shard_id [] w = ([], w)"
| "open_shards af env with_port H local_addr segment shard_id (shard # shards) w =
    (case my_role H local_addr shard of
       None \<Rightarrow> open_shards af env with_port H local_addr segment (shard_id + 1) shards w
     | Some role \<Rightarrow>
         let db_name = SegmentToDbName segment shard_id;
             (db, w) = GetRocksdb env (rocksdb_dir af @ db_name) (env_rocksdb_options env segment) w;
             upstream = (if role = R_SLAVE then upstream_of with_port af H shard else None);
             (ops, w) = open_shards af env with_port H local_addr segment (shard_id + 1) shards w
         in (\<lparr>bo_name = db_name, bo_role = role, bo_upstream = upstream, bo_db = db\<rparr> # ops, w))"

fun open_segments ::
  "admin_flags \<Rightarrow> ('db, 'fs, 'opts) admin_env \<Rightarrow> ('a \<Rightarrow> u16 \<Rightarrow> string) \<Rightarrow> (nat \<rightharpoonup> 'a host) \<Rightarrow> 'a \<Rightarrow> (string \<times> shard_hosts) list \<Rightarrow>
   ('db, 'it, 'fs) admin_handler \<Rightarrow> boot_op list \<times> ('db, 'it, 'fs) admin_handler" where
  "open_segments af env with_port H local_addr [] w = ([], w)"
| "open_segments af env with_port H local_addr ((segment, shards) # segs) w =
    (let (ops, w) = open_shards af env with_port H local_addr segment 0 shards w;
         (ops', w) = open_segments af env with_port H local_addr segs w
     in (ops @ ops', w))"

text \<open>An operation: \<open>None\<close> for a failed \<open>CHECK\<close>, of the database, of the role or of the result of \<open>addDB\<close>.\<close>

definition run_op ::
  "replicator_flags \<Rightarrow> ('db, 'it, 'wb, 'raw) rocksdb_api \<Rightarrow> ('db, 'fs, 'opts) admin_env \<Rightarrow> boot_op \<Rightarrow>
   ('db, 'it, 'fs) admin_handler \<Rightarrow> ('db, 'it, 'fs) admin_handler option" where
  "run_op fl api env op w =
    (case bo_db op of
       None \<Rightarrow> None
     | Some db \<Rightarrow>
         let add = (\<lambda>role upstream.
               case manager_addDB fl api env (bo_name op) db role upstream w of (Result _, w) \<Rightarrow> Some w | _ \<Rightarrow> None)
         in case bo_role op of
              R_MASTER \<Rightarrow> add MASTER None
            | R_SLAVE \<Rightarrow> add SLAVE (bo_upstream op)
            | R_ANY \<Rightarrow> None)"

fun run_ops ::
  "replicator_flags \<Rightarrow> ('db, 'it, 'wb, 'raw) rocksdb_api \<Rightarrow> ('db, 'fs, 'opts) admin_env \<Rightarrow> boot_op list \<Rightarrow>
   ('db, 'it, 'fs) admin_handler \<Rightarrow> ('db, 'it, 'fs) admin_handler option" where
  "run_ops fl api env [] w = Some w"
| "run_ops fl api env (op # ops) w = (case run_op fl api env op w of None \<Rightarrow> None | Some w \<Rightarrow> run_ops fl api env ops w)"

text \<open>\<open>layout\<close> is what \<open>parseConfig\<close> makes of the file, with an empty local group.\<close>

definition CreateDBBasedOnConfig ::
  "admin_flags \<Rightarrow> replicator_flags \<Rightarrow> ('db, 'it, 'wb, 'raw) rocksdb_api \<Rightarrow> ('db, 'fs, 'opts) admin_env \<Rightarrow> ('a \<Rightarrow> u16 \<Rightarrow> string) \<Rightarrow>
   'a cluster_layout parsed \<Rightarrow> 'a \<Rightarrow> ('db, 'it, 'fs) admin_handler \<Rightarrow> ('db, 'it, 'fs) admin_handler option" where
  "CreateDBBasedOnConfig af fl api env with_port layout local_addr w =
    (case layout of
       Parsed cl \<Rightarrow>
         let w = w\<lparr>db_manager := Manager_ctor\<rparr>;
             (ops, w) = open_segments af env with_port (host_heap cl) local_addr (segments cl) w
         in run_ops fl api env ops w
     | _ \<Rightarrow> None)"

definition AdminHandler_ctor_config ::
  "admin_flags \<Rightarrow> replicator_flags \<Rightarrow> ('db, 'it, 'wb, 'raw) rocksdb_api \<Rightarrow> ('db, 'fs, 'opts) admin_env \<Rightarrow> ('a \<Rightarrow> u16 \<Rightarrow> string) \<Rightarrow>
   'a cluster_layout parsed \<Rightarrow> 'a \<Rightarrow> int \<Rightarrow> ('db, 'it, 'fs) admin_handler \<Rightarrow> ('db, 'it, 'fs) admin_handler option" where
  "AdminHandler_ctor_config af fl api env with_port layout local_addr uninitialised w =
    (case OpenMetaDB af env w of
       None \<Rightarrow> None
     | Some (p, w) \<Rightarrow>
         (case CreateDBBasedOnConfig af fl api env with_port layout local_addr
                 (w\<lparr>meta_db := p, s3_util := None, num_current_s3_sst_downloadings := 0,
                    num_current_s3_sst_uploadings := uninitialised, kafka_watcher_map := Map.empty\<rparr>) of
            None \<Rightarrow> None
          | Some w \<Rightarrow> if max_s3_sst_loading_concurrency af > 0 then Some w else None))"

section \<open>Opening the databases\<close>

lemma GetRocksdb_fields:
  assumes "GetRocksdb env dir options w = (db, w')"
  shows "db_manager w' = db_manager w" "the_replicator w' = the_replicator w" "meta_db w' = meta_db w" "set (opened w) \<subseteq> set (opened w')"
    and "next_ptr w \<le> next_ptr w'"
    and "db = Some p \<Longrightarrow> p = next_ptr w \<and> p < next_ptr w' \<and> (p, dir) \<in> set (opened w')"
  using assms by (auto simp: GetRocksdb_def DB_Open_def Let_def split: sum.splits prod.splits if_splits)

text \<open>
  What the opening of some shards leaves behind: a state that serves as before, with pointers nobody else has, one for each
  operation.
\<close>

definition boot_ptrs :: "boot_op list \<Rightarrow> nat list" where
  "boot_ptrs ops = concat (map (\<lambda>op. case bo_db op of None \<Rightarrow> [] | Some p \<Rightarrow> [p]) ops)"

lemma boot_ptrs_simps [simp]: "boot_ptrs [] = []" "boot_ptrs (ops @ ops') = boot_ptrs ops @ boot_ptrs ops'"
  "boot_ptrs (op # ops) = (case bo_db op of None \<Rightarrow> [] | Some p \<Rightarrow> [p]) @ boot_ptrs ops"
  by (simp_all add: boot_ptrs_def)

definition opens :: "admin_flags \<Rightarrow> int \<Rightarrow> int \<Rightarrow> ('db, 'it, 'fs) admin_handler \<Rightarrow> boot_op list \<Rightarrow> ('db, 'it, 'fs) admin_handler \<Rightarrow> bool" where
  "opens af d u w ops w' \<longleftrightarrow> serving d u w' \<and> db_manager w' = db_manager w \<and> meta_db w' = meta_db w \<and> set (opened w) \<subseteq> set (opened w') \<and>
    next_ptr w \<le> next_ptr w' \<and> set (boot_ptrs ops) \<subseteq> {next_ptr w..<next_ptr w'} \<and> distinct (boot_ptrs ops) \<and>
    (\<forall>op \<in> set ops. \<forall>p. bo_db op = Some p \<longrightarrow> (p, rocksdb_dir af @ bo_name op) \<in> set (opened w'))"

lemma opens_Nil: "serving d u w \<Longrightarrow> opens af d u w [] w"
  by (simp add: opens_def)

lemma opens_append:
  assumes "opens af d u w ops w'" "opens af d u w' ops' w''"
  shows "opens af d u w (ops @ ops') w''"
proof -
  have "set (boot_ptrs ops) \<subseteq> {next_ptr w..<next_ptr w'}" "set (boot_ptrs ops') \<subseteq> {next_ptr w'..<next_ptr w''}"
    "next_ptr w \<le> next_ptr w'" "next_ptr w' \<le> next_ptr w''" using assms by (simp_all add: opens_def)
  then have "set (boot_ptrs ops) \<inter> set (boot_ptrs ops') = {}" "set (boot_ptrs (ops @ ops')) \<subseteq> {next_ptr w..<next_ptr w''}"
    by (force, auto)
  moreover have "\<forall>op \<in> set (ops @ ops'). \<forall>p. bo_db op = Some p \<longrightarrow> (p, rocksdb_dir af @ bo_name op) \<in> set (opened w'')"
    using assms unfolding opens_def by (metis Un_iff set_append subsetD)
  moreover have "set (opened w) \<subseteq> set (opened w'')" "next_ptr w \<le> next_ptr w''" using assms by (auto simp: opens_def)
  ultimately show ?thesis using assms unfolding opens_def by simp
qed

lemma opens_one:
  assumes "GetRocksdb env (rocksdb_dir af @ bo_name op) options w = (bo_db op, w')" "serving d u w"
  shows "opens af d u w [op] w'"
  using GetRocksdb_fields [OF assms(1)] serving_GetRocksdb(1) [OF assms]
  by (auto simp: opens_def split: option.split)

text \<open>The operations for the shards: one for each shard of this host, in the given state or later.\<close>

definition op_for ::
  "('a \<Rightarrow> u16 \<Rightarrow> string) \<Rightarrow> admin_flags \<Rightarrow> (nat \<rightharpoonup> 'a host) \<Rightarrow> 'a \<Rightarrow> string \<Rightarrow> int \<Rightarrow> (nat \<times> router_role) list \<Rightarrow> boot_op \<Rightarrow> bool" where
  "op_for with_port af H local_addr segment i shard op \<longleftrightarrow> bo_name op = SegmentToDbName segment i \<and>
    my_role H local_addr shard = Some (bo_role op) \<and>
    bo_upstream op = (if bo_role op = R_SLAVE then upstream_of with_port af H shard else None)"

lemma open_shards_run:
  assumes "open_shards af env with_port H local_addr segment i shards w = (ops, w')" "serving d u w"
  shows "opens af d u w ops w' \<and>
    (\<forall>k < length shards. my_role H local_addr (shards ! k) \<noteq> None \<longrightarrow>
       (\<exists>op \<in> set ops. op_for with_port af H local_addr segment (i + int k) (shards ! k) op))"
  using assms
proof (induction shards arbitrary: i w ops)
  case Nil
  then show ?case by (simp add: opens_Nil)
next
  case (Cons shard shards)
  show ?case
  proof (cases "my_role H local_addr shard")
    case None
    with Cons.IH [of "i + 1" w ops] Cons.prems None show ?thesis by (auto simp: less_Suc_eq_0_disj algebra_simps)
  next
    case (Some role)
    obtain db w1 where g: "GetRocksdb env (rocksdb_dir af @ SegmentToDbName segment i) (env_rocksdb_options env segment) w = (db, w1)"
      by fastforce
    obtain ops1 where rec: "open_shards af env with_port H local_addr segment (i + 1) shards w1 = (ops1, w')"
      "ops = \<lparr>bo_name = SegmentToDbName segment i, bo_role = role,
        bo_upstream = (if role = R_SLAVE then upstream_of with_port af H shard else None), bo_db = db\<rparr> # ops1"
      using Cons.prems(1) Some g by (auto simp: Let_def split: prod.splits)
    let ?op = "\<lparr>bo_name = SegmentToDbName segment i, bo_role = role,
        bo_upstream = (if role = R_SLAVE then upstream_of with_port af H shard else None), bo_db = db\<rparr>"
    have o: "opens af d u w [?op] w1" by (rule opens_one) (use g Cons.prems(2) in simp_all)
    then have "serving d u w1" by (simp add: opens_def)
    note rest = Cons.IH [OF rec(1) this]
    have "op_for with_port af H local_addr segment i shard ?op" using Some by (simp add: op_for_def)
    with opens_append [OF o, of ops1 w'] rest show ?thesis
      by (auto simp: rec(2) less_Suc_eq_0_disj algebra_simps)
  qed
qed

lemma open_segments_run:
  assumes "open_segments af env with_port H local_addr segs w = (ops, w')" "serving d u w"
  shows "opens af d u w ops w' \<and>
    (\<forall>(segment, shards) \<in> set segs. \<forall>k < length shards. my_role H local_addr (shards ! k) \<noteq> None \<longrightarrow>
       (\<exists>op \<in> set ops. op_for with_port af H local_addr segment (int k) (shards ! k) op))"
  using assms
proof (induction segs arbitrary: w ops)
  case Nil
  then show ?case by (simp add: opens_Nil)
next
  case (Cons ss segs)
  obtain segment shards where ss: "ss = (segment, shards)" by fastforce
  obtain ops1 w1 where s: "open_shards af env with_port H local_addr segment 0 shards w = (ops1, w1)" by fastforce
  obtain ops2 where r: "open_segments af env with_port H local_addr segs w1 = (ops2, w')" "ops = ops1 @ ops2"
    using Cons.prems(1) ss s by (auto simp: Let_def split: prod.splits)
  note one = open_shards_run [OF s Cons.prems(2)]
  then have "serving d u w1" by (simp add: opens_def)
  note rest = Cons.IH [OF r(1) this]
  have "opens af d u w ops w'" unfolding r(2) using opens_append one rest by blast
  moreover have "\<exists>op \<in> set ops. op_for with_port af H local_addr seg (int k) (sh ! k) op"
    if "(seg, sh) \<in> set (ss # segs)" "k < length sh" "my_role H local_addr (sh ! k) \<noteq> None" for seg sh k
    using that one rest unfolding r(2) ss by fastforce
  ultimately show ?case by blast
qed

section \<open>Adding them\<close>

definition boot_role :: "router_role \<Rightarrow> db_role" where
  "boot_role r = (if r = R_MASTER then MASTER else SLAVE)"

definition served_as :: "boot_op \<Rightarrow> application_db \<Rightarrow> bool" where
  "served_as op app \<longleftrightarrow> bo_db op = Some (app_db app) \<and> app_role app = boot_role (bo_role op) \<and>
    app_upstream app = (if bo_role op = R_SLAVE then bo_upstream op else None)"

lemma run_op_run:
  assumes "run_op fl api env op w = Some w'" "admin_inv w" "\<And>p. bo_db op = Some p \<Longrightarrow> owned p w"
  obtains app r where "w' = w\<lparr>db_manager := db_manager w @ [(bo_name op, app)], the_replicator := r\<rparr>" "admin_inv w'"
    "served_as op app" "map_of (db_manager w) (bo_name op) = None"
proof -
  obtain p where p: "bo_db op = Some p" using assms(1) by (cases "bo_db op") (simp_all add: run_op_def)
  define role where "role = boot_role (bo_role op)"
  define up where "up = (if bo_role op = R_SLAVE then bo_upstream op else None)"
  have "(case manager_addDB fl api env (bo_name op) p role up w of (Result _, w) \<Rightarrow> Some w | _ \<Rightarrow> None) = Some w'"
    using assms(1) p by (cases "bo_role op") (simp_all add: run_op_def role_def up_def boot_role_def)
  then have add: "manager_addDB fl api env (bo_name op) p role up w = (Result (), w')"
    by (cases "manager_addDB fl api env (bo_name op) p role up w"; cases "fst (manager_addDB fl api env (bo_name op) p role up w)") simp_all
  have free: "map_of (db_manager w) (bo_name op) = None"
    using add by (cases "map_of (db_manager w) (bo_name op)") (simp_all add: manager_addDB_def Manager_addDB_def)
  from run_ok_manager_addDB [OF admin_inv_serving [OF assms(2)] assms(3) [OF p], of fl api env "bo_name op" role up]
  have inv: "admin_inv w'" by (simp add: add serving_def)
  from manager_addDB_free [OF assms(2) free, of fl api env p role up] add obtain app r where
    "w' = w\<lparr>db_manager := db_manager w @ [(bo_name op, app)], the_replicator := r\<rparr>" "app_db app = p" "app_role app = role" "app_upstream app = up"
    by auto
  with inv free p show thesis by (intro that [of r app]) (simp_all add: served_as_def role_def up_def)
qed

lemma run_ops_run:
  assumes "run_ops fl api env ops w = Some w'" "admin_inv w" "\<forall>p \<in> set (boot_ptrs ops). owned p w" "distinct (boot_ptrs ops)"
  shows "admin_inv w' \<and> opened w' = opened w \<and>
    (\<forall>n app. map_of (db_manager w) n = Some app \<longrightarrow> map_of (db_manager w') n = Some app) \<and>
    (\<forall>op \<in> set ops. \<exists>app. map_of (db_manager w') (bo_name op) = Some app \<and> served_as op app) \<and>
    fst ` set (db_manager w') = fst ` set (db_manager w) \<union> bo_name ` set ops"
  using assms
proof (induction ops arbitrary: w)
  case (Cons op ops)
  then obtain w1 where one: "run_op fl api env op w = Some w1" and rec: "run_ops fl api env ops w1 = Some w'"
    by (auto split: option.splits)
  have own: "owned p w" if "bo_db op = Some p" for p using Cons.prems(3) that by simp
  from run_op_run [OF one Cons.prems(2) own] obtain app r where
    w1: "w1 = w\<lparr>db_manager := db_manager w @ [(bo_name op, app)], the_replicator := r\<rparr>" "admin_inv w1" "served_as op app"
      "map_of (db_manager w) (bo_name op) = None" by metis
  have "owned p w1" if "p \<in> set (boot_ptrs ops)" for p
  proof -
    have "owned p w" "bo_db op \<noteq> Some p" using that Cons.prems(3,4) by auto
    with w1(3) show ?thesis by (auto simp: owned_def w1(1) served_as_def)
  qed
  moreover have "distinct (boot_ptrs ops)" using Cons.prems(4) by simp
  ultimately have ih: "admin_inv w'" "opened w' = opened w1"
    "\<And>n app. map_of (db_manager w1) n = Some app \<Longrightarrow> map_of (db_manager w') n = Some app"
    "\<forall>op \<in> set ops. \<exists>app. map_of (db_manager w') (bo_name op) = Some app \<and> served_as op app"
    "fst ` set (db_manager w') = fst ` set (db_manager w1) \<union> bo_name ` set ops"
    using Cons.IH [OF rec w1(2)] by blast+
  have "map_of (db_manager w1) (bo_name op) = Some app" using w1(4) by (simp add: w1(1) map_add_def)
  moreover have "map_of (db_manager w1) n = Some a" if "map_of (db_manager w) n = Some a" for n a
    using that w1(4) by (auto simp: w1(1) map_add_def)
  ultimately show ?case using ih w1(3) by (auto simp: w1(1))
qed simp

text \<open>The run of the constructor: what each operation has made of its shard.\<close>

lemma ctor_config_run:
  assumes "AdminHandler_ctor_config af fl api env with_port (Parsed cl) local_addr uninitialised w0 = Some w"
    and "the_replicator w0 = RocksDBReplicator_ctor" "opened w0 = []"
  obtains ops where "admin_inv w"
    "\<And>op. op \<in> set ops \<Longrightarrow> \<exists>app. map_of (db_manager w) (bo_name op) = Some app \<and> served_as op app \<and>
       (app_db app, rocksdb_dir af @ bo_name op) \<in> set (opened w)"
    "\<And>segment shards k. (segment, shards) \<in> set (segments cl) \<Longrightarrow> k < length shards \<Longrightarrow>
       my_role (host_heap cl) local_addr (shards ! k) \<noteq> None \<Longrightarrow>
       \<exists>op \<in> set ops. op_for with_port af (host_heap cl) local_addr segment (int k) (shards ! k) op"
proof -
  obtain p w1 where m: "OpenMetaDB af env w0 = Some (p, w1)" using assms(1) by (auto simp: AdminHandler_ctor_config_def split: option.splits)
  let ?w = "w1\<lparr>meta_db := p, s3_util := None, num_current_s3_sst_downloadings := 0,
     num_current_s3_sst_uploadings := uninitialised, kafka_watcher_map := Map.empty, db_manager := Manager_ctor\<rparr>"
  have "opened w1 = [(p, rocksdb_dir af @ ''meta_db'')]" "next_ptr w1 = p + 1" "the_replicator w1 = RocksDBReplicator_ctor"
    using m assms(2,3) by (auto simp: OpenMetaDB_def DB_Open_def Let_def split: prod.splits sum.splits if_splits)
  with service_new(1) have inv: "admin_inv ?w" by (simp add: admin_inv_def pointers_ok_def Manager_ctor_def)
  obtain ops w2 where o: "open_segments af env with_port (host_heap cl) local_addr (segments cl) ?w = (ops, w2)" by fastforce
  have run: "run_ops fl api env ops w2 = Some w"
    using assms(1) m o by (auto simp: AdminHandler_ctor_config_def CreateDBBasedOnConfig_def Let_def split: option.splits if_splits)
  note os = open_segments_run [OF o admin_inv_serving [OF inv]]
  then have w2: "admin_inv w2" "db_manager w2 = []" "distinct (boot_ptrs ops)" "set (boot_ptrs ops) \<subseteq> {next_ptr w1..<next_ptr w2}"
    "meta_db w2 = p" "\<forall>op \<in> set ops. \<forall>p. bo_db op = Some p \<longrightarrow> (p, rocksdb_dir af @ bo_name op) \<in> set (opened w2)"
    by (auto simp: opens_def serving_def Manager_ctor_def)
  have "owned q w2" if "q \<in> set (boot_ptrs ops)" for q
  proof -
    from that obtain op where "op \<in> set ops" "bo_db op = Some q" by (auto simp: boot_ptrs_def split: option.splits)
    moreover have "q \<noteq> p" using w2(4) that \<open>next_ptr w1 = p + 1\<close> by auto
    ultimately show ?thesis using w2(2,5,6) by (force simp: owned_def)
  qed
  from run_ops_run [OF run w2(1) _ w2(3)] this have fin: "admin_inv w" "opened w = opened w2"
    "\<forall>op \<in> set ops. \<exists>app. map_of (db_manager w) (bo_name op) = Some app \<and> served_as op app" by blast+
  have "\<exists>app. map_of (db_manager w) (bo_name op) = Some app \<and> served_as op app \<and> (app_db app, rocksdb_dir af @ bo_name op) \<in> set (opened w)"
    if "op \<in> set ops" for op
    using fin(2,3) w2(6) that by (fastforce simp: served_as_def)
  then show thesis using that [of ops] fin(1) os by blast
qed

section \<open>Properties\<close>

text \<open>
  (C16) A host that starts from a shard map serves what the map gives it. After construction the service is consistent; for each
  shard in which the map lists this host, the database of the shard is open at its path and managed in the role of
  its first entry, a slave with the first master of the shard as upstream.
\<close>

theorem boot_serves_shards:
  assumes "AdminHandler_ctor_config af fl api env with_port (Parsed cl) local_addr uninitialised w0 = Some w"
    and "the_replicator w0 = RocksDBReplicator_ctor" "opened w0 = []"
  shows "admin_inv w \<and>
    (\<forall>(segment, shards) \<in> set (segments cl). \<forall>k < length shards.
       case my_role (host_heap cl) local_addr (shards ! k) of
         None \<Rightarrow> True
       | Some role \<Rightarrow>
           \<exists>app. AdminHandler_getDB (SegmentToDbName segment (int k)) w = Inr app \<and> app_role app = boot_role role \<and>
             app_upstream app = (if role = R_SLAVE then upstream_of with_port af (host_heap cl) (shards ! k) else None) \<and>
             (app_db app, rocksdb_dir af @ SegmentToDbName segment (int k)) \<in> set (opened w))"
proof -
  obtain ops where ops: "admin_inv w"
    "\<And>op. op \<in> set ops \<Longrightarrow> \<exists>app. map_of (db_manager w) (bo_name op) = Some app \<and> served_as op app \<and>
       (app_db app, rocksdb_dir af @ bo_name op) \<in> set (opened w)"
    "\<And>segment shards k. (segment, shards) \<in> set (segments cl) \<Longrightarrow> k < length shards \<Longrightarrow>
       my_role (host_heap cl) local_addr (shards ! k) \<noteq> None \<Longrightarrow>
       \<exists>op \<in> set ops. op_for with_port af (host_heap cl) local_addr segment (int k) (shards ! k) op"
    by (rule ctor_config_run [OF assms]) blast
  have "\<exists>app. map_of (db_manager w) (SegmentToDbName segment (int k)) = Some app \<and> app_role app = boot_role role \<and>
      app_upstream app = (if role = R_SLAVE then upstream_of with_port af (host_heap cl) (shards ! k) else None) \<and>
      (app_db app, rocksdb_dir af @ SegmentToDbName segment (int k)) \<in> set (opened w)"
    if "(segment, shards) \<in> set (segments cl)" "k < length shards" "my_role (host_heap cl) local_addr (shards ! k) = Some role"
    for segment shards k role
  proof -
    from ops(3) [OF that(1,2)] that(3) obtain op where
      op: "op \<in> set ops" "op_for with_port af (host_heap cl) local_addr segment (int k) (shards ! k) op" by auto
    from ops(2) [OF op(1)] obtain app where "map_of (db_manager w) (bo_name op) = Some app" "served_as op app"
      "(app_db app, rocksdb_dir af @ bo_name op) \<in> set (opened w)" by blast
    with op that(3) show ?thesis by (intro exI [of _ app]) (auto simp: op_for_def served_as_def)
  qed
  then have "case my_role (host_heap cl) local_addr (shards ! k) of None \<Rightarrow> True | Some role \<Rightarrow>
      \<exists>app. map_of (db_manager w) (SegmentToDbName segment (int k)) = Some app \<and> app_role app = boot_role role \<and>
        app_upstream app = (if role = R_SLAVE then upstream_of with_port af (host_heap cl) (shards ! k) else None) \<and>
        (app_db app, rocksdb_dir af @ SegmentToDbName segment (int k)) \<in> set (opened w)"
    if "(segment, shards) \<in> set (segments cl)" "k < length shards" for segment shards k
    using that by (cases "my_role (host_heap cl) local_addr (shards ! k)") simp_all
  with ops(1) show ?thesis unfolding getDB_managed by blast
qed

definition ex_layout :: "string cluster_layout" where
  "ex_layout = \<lparr>segments = [(''seg'', [[(1, R_MASTER)], [(2, R_MASTER), (1, R_SLAVE)], [(2, R_MASTER)]])],
     all_hosts = [(''me'', 1), (''you'', 2)],
     host_heap = [1 \<mapsto> \<lparr>h_addr = ''me'', groups_prefix_lengths = [''seg'' \<mapsto> 0]\<rparr>, 2 \<mapsto> \<lparr>h_addr = ''you'', groups_prefix_lengths = [''seg'' \<mapsto> 0]\<rparr>]\<rparr>"

lemma ex_shard_names: "SegmentToDbName ''seg'' 0 = ''seg00000''" "SegmentToDbName ''seg'' 1 = ''seg00001''"
  by code_simp+

theorem boot_serves_shards_witness:
  "\<exists>w app. AdminHandler_ctor_config ex_admin_flags ex_flags kv_api ex_env (\<lambda>a _. a) (Parsed ex_layout) ''me'' 0 ex_boot = Some w \<and>
     AdminHandler_getDB ''seg00001'' w = Inr app \<and> app_role app = SLAVE \<and> app_upstream app = Some ''you''"
proof -
  let ?boot = "AdminHandler_ctor_config ex_admin_flags ex_flags kv_api ex_env (\<lambda>a _. a) (Parsed ex_layout) ''me'' 0 ex_boot"
  have "?boot \<noteq> None"
    by (simp add: AdminHandler_ctor_config_def CreateDBBasedOnConfig_def run_op_def my_role_def upstream_of_def ex_layout_def ex_shard_names
        GetRocksdb_def OpenMetaDB_def DB_Open_def manager_addDB_def Manager_addDB_def ApplicationDB_ctor_def RocksDBReplicator_addDB_def Let_def
        ReplicatedDB_pullFromUpstream_def ReplicatedDB_ctor_def frm_defs RocksDBReplicator_ctor_def Manager_ctor_def CachedIterCleaner_addDB_def
        ex_boot_def ex_env_def ex_admin_flags_def status_ok_def)
  then obtain w where w: "?boot = Some w" by blast
  have "the_replicator ex_boot = RocksDBReplicator_ctor" "opened ex_boot = []" by (simp_all add: ex_boot_def)
  note served = boot_serves_shards [OF w this, THEN conjunct2]
  have "(''seg'', [[(1, R_MASTER)], [(2, R_MASTER), (1, R_SLAVE)], [(2, R_MASTER)]]) \<in> set (segments ex_layout)"
    by (simp add: ex_layout_def)
  from bspec [OF served this, unfolded prod.case, rule_format, of 1]
  have "\<exists>app. AdminHandler_getDB (SegmentToDbName ''seg'' 1) w = Inr app \<and> app_role app = boot_role R_SLAVE \<and>
      app_upstream app = upstream_of (\<lambda>a _. a) ex_admin_flags (host_heap ex_layout) [(2, R_MASTER), (1, R_SLAVE)]"
    by (auto simp: my_role_def ex_layout_def)
  then show ?thesis using w by (simp add: upstream_of_def ex_layout_def ex_shard_names boot_role_def)
qed

end
