(* ===== verification/Object_Lock.thy ===== *)
theory Object_Lock
  imports Prelude
begin

text \<open>
  \<open>common/object_lock.h\<close>: locks for objects out of a huge space, of which few are locked at a time. A
  lock is a node in a bucket of the hash table, counted by the threads that hold or wait for it and
  recycled through a pool.

  Nodes are addresses into a heap. What runs under a bucket's mutex is one step; the acquisition of a
  node's mutex after the bucket's mutex was released is another. The hash function and the number of
  buckets are parameters; whether \<open>try_lock\<close> on a bucket succeeds and whether the pool has room are
  arguments of the steps.
\<close>

section \<open>State and operations\<close>

record 'o lock_node =
  node_object :: 'o
  node_holder :: "tid option"
  refCount :: nat

text \<open>
  \<open>lock_waiting\<close> are the threads between the two parts of \<open>Lock\<close> with the node they wait for, \<open>lock_held\<close>
  the locks whose \<open>Lock\<close> or \<open>TryLock\<close> has returned.
\<close>

record 'o object_lock =
  lock_heap :: "nat \<Rightarrow> 'o lock_node"
  lock_next :: nat
  lock_buckets :: "nat \<Rightarrow> nat list"
  nodePool :: "nat list"
  lock_waiting :: "(tid \<times> nat \<times> 'o) list"
  lock_held :: "(tid \<times> 'o) set"

definition ObjectLock_ctor :: "('o lock_node) \<Rightarrow> 'o object_lock" where
  "ObjectLock_ctor nil_node = \<lparr>lock_heap = (\<lambda>_. nil_node), lock_next = 0, lock_buckets = (\<lambda>_. []), nodePool = [],
     lock_waiting = [], lock_held = {}\<rparr>"

definition Bucket_FindNodeLocked :: "'o \<Rightarrow> nat list \<Rightarrow> (nat \<Rightarrow> 'o lock_node) \<Rightarrow> nat option" where
  "Bucket_FindNodeLocked object nodes h = find (\<lambda>a. object = node_object (h a)) nodes"

text \<open>A recycled node keeps its fields; a new one has reference count 0.\<close>

definition ObjectLock_AllocNode :: "'o \<Rightarrow> 'o object_lock \<Rightarrow> nat \<times> 'o object_lock" where
  "ObjectLock_AllocNode dflt s =
    (case nodePool s of
       a # pool \<Rightarrow> (a, s\<lparr>nodePool := pool\<rparr>)
     | [] \<Rightarrow> (lock_next s, s\<lparr>lock_next := lock_next s + 1,
          lock_heap := (lock_heap s)(lock_next s := \<lparr>node_object = dflt, node_holder = None, refCount = 0\<rparr>)\<rparr>))"

definition ObjectLock_DeallocNode :: "bool \<Rightarrow> nat \<Rightarrow> 'o object_lock \<Rightarrow> 'o object_lock" where
  "ObjectLock_DeallocNode room a s = (if room then s\<lparr>nodePool := nodePool s @ [a]\<rparr> else s)"

definition set_lock_node :: "nat \<Rightarrow> 'o lock_node \<Rightarrow> 'o object_lock \<Rightarrow> 'o object_lock" where
  "set_lock_node a n s = s\<lparr>lock_heap := (lock_heap s)(a := n)\<rparr>"

text \<open>\<open>Lock\<close>, first part: find or insert the node and take a reference.\<close>

definition ObjectLock_Lock_enter ::
  "('o \<Rightarrow> nat) \<Rightarrow> nat \<Rightarrow> 'o \<Rightarrow> tid \<Rightarrow> 'o \<Rightarrow> 'o object_lock \<Rightarrow> 'o object_lock" where
  "ObjectLock_Lock_enter hasher nBucket dflt t object s =
    (let idx = hasher object mod nBucket;
         (a, s) = (case Bucket_FindNodeLocked object (lock_buckets s idx) (lock_heap s) of
            Some a \<Rightarrow> (a, s)
          | None \<Rightarrow>
              let (a, s) = ObjectLock_AllocNode dflt s;
                  s = set_lock_node a ((lock_heap s a)\<lparr>node_object := object\<rparr>) s
              in (a, s\<lparr>lock_buckets := (lock_buckets s)(idx := a # lock_buckets s idx)\<rparr>));
         s = set_lock_node a ((lock_heap s a)\<lparr>refCount := refCount (lock_heap s a) + 1\<rparr>) s
     in s\<lparr>lock_waiting := (t, a, object) # lock_waiting s\<rparr>)"

text \<open>\<open>Lock\<close>, second part: the node's mutex is acquired once it is free.\<close>

definition ObjectLock_Lock_acquire :: "tid \<Rightarrow> nat \<Rightarrow> 'o \<Rightarrow> 'o object_lock \<Rightarrow> 'o object_lock" where
  "ObjectLock_Lock_acquire t a object s =
    (let s = set_lock_node a ((lock_heap s a)\<lparr>node_holder := Some t\<rparr>) s
     in s\<lparr>lock_waiting := remove1 (t, a, object) (lock_waiting s), lock_held := insert (t, object) (lock_held s)\<rparr>)"

definition ObjectLock_TryLock ::
  "('o \<Rightarrow> nat) \<Rightarrow> nat \<Rightarrow> 'o \<Rightarrow> bool \<Rightarrow> tid \<Rightarrow> 'o \<Rightarrow> 'o object_lock \<Rightarrow> bool \<times> 'o object_lock" where
  "ObjectLock_TryLock hasher nBucket dflt bucket_free t object s =
    (if \<not> bucket_free then (False, s)
     else
       let idx = hasher object mod nBucket in
       case Bucket_FindNodeLocked object (lock_buckets s idx) (lock_heap s) of
         Some a \<Rightarrow> (False, s)
       | None \<Rightarrow>
           let (a, s) = ObjectLock_AllocNode dflt s;
               n = lock_heap s a;
               s = set_lock_node a (n\<lparr>node_object := object, refCount := refCount n + 1, node_holder := Some t\<rparr>) s
           in (True, s\<lparr>lock_buckets := (lock_buckets s)(idx := a # lock_buckets s idx),
                       lock_held := insert (t, object) (lock_held s)\<rparr>))"

text \<open>\<open>Unlock\<close>; \<open>None\<close> is the violated assertion that the node is found with a positive count.\<close>

definition ObjectLock_Unlock ::
  "('o \<Rightarrow> nat) \<Rightarrow> nat \<Rightarrow> bool \<Rightarrow> tid \<Rightarrow> 'o \<Rightarrow> 'o object_lock \<Rightarrow> 'o object_lock option" where
  "ObjectLock_Unlock hasher nBucket room t object s =
    (let idx = hasher object mod nBucket in
     case Bucket_FindNodeLocked object (lock_buckets s idx) (lock_heap s) of
       None \<Rightarrow> None
     | Some a \<Rightarrow>
         if refCount (lock_heap s a) = 0 then None
         else
           let n = lock_heap s a;
               s = set_lock_node a (n\<lparr>node_holder := None, refCount := refCount n - 1\<rparr>) s;
               s = s\<lparr>lock_held := lock_held s - {(t, object)}\<rparr>
           in if refCount (lock_heap s a) = 0
              then Some (ObjectLock_DeallocNode room a
                     (s\<lparr>lock_buckets := (lock_buckets s)(idx := remove1 a (lock_buckets s idx))\<rparr>))
              else Some s)"

text \<open>The assertion of the destructor.\<close>

definition ObjectLock_dtor :: "nat \<Rightarrow> 'o object_lock \<Rightarrow> unit option" where
  "ObjectLock_dtor nBucket s = (if \<forall>i < nBucket. lock_buckets s i = [] then Some () else None)"

text \<open>
  Threads lock when they do not wait already, and unlock what they hold.
\<close>

inductive olock_step :: "('o \<Rightarrow> nat) \<Rightarrow> nat \<Rightarrow> 'o \<Rightarrow> 'o object_lock \<Rightarrow> 'o object_lock \<Rightarrow> bool"
  for hasher :: "'o \<Rightarrow> nat" and nBucket :: nat and dflt :: 'o where
  enter: "t \<notin> fst ` set (lock_waiting s) \<Longrightarrow> olock_step hasher nBucket dflt s (ObjectLock_Lock_enter hasher nBucket dflt t ob s)"
| acquire: "(t, a, ob) \<in> set (lock_waiting s) \<Longrightarrow> node_holder (lock_heap s a) = None \<Longrightarrow>
    olock_step hasher nBucket dflt s (ObjectLock_Lock_acquire t a ob s)"
| trylock: "t \<notin> fst ` set (lock_waiting s) \<Longrightarrow> ObjectLock_TryLock hasher nBucket dflt bucket_free t ob s = (r, s') \<Longrightarrow>
    olock_step hasher nBucket dflt s s'"
| unlock: "(t, ob) \<in> lock_held s \<Longrightarrow> ObjectLock_Unlock hasher nBucket room t ob s = Some s' \<Longrightarrow>
    olock_step hasher nBucket dflt s s'"

section \<open>The invariant\<close>

definition refs :: "(tid \<times> nat \<times> 'o) list \<Rightarrow> nat \<Rightarrow> nat" where
  "refs ws a = length (filter (\<lambda>(t, b, ob). b = a) ws)"

lemma refs_simps [simp]:
  "refs [] a = 0" "refs ((t, b, ob) # ws) a = (if b = a then 1 else 0) + refs ws a"
  by (simp_all add: refs_def)

lemma refs_remove1: "(t, b, ob) \<in> set ws \<Longrightarrow> refs (remove1 (t, b, ob) ws) a + (if b = a then 1 else 0) = refs ws a"
  by (induction ws) (auto simp: refs_def)

lemma refs_pos: "(t, a, ob) \<in> set ws \<Longrightarrow> 0 < refs ws a"
  by (force simp: refs_def filter_empty_conv)

lemma refs_zero: "(\<And>t ob. (t, a, ob) \<notin> set ws) \<Longrightarrow> refs ws a = 0"
  by (force simp: refs_def filter_empty_conv)

text \<open>
  A node in a bucket belongs there by its object's hash, and its reference count is the number of
  threads that wait for it plus one if it is held; a bucket has one node per object; who waits, waits
  for a node in a bucket; a lock is held exactly when its node says so; pooled nodes are unused.
\<close>

definition node_ok :: "('o \<Rightarrow> nat) \<Rightarrow> nat \<Rightarrow> 'o object_lock \<Rightarrow> nat \<Rightarrow> nat \<Rightarrow> bool" where
  "node_ok hasher nBucket s b a \<longleftrightarrow> a < lock_next s \<and> hasher (node_object (lock_heap s a)) mod nBucket = b \<and>
     refCount (lock_heap s a) = refs (lock_waiting s) a + (if node_holder (lock_heap s a) = None then 0 else 1) \<and>
     0 < refCount (lock_heap s a)"

definition pool_ok :: "'o object_lock \<Rightarrow> nat \<Rightarrow> bool" where
  "pool_ok s a \<longleftrightarrow> a < lock_next s \<and> refCount (lock_heap s a) = 0 \<and> node_holder (lock_heap s a) = None \<and>
     (\<forall>b. a \<notin> set (lock_buckets s b))"

definition olock_inv :: "('o \<Rightarrow> nat) \<Rightarrow> nat \<Rightarrow> 'o object_lock \<Rightarrow> bool" where
  "olock_inv hasher nBucket s \<longleftrightarrow>
     (\<forall>b. distinct (lock_buckets s b)) \<and>
     (\<forall>b. \<forall>a \<in> set (lock_buckets s b). node_ok hasher nBucket s b a) \<and>
     (\<forall>b. inj_on (\<lambda>a. node_object (lock_heap s a)) (set (lock_buckets s b))) \<and>
     (\<forall>(t, a, ob) \<in> set (lock_waiting s).
        node_object (lock_heap s a) = ob \<and> a \<in> set (lock_buckets s (hasher ob mod nBucket))) \<and>
     (\<forall>t ob. (t, ob) \<in> lock_held s \<longleftrightarrow> (\<exists>a \<in> set (lock_buckets s (hasher ob mod nBucket)).
        node_object (lock_heap s a) = ob \<and> node_holder (lock_heap s a) = Some t)) \<and>
     distinct (nodePool s) \<and> (\<forall>a \<in> set (nodePool s). pool_ok s a)"

lemma olock_invD:
  assumes "olock_inv hasher nBucket s"
  shows "distinct (lock_buckets s b)" "a \<in> set (lock_buckets s b) \<Longrightarrow> node_ok hasher nBucket s b a"
    "inj_on (\<lambda>a. node_object (lock_heap s a)) (set (lock_buckets s b))"
    "(t, a, ob) \<in> set (lock_waiting s) \<Longrightarrow>
       node_object (lock_heap s a) = ob \<and> a \<in> set (lock_buckets s (hasher ob mod nBucket))"
    "(t, ob) \<in> lock_held s \<longleftrightarrow> (\<exists>a \<in> set (lock_buckets s (hasher ob mod nBucket)).
        node_object (lock_heap s a) = ob \<and> node_holder (lock_heap s a) = Some t)"
    "distinct (nodePool s)" "a \<in> set (nodePool s) \<Longrightarrow> pool_ok s a"
  using assms unfolding olock_inv_def by fast+

lemma FindNode_Some:
  "Bucket_FindNodeLocked ob nodes h = Some a \<Longrightarrow> a \<in> set nodes \<and> node_object (h a) = ob"
  unfolding Bucket_FindNodeLocked_def by (auto simp: find_Some_iff)

lemma FindNode_None:
  "Bucket_FindNodeLocked ob nodes h = None \<Longrightarrow> a \<in> set nodes \<Longrightarrow> node_object (h a) \<noteq> ob"
  unfolding Bucket_FindNodeLocked_def by (auto simp: find_None_iff)

text \<open>What an allocated node is like: unused, in no bucket and not in the pool any more.\<close>

definition fresh_node :: "'o object_lock \<Rightarrow> nat \<Rightarrow> bool" where
  "fresh_node s a \<longleftrightarrow> pool_ok s a \<and> a \<notin> set (nodePool s)"

lemma AllocNode_correct:
  assumes inv: "olock_inv hasher nBucket s" and "ObjectLock_AllocNode dflt s = (a, s')"
  shows "olock_inv hasher nBucket s' \<and> fresh_node s' a \<and> lock_buckets s' = lock_buckets s \<and>
    lock_waiting s' = lock_waiting s \<and> lock_held s' = lock_held s \<and>
    (\<forall>b. \<forall>c \<in> set (lock_buckets s b). lock_heap s' c = lock_heap s c)"
proof (cases "nodePool s")
  case Nil
  with assms(2) have s': "a = lock_next s" "s' = s\<lparr>lock_next := lock_next s + 1,
      lock_heap := (lock_heap s)(lock_next s := \<lparr>node_object = dflt, node_holder = None, refCount = 0\<rparr>)\<rparr>"
    by (auto simp: ObjectLock_AllocNode_def)
  have lt: "c < lock_next s" if "c \<in> set (lock_buckets s b)" for b c
    using olock_invD(2) [OF inv that] by (simp add: node_ok_def)
  then have nb: "lock_next s \<notin> set (lock_buckets s b)" for b by blast
  have nw: "(t, lock_next s, ob) \<notin> set (lock_waiting s)" for t ob
    using olock_invD(4) [OF inv] nb by blast
  have heap: "lock_heap s' c = lock_heap s c" if "c \<in> set (lock_buckets s b)" for b c
    using lt [OF that] s' by simp
  have sel: "lock_buckets s' = lock_buckets s" "lock_waiting s' = lock_waiting s" "lock_held s' = lock_held s"
      "nodePool s' = []" "lock_next s' = lock_next s + 1" using s' Nil by simp_all
  have "olock_inv hasher nBucket s'"
    unfolding olock_inv_def sel
  proof (intro conjI allI ballI)
    show "node_ok hasher nBucket s' b c" if "c \<in> set (lock_buckets s b)" for b c
      using olock_invD(2) [OF inv that] heap [OF that] by (auto simp: sel node_ok_def)
    show "inj_on (\<lambda>a. node_object (lock_heap s' a)) (set (lock_buckets s b))" for b
      using olock_invD(3) [OF inv, of b] heap [of _ b] by (simp add: inj_on_def)
    show "case x of (t, c, ob) \<Rightarrow> node_object (lock_heap s' c) = ob \<and> c \<in> set (lock_buckets s (hasher ob mod nBucket))"
      if "x \<in> set (lock_waiting s)" for x
    proof -
      obtain t c ob where x: "x = (t, c, ob)" by (metis prod_cases3)
      with olock_invD(4) [OF inv] that have "node_object (lock_heap s c) = ob"
        and c: "c \<in> set (lock_buckets s (hasher ob mod nBucket))" by blast+
      with heap [OF c] x show ?thesis by simp
    qed
    show "(t, ob) \<in> lock_held s \<longleftrightarrow> (\<exists>a \<in> set (lock_buckets s (hasher ob mod nBucket)).
        node_object (lock_heap s' a) = ob \<and> node_holder (lock_heap s' a) = Some t)" for t ob
      using olock_invD(5) [OF inv, of t ob] heap [of _ "hasher ob mod nBucket"] by simp
  qed (use olock_invD(1) [OF inv] in simp_all)
  moreover have "fresh_node s' a" using nb Nil by (simp add: fresh_node_def pool_ok_def s')
  ultimately show ?thesis using heap by (simp add: s')
next
  case (Cons c pool)
  with assms(2) have s': "a = c" "s' = s\<lparr>nodePool := pool\<rparr>" by (auto simp: ObjectLock_AllocNode_def)
  have "node_ok hasher nBucket s' = node_ok hasher nBucket s" "pool_ok s' = pool_ok s"
    by (simp_all add: s' node_ok_def pool_ok_def fun_eq_iff)
  with Cons inv show ?thesis by (simp add: s' olock_inv_def fresh_node_def)
qed

text \<open>
  The three ways a step changes one node of a bucket: it inserts a fresh one, it updates one, or it
  takes one out. \<open>ws\<close> and \<open>hs\<close> are the new waiting threads and held locks.
\<close>

definition waits_for :: "nat \<Rightarrow> 'o \<Rightarrow> (tid \<times> nat \<times> 'o) list \<Rightarrow> (tid \<times> nat \<times> 'o) list \<Rightarrow> bool" where
  "waits_for a ob ws ws' \<longleftrightarrow> (\<forall>c. c \<noteq> a \<longrightarrow> refs ws' c = refs ws c) \<and>
     (\<forall>(t, c, ob') \<in> set ws'. (t, c, ob') \<in> set ws \<or> c = a \<and> ob' = ob)"

definition holds_for :: "'o \<Rightarrow> 'o lock_node \<Rightarrow> (tid \<times> 'o) set \<Rightarrow> (tid \<times> 'o) set \<Rightarrow> bool" where
  "holds_for ob n hs hs' \<longleftrightarrow>
     (\<forall>t ob'. (t, ob') \<in> hs' \<longleftrightarrow> (if ob' = ob then node_holder n = Some t else (t, ob') \<in> hs))"

lemma olock_inv_update:
  assumes inv: "olock_inv hasher nBucket s"
    and a: "a \<in> set (lock_buckets s (hasher ob mod nBucket))" "node_object (lock_heap s a) = ob"
    and n: "node_object n = ob" "refCount n = refs ws a + (if node_holder n = None then 0 else 1)" "0 < refCount n"
    and ws: "waits_for a ob (lock_waiting s) ws" and hs: "holds_for ob n (lock_held s) hs"
  shows "olock_inv hasher nBucket ((set_lock_node a n s)\<lparr>lock_waiting := ws, lock_held := hs\<rparr>)"
proof -
  let ?s = "(set_lock_node a n s)\<lparr>lock_waiting := ws, lock_held := hs\<rparr>" and ?idx = "hasher ob mod nBucket"
  have a_idx: "b = ?idx" if "a \<in> set (lock_buckets s b)" for b
    using olock_invD(2) [OF inv that] a(2) by (simp add: node_ok_def)
  have uniq: "c = a" if "c \<in> set (lock_buckets s ?idx)" "node_object (lock_heap s c) = ob" for c
    using olock_invD(3) [OF inv, of ?idx] a that by (auto simp: inj_on_def)
  have obj: "node_object (lock_heap ?s c) = node_object (lock_heap s c)" for c
    using a(2) n(1) by (simp add: set_lock_node_def)
  show ?thesis
    unfolding olock_inv_def
  proof (intro conjI allI ballI)
    show "node_ok hasher nBucket ?s b c" if "c \<in> set (lock_buckets ?s b)" for b c
      using olock_invD(2) [OF inv, of c b] that n a_idx [of b] ws
      by (cases "c = a") (auto simp: node_ok_def set_lock_node_def waits_for_def)
    show "case x of (t, c, ob') \<Rightarrow> node_object (lock_heap ?s c) = ob' \<and>
        c \<in> set (lock_buckets ?s (hasher ob' mod nBucket))" if "x \<in> set (lock_waiting ?s)" for x
    proof -
      obtain t c ob' where x: "x = (t, c, ob')" by (metis prod_cases3)
      with ws that have "(t, c, ob') \<in> set (lock_waiting s) \<or> c = a \<and> ob' = ob"
        by (auto simp: waits_for_def)
      with olock_invD(4) [OF inv, of t c ob'] a obj x show ?thesis by (auto simp: set_lock_node_def)
    qed
    show "(t, ob') \<in> lock_held ?s \<longleftrightarrow> (\<exists>c \<in> set (lock_buckets ?s (hasher ob' mod nBucket)).
        node_object (lock_heap ?s c) = ob' \<and> node_holder (lock_heap ?s c) = Some t)" for t ob'
    proof (cases "ob' = ob")
      case True
      have "(\<exists>c \<in> set (lock_buckets s ?idx). node_object (lock_heap ?s c) = ob \<and> node_holder (lock_heap ?s c) = Some t)
          \<longleftrightarrow> node_holder (lock_heap ?s a) = Some t"
        unfolding obj using a uniq by blast
      then show ?thesis using hs True by (simp add: holds_for_def set_lock_node_def)
    next
      case False
      have "node_holder (lock_heap ?s c) = node_holder (lock_heap s c)" if "node_object (lock_heap s c) = ob'" for c
        using that a(2) False by (auto simp: set_lock_node_def)
      then have "(\<exists>c \<in> B. node_object (lock_heap s c) = ob' \<and> node_holder (lock_heap ?s c) = Some t) \<longleftrightarrow>
          (\<exists>c \<in> B. node_object (lock_heap s c) = ob' \<and> node_holder (lock_heap s c) = Some t)" for B by metis
      moreover have "(t, ob') \<in> lock_held ?s \<longleftrightarrow> (t, ob') \<in> lock_held s" using hs False by (simp add: holds_for_def)
      ultimately show ?thesis
        unfolding obj using olock_invD(5) [OF inv, of t ob'] by (simp add: set_lock_node_def)
    qed
    show "pool_ok ?s c" if "c \<in> set (nodePool ?s)" for c
    proof -
      have c: "pool_ok s c" using olock_invD(7) [OF inv, of c] that by (simp add: set_lock_node_def)
      then have "c \<noteq> a" using a(1) by (force simp: pool_ok_def)
      with c show ?thesis by (simp add: pool_ok_def set_lock_node_def)
    qed
    show "inj_on (\<lambda>c. node_object (lock_heap ?s c)) (set (lock_buckets ?s b))" for b
      unfolding obj using olock_invD(3) [OF inv, of b] by (simp add: set_lock_node_def)
  qed (use olock_invD(1,6) [OF inv] in \<open>simp_all add: set_lock_node_def\<close>)
qed

lemma olock_inv_insert:
  assumes inv: "olock_inv hasher nBucket s" and fresh: "fresh_node s a"
    and new: "\<And>c. c \<in> set (lock_buckets s (hasher ob mod nBucket)) \<Longrightarrow> node_object (lock_heap s c) \<noteq> ob"
    and n: "node_object n = ob" "refCount n = refs (lock_waiting s') a + (if node_holder n = None then 0 else 1)"
      "0 < refCount n"
    and ws: "waits_for a ob (lock_waiting s) (lock_waiting s')" and hs: "holds_for ob n (lock_held s) (lock_held s')"
    and heap: "lock_heap s' = (lock_heap s)(a := n)" "lock_next s' = lock_next s" "nodePool s' = nodePool s"
      "lock_buckets s' = (lock_buckets s)(hasher ob mod nBucket := a # lock_buckets s (hasher ob mod nBucket))"
  shows "olock_inv hasher nBucket s'"
proof -
  let ?idx = "hasher ob mod nBucket"
  have a: "a \<notin> set (lock_buckets s b)" "a < lock_next s" "a \<notin> set (nodePool s)" for b
    using fresh by (simp_all add: fresh_node_def pool_ok_def)
  have old: "lock_heap s' c = lock_heap s c" if "c \<in> set (lock_buckets s b)" for b c
    using that a(1) [of b] heap(1) by auto
  have heap_a: "lock_heap s' a = n" by (simp add: heap)
  have mem: "c \<in> set (lock_buckets s' b) \<longleftrightarrow> c = a \<and> b = ?idx \<or> c \<in> set (lock_buckets s b)" for b c
    by (auto simp: heap)
  show ?thesis
    unfolding olock_inv_def
  proof (intro conjI allI ballI)
    show "node_ok hasher nBucket s' b c" if "c \<in> set (lock_buckets s' b)" for b c
      using that unfolding mem
    proof
      assume c: "c \<in> set (lock_buckets s b)"
      then have "c \<noteq> a" using a(1) by blast
      then have "refs (lock_waiting s') c = refs (lock_waiting s) c" using ws by (simp add: waits_for_def)
      with olock_invD(2) [OF inv c] old [OF c] show ?thesis by (auto simp: node_ok_def heap(2))
    qed (use a n heap_a in \<open>auto simp: node_ok_def heap(2)\<close>)
    show "inj_on (\<lambda>c. node_object (lock_heap s' c)) (set (lock_buckets s' b))" for b
    proof (rule inj_onI, unfold mem)
      fix c d
      assume eq: "node_object (lock_heap s' c) = node_object (lock_heap s' d)"
        and "c = a \<and> b = ?idx \<or> c \<in> set (lock_buckets s b)" "d = a \<and> b = ?idx \<or> d \<in> set (lock_buckets s b)"
      moreover have "c = d" if "c \<in> set (lock_buckets s b)" "d \<in> set (lock_buckets s b)"
        using olock_invD(3) [OF inv, of b] that eq old by (simp add: inj_on_def)
      ultimately show "c = d" using new old heap_a n(1) by metis
    qed
    show "case x of (t, c, ob') \<Rightarrow> node_object (lock_heap s' c) = ob' \<and>
        c \<in> set (lock_buckets s' (hasher ob' mod nBucket))" if "x \<in> set (lock_waiting s')" for x
    proof -
      obtain t c ob' where x: "x = (t, c, ob')" by (metis prod_cases3)
      with ws that have "(t, c, ob') \<in> set (lock_waiting s) \<or> c = a \<and> ob' = ob" by (auto simp: waits_for_def)
      with olock_invD(4) [OF inv, of t c ob'] old n(1) heap_a x show ?thesis by (auto simp: mem)
    qed
    show "(t, ob') \<in> lock_held s' \<longleftrightarrow> (\<exists>c \<in> set (lock_buckets s' (hasher ob' mod nBucket)).
        node_object (lock_heap s' c) = ob' \<and> node_holder (lock_heap s' c) = Some t)" for t ob'
    proof (cases "ob' = ob")
      case True
      then show ?thesis using hs new old n(1) heap_a unfolding holds_for_def Bex_def mem by metis
    next
      case False
      then have "(t, ob') \<in> lock_held s' \<longleftrightarrow> (t, ob') \<in> lock_held s" using hs by (simp add: holds_for_def)
      with olock_invD(5) [OF inv, of t ob'] False old n(1) heap_a show ?thesis unfolding Bex_def mem by metis
    qed
    show "pool_ok s' c" if "c \<in> set (nodePool s')" for c
    proof -
      have "pool_ok s c" "c \<noteq> a" using olock_invD(7) [OF inv, of c] that a(3) by (auto simp: heap)
      then show ?thesis by (simp add: pool_ok_def heap(1,2) mem)
    qed
  qed (use olock_invD(1,6) [OF inv] a in \<open>simp_all add: heap\<close>)
qed

lemma olock_inv_remove:
  assumes inv: "olock_inv hasher nBucket s"
    and a: "a \<in> set (lock_buckets s (hasher ob mod nBucket))" "node_object (lock_heap s a) = ob"
    and n: "refCount n = 0" "node_holder n = None" "refs (lock_waiting s) a = 0"
    and hs: "holds_for ob n (lock_held s) (lock_held s')"
    and heap: "lock_heap s' = (lock_heap s)(a := n)" "lock_next s' = lock_next s" "lock_waiting s' = lock_waiting s"
      "lock_buckets s' = (lock_buckets s)(hasher ob mod nBucket := remove1 a (lock_buckets s (hasher ob mod nBucket)))"
      "nodePool s' = nodePool s \<or> nodePool s' = nodePool s @ [a]"
  shows "olock_inv hasher nBucket s'"
proof -
  let ?idx = "hasher ob mod nBucket"
  have a_idx: "b = ?idx" if "a \<in> set (lock_buckets s b)" for b
    using olock_invD(2) [OF inv that] a(2) by (simp add: node_ok_def)
  have uniq: "c = a" if "c \<in> set (lock_buckets s ?idx)" "node_object (lock_heap s c) = ob" for c
    using olock_invD(3) [OF inv, of ?idx] a that by (auto simp: inj_on_def)
  have mem: "c \<in> set (lock_buckets s' b) \<longleftrightarrow> c \<noteq> a \<and> c \<in> set (lock_buckets s b)" for b c
    using olock_invD(1) [OF inv, of ?idx] a_idx [of b] by (auto simp: heap)
  have old: "lock_heap s' c = lock_heap s c" if "c \<noteq> a" for c using that heap(1) by simp
  have a_pool: "a \<notin> set (nodePool s)" using olock_invD(7) [OF inv] a(1) by (auto simp: pool_ok_def)
  have nowait: "c \<noteq> a" if "(t, c, ob') \<in> set (lock_waiting s)" for t c ob'
    using refs_pos [OF that] n(3) by auto
  have lt: "a < lock_next s" using olock_invD(2) [OF inv a(1)] by (simp add: node_ok_def)
  show ?thesis
    unfolding olock_inv_def
  proof (intro conjI allI ballI)
    show "node_ok hasher nBucket s' b c" if "c \<in> set (lock_buckets s' b)" for b c
      using olock_invD(2) [OF inv, of c b] that old [of c] by (auto simp: mem node_ok_def heap(2,3))
    show "inj_on (\<lambda>c. node_object (lock_heap s' c)) (set (lock_buckets s' b))" for b
      using olock_invD(3) [OF inv, of b] old by (simp add: inj_on_def mem)
    show "case x of (t, c, ob') \<Rightarrow> node_object (lock_heap s' c) = ob' \<and>
        c \<in> set (lock_buckets s' (hasher ob' mod nBucket))" if "x \<in> set (lock_waiting s')" for x
    proof -
      obtain t c ob' where x: "x = (t, c, ob')" by (metis prod_cases3)
      with that have w: "(t, c, ob') \<in> set (lock_waiting s)" by (simp add: heap)
      from olock_invD(4) [OF inv w] nowait [OF w] old [of c] x show ?thesis by (simp add: mem)
    qed
    show "(t, ob') \<in> lock_held s' \<longleftrightarrow> (\<exists>c \<in> set (lock_buckets s' (hasher ob' mod nBucket)).
        node_object (lock_heap s' c) = ob' \<and> node_holder (lock_heap s' c) = Some t)" for t ob'
    proof (cases "ob' = ob")
      case True
      then show ?thesis using hs n(2) uniq old unfolding holds_for_def Bex_def mem by (metis option.distinct(1))
    next
      case False
      then have "(t, ob') \<in> lock_held s' \<longleftrightarrow> (t, ob') \<in> lock_held s" using hs by (simp add: holds_for_def)
      with olock_invD(5) [OF inv, of t ob'] False old a(2) show ?thesis unfolding Bex_def mem by metis
    qed
    show "pool_ok s' c" if "c \<in> set (nodePool s')" for c
    proof (cases "c = a")
      case False
      with that heap(5) have "pool_ok s c" using olock_invD(7) [OF inv, of c] by auto
      with False show ?thesis by (simp add: pool_ok_def heap(1,2) mem)
    qed (use n lt in \<open>simp add: pool_ok_def heap(1,2) mem\<close>)
    show "distinct (nodePool s')" using olock_invD(6) [OF inv] a_pool heap(5) by auto
    show "distinct (lock_buckets s' b)" for b using olock_invD(1) [OF inv] by (simp add: heap)
  qed
qed

lemma olock_inv_change:
  assumes "olock_inv hasher nBucket s"
    and "a \<in> set (lock_buckets s (hasher ob mod nBucket))" "node_object (lock_heap s a) = ob"
    and "node_object n = ob" "refCount n = refs (lock_waiting s') a + (if node_holder n = None then 0 else 1)"
      "0 < refCount n"
    and "waits_for a ob (lock_waiting s) (lock_waiting s')" "holds_for ob n (lock_held s) (lock_held s')"
    and "lock_heap s' = (lock_heap s)(a := n)" "lock_next s' = lock_next s" "nodePool s' = nodePool s"
      "lock_buckets s' = lock_buckets s"
  shows "olock_inv hasher nBucket s'"
proof -
  have "s' = (set_lock_node a n s)\<lparr>lock_waiting := lock_waiting s', lock_held := lock_held s'\<rparr>"
    using assms(9-) by (simp add: set_lock_node_def)
  with olock_inv_update [OF assms(1-8)] show ?thesis by simp
qed

section \<open>Every step keeps it\<close>

lemma waits_for_Cons: "waits_for a ob ws ((t, a, ob) # ws)"
  by (auto simp: waits_for_def)

lemma waits_for_remove1: "(t, a, ob) \<in> set ws \<Longrightarrow> waits_for a ob ws (remove1 (t, a, ob) ws)"
proof -
  assume w: "(t, a, ob) \<in> set ws"
  have "refs (remove1 (t, a, ob) ws) c = refs ws c" if "c \<noteq> a" for c
    using refs_remove1 [OF w, of c] that by simp
  then show ?thesis using set_remove1_subset [of "(t, a, ob)" ws] by (auto simp: waits_for_def)
qed

lemma waits_for_refl: "waits_for a ob ws ws"
  by (auto simp: waits_for_def)

text \<open>What the node of an object says about the held locks.\<close>

lemma held_iff:
  assumes inv: "olock_inv hasher nBucket s"
    and a: "a \<in> set (lock_buckets s (hasher ob mod nBucket))" "node_object (lock_heap s a) = ob"
  shows "(t, ob) \<in> lock_held s \<longleftrightarrow> node_holder (lock_heap s a) = Some t"
  using olock_invD(5) [OF inv, of t ob] olock_invD(3) [OF inv, of "hasher ob mod nBucket"] a
  by (auto simp: inj_on_def)

lemma held_none:
  assumes inv: "olock_inv hasher nBucket s"
    and "\<And>c. c \<in> set (lock_buckets s (hasher ob mod nBucket)) \<Longrightarrow> node_object (lock_heap s c) \<noteq> ob"
  shows "(t, ob) \<notin> lock_held s"
  using olock_invD(5) [OF inv, of t ob] assms(2) by auto

lemma fresh_refs:
  assumes "olock_inv hasher nBucket s" "fresh_node s a"
  shows "refs (lock_waiting s) a = 0"
  using olock_invD(4) [OF assms(1)] assms(2) by (intro refs_zero) (auto simp: fresh_node_def pool_ok_def)

lemma olock_inv_enter:
  assumes inv: "olock_inv hasher nBucket s"
  shows "olock_inv hasher nBucket (ObjectLock_Lock_enter hasher nBucket dflt t ob s)"
proof (cases "Bucket_FindNodeLocked ob (lock_buckets s (hasher ob mod nBucket)) (lock_heap s)")
  case (Some a)
  note a = FindNode_Some [OF Some]
  note ok = olock_invD(2) [OF inv, of a "hasher ob mod nBucket"]
  show ?thesis
    by (rule olock_inv_change [OF inv, where a = a and ob = ob
          and n = "(lock_heap s a)\<lparr>refCount := refCount (lock_heap s a) + 1\<rparr>"])
      (use a ok in \<open>auto simp: ObjectLock_Lock_enter_def Some set_lock_node_def waits_for_Cons node_ok_def
        holds_for_def held_iff [OF inv]\<close>)
next
  case None
  obtain a s1 where al: "ObjectLock_AllocNode dflt s = (a, s1)" by fastforce
  note ac = AllocNode_correct [OF inv al]
  then have inv1: "olock_inv hasher nBucket s1" and fresh: "fresh_node s1 a" by simp_all
  have new: "c \<in> set (lock_buckets s1 (hasher ob mod nBucket)) \<Longrightarrow> node_object (lock_heap s1 c) \<noteq> ob" for c
    using FindNode_None [OF None, of c] ac by auto
  show ?thesis
    by (rule olock_inv_insert [OF inv1 fresh new,
          where n = "(lock_heap s1 a)\<lparr>node_object := ob, refCount := refCount (lock_heap s1 a) + 1\<rparr>"])
      (use fresh fresh_refs [OF inv1 fresh] held_none [OF inv1 new] in
        \<open>auto simp: ObjectLock_Lock_enter_def None al set_lock_node_def waits_for_Cons fresh_node_def pool_ok_def
          holds_for_def Let_def\<close>)
qed

lemma olock_inv_acquire:
  assumes inv: "olock_inv hasher nBucket s" and w: "(t, a, ob) \<in> set (lock_waiting s)"
    and free: "node_holder (lock_heap s a) = None"
  shows "olock_inv hasher nBucket (ObjectLock_Lock_acquire t a ob s)"
proof -
  have a: "a \<in> set (lock_buckets s (hasher ob mod nBucket))" "node_object (lock_heap s a) = ob"
    using olock_invD(4) [OF inv w] by auto
  show ?thesis
    by (rule olock_inv_change [OF inv a, where n = "(lock_heap s a)\<lparr>node_holder := Some t\<rparr>"])
      (use a olock_invD(2) [OF inv a(1)] refs_remove1 [OF w, of a] free held_iff [OF inv a] in
        \<open>auto simp: ObjectLock_Lock_acquire_def set_lock_node_def waits_for_remove1 [OF w] node_ok_def holds_for_def\<close>)
qed

lemma olock_inv_trylock:
  assumes inv: "olock_inv hasher nBucket s"
    and tl: "ObjectLock_TryLock hasher nBucket dflt bucket_free t ob s = (r, s')"
  shows "olock_inv hasher nBucket s'"
proof (cases "bucket_free \<and> Bucket_FindNodeLocked ob (lock_buckets s (hasher ob mod nBucket)) (lock_heap s) = None")
  case True
  obtain a s1 where al: "ObjectLock_AllocNode dflt s = (a, s1)" by fastforce
  note ac = AllocNode_correct [OF inv al]
  then have inv1: "olock_inv hasher nBucket s1" and fresh: "fresh_node s1 a" by simp_all
  have new: "c \<in> set (lock_buckets s1 (hasher ob mod nBucket)) \<Longrightarrow> node_object (lock_heap s1 c) \<noteq> ob" for c
    using FindNode_None [of ob _ _ c] ac True by auto
  show ?thesis
    by (rule olock_inv_insert [OF inv1 fresh new, where n = "(lock_heap s1 a)\<lparr>node_object := ob,
          refCount := refCount (lock_heap s1 a) + 1, node_holder := Some t\<rparr>"])
      (use tl True fresh fresh_refs [OF inv1 fresh] held_none [OF inv1 new] in
        \<open>auto simp: ObjectLock_TryLock_def al set_lock_node_def waits_for_refl fresh_node_def pool_ok_def
          holds_for_def Let_def\<close>)
qed (use inv tl in \<open>auto simp: ObjectLock_TryLock_def Let_def split: option.splits if_splits\<close>)

lemma olock_unlock_node:
  assumes inv: "olock_inv hasher nBucket s" and held: "(t, ob) \<in> lock_held s"
  obtains a where "Bucket_FindNodeLocked ob (lock_buckets s (hasher ob mod nBucket)) (lock_heap s) = Some a"
    "a \<in> set (lock_buckets s (hasher ob mod nBucket))" "node_object (lock_heap s a) = ob"
    "node_holder (lock_heap s a) = Some t" "refCount (lock_heap s a) = refs (lock_waiting s) a + 1"
proof -
  from olock_invD(5) [OF inv, of t ob] held FindNode_None [of ob "lock_buckets s (hasher ob mod nBucket)" "lock_heap s"]
  obtain a where f: "Bucket_FindNodeLocked ob (lock_buckets s (hasher ob mod nBucket)) (lock_heap s) = Some a"
    by fastforce
  note a = FindNode_Some [OF f]
  with held_iff [OF inv, of a ob t] held have "node_holder (lock_heap s a) = Some t" by simp
  with that [OF f] a olock_invD(2) [OF inv, of a "hasher ob mod nBucket"] show thesis by (simp add: node_ok_def)
qed

lemma olock_inv_unlock:
  assumes inv: "olock_inv hasher nBucket s" and held: "(t, ob) \<in> lock_held s"
    and u: "ObjectLock_Unlock hasher nBucket room t ob s = Some s'"
  shows "olock_inv hasher nBucket s'"
proof -
  obtain a where f: "Bucket_FindNodeLocked ob (lock_buckets s (hasher ob mod nBucket)) (lock_heap s) = Some a"
    and a: "a \<in> set (lock_buckets s (hasher ob mod nBucket))" "node_object (lock_heap s a) = ob"
    and h: "node_holder (lock_heap s a) = Some t" "refCount (lock_heap s a) = refs (lock_waiting s) a + 1"
    using olock_unlock_node [OF inv held] by metis
  let ?n = "(lock_heap s a)\<lparr>node_holder := None, refCount := refCount (lock_heap s a) - 1\<rparr>"
  have hs: "holds_for ob ?n (lock_held s) (lock_held s - {(t, ob)})"
    using held_iff [OF inv a] h(1) by (auto simp: holds_for_def)
  show ?thesis
  proof (cases "refs (lock_waiting s) a = 0")
    case True
    show ?thesis
      by (rule olock_inv_remove [OF inv a, where n = ?n])
        (use u f h hs True in \<open>auto simp: ObjectLock_Unlock_def set_lock_node_def ObjectLock_DeallocNode_def Let_def\<close>)
  next
    case False
    show ?thesis
      by (rule olock_inv_change [OF inv a, where n = ?n])
        (use u f a h hs False in \<open>auto simp: ObjectLock_Unlock_def set_lock_node_def waits_for_refl Let_def\<close>)
  qed
qed

lemma olock_inv_step: "olock_step hasher nBucket dflt s s' \<Longrightarrow> olock_inv hasher nBucket s \<Longrightarrow> olock_inv hasher nBucket s'"
  by (induction rule: olock_step.induct)
    (rule olock_inv_enter olock_inv_acquire olock_inv_trylock olock_inv_unlock, assumption+)+

definition olock_init :: "'o object_lock \<Rightarrow> bool" where
  "olock_init s \<longleftrightarrow> (\<exists>nil_node. s = ObjectLock_ctor nil_node)"

lemma olock_inv_init: "olock_init s \<Longrightarrow> olock_inv hasher nBucket s"
  by (clarsimp simp: olock_init_def ObjectLock_ctor_def olock_inv_def)

interpretation olocks: invariant_system olock_init "olock_step hasher nBucket dflt" "olock_inv hasher nBucket"
  for hasher nBucket dflt
  by unfold_locales (rule olock_inv_init, assumption, rule olock_inv_step)

section \<open>Properties\<close>

text \<open>
  (C21) Mutual exclusion: in every interleaving of \<open>Lock\<close>, \<open>TryLock\<close> and \<open>Unlock\<close> by any number of threads,
  with nodes recycled through the pool, no two threads hold the lock of the same object; and what a
  thread waits for is still the node of its object, in the table, with a reference for that thread.
\<close>

theorem ObjectLock_mutual_exclusion:
  assumes "reach olock_init (olock_step hasher nBucket dflt) s"
  shows "((t, ob) \<in> lock_held s \<and> (t', ob) \<in> lock_held s \<longrightarrow> t = t') \<and>
    ((t, a, ob) \<in> set (lock_waiting s) \<longrightarrow> a \<in> set (lock_buckets s (hasher ob mod nBucket)) \<and>
       node_object (lock_heap s a) = ob \<and> 0 < refCount (lock_heap s a))"
proof -
  note inv = olocks.reach_inv [OF assms]
  have "t = t'" if "(t, ob) \<in> lock_held s" "(t', ob) \<in> lock_held s"
    using that olock_unlock_node [OF inv that(1)] held_iff [OF inv] by (metis option.inject)
  moreover have "0 < refCount (lock_heap s a)" if "(t, a, ob) \<in> set (lock_waiting s)"
    using olock_invD(2) [OF inv] olock_invD(4) [OF inv that] by (auto simp: node_ok_def)
  ultimately show ?thesis using olock_invD(4) [OF inv] by blast
qed

text \<open>Thread 1 holds the lock of \<open>db\<close>, thread 2 waits for it.\<close>

definition ex_locks :: "string object_lock" where
  "ex_locks = ObjectLock_Lock_enter length 4 [] 2 ''db'' (snd (ObjectLock_TryLock length 4 [] True 1 ''db''
     (ObjectLock_ctor \<lparr>node_object = [], node_holder = None, refCount = 0\<rparr>)))"

lemma ex_locks_eq:
  "lock_held ex_locks = {(1, ''db'')}" "lock_waiting ex_locks = [(2, 0, ''db'')]" "lock_buckets ex_locks 2 = [0]"
  "lock_heap ex_locks 0 = \<lparr>node_object = ''db'', node_holder = Some 1, refCount = 2\<rparr>"
  by (simp_all add: ex_locks_def ObjectLock_TryLock_def ObjectLock_ctor_def Bucket_FindNodeLocked_def
      ObjectLock_AllocNode_def set_lock_node_def ObjectLock_Lock_enter_def)

lemma ex_locks_reach: "reach olock_init (olock_step length 4 []) ex_locks"
proof -
  let ?s0 = "ObjectLock_ctor \<lparr>node_object = ([] :: string), node_holder = None, refCount = 0\<rparr>"
  let ?s1 = "snd (ObjectLock_TryLock length 4 [] True 1 ''db'' ?s0)"
  have "olock_step length 4 [] ?s0 ?s1"
    by (rule olock_step.trylock [of 1 _ _ _ _ True "''db''" "fst (ObjectLock_TryLock length 4 [] True 1 ''db'' ?s0)"])
      (simp_all add: ObjectLock_ctor_def)
  moreover have "reach olock_init (olock_step length 4 []) ?s0" by (rule reach_init) (auto simp: olock_init_def)
  ultimately have "reach olock_init (olock_step length 4 []) ?s1" by (rule reach_step [rotated])
  moreover have "olock_step length 4 [] ?s1 ex_locks"
    unfolding ex_locks_def
    by (rule olock_step.enter) (simp add: ObjectLock_TryLock_def ObjectLock_ctor_def Bucket_FindNodeLocked_def
        ObjectLock_AllocNode_def set_lock_node_def)
  ultimately show ?thesis by (rule reach_step)
qed

theorem ObjectLock_mutual_exclusion_witness: "0 < refCount (lock_heap ex_locks 0)"
  using ObjectLock_mutual_exclusion [OF ex_locks_reach, of 2 "''db''" 2 0] ex_locks_eq by simp

text \<open>
  \<open>Unlock\<close> by the holder never violates its assertion; it hands the object to the waiting threads, or,
  when there are none, takes the node out of the table; \<open>TryLock\<close> of an object nobody holds or waits for
  succeeds when the bucket is free; and when nothing is held or waited for the destructor's assertion holds.
\<close>

theorem ObjectLock_unlock_frees:
  assumes "reach olock_init (olock_step hasher nBucket dflt) s" "0 < nBucket"
  shows "((t, ob) \<in> lock_held s \<longrightarrow> (\<exists>s'. ObjectLock_Unlock hasher nBucket room t ob s = Some s' \<and>
           (\<forall>t'. (t', ob) \<notin> lock_held s') \<and> lock_waiting s' = lock_waiting s)) \<and>
    (ob \<notin> snd ` lock_held s \<and> ob \<notin> (snd \<circ> snd) ` set (lock_waiting s) \<longrightarrow>
       fst (ObjectLock_TryLock hasher nBucket dflt True t ob s)) \<and>
    (lock_held s = {} \<and> lock_waiting s = [] \<longrightarrow> ObjectLock_dtor nBucket s = Some ())"
proof (intro conjI impI)
  note inv = olocks.reach_inv [OF assms(1)]
  assume held: "(t, ob) \<in> lock_held s"
  obtain a where f: "Bucket_FindNodeLocked ob (lock_buckets s (hasher ob mod nBucket)) (lock_heap s) = Some a"
    and a: "a \<in> set (lock_buckets s (hasher ob mod nBucket))" "node_object (lock_heap s a) = ob"
    and h: "node_holder (lock_heap s a) = Some t" "refCount (lock_heap s a) = refs (lock_waiting s) a + 1"
    using olock_unlock_node [OF inv held] by metis
  then show "\<exists>s'. ObjectLock_Unlock hasher nBucket room t ob s = Some s' \<and>
      (\<forall>t'. (t', ob) \<notin> lock_held s') \<and> lock_waiting s' = lock_waiting s"
    using held_iff [OF inv a]
    by (auto simp: ObjectLock_Unlock_def ObjectLock_DeallocNode_def set_lock_node_def Let_def)
next
  note inv = olocks.reach_inv [OF assms(1)]
  have used: "\<exists>t. (t, node_object (lock_heap s a)) \<in> lock_held s \<or> (t, a, node_object (lock_heap s a)) \<in> set (lock_waiting s)"
    if "a \<in> set (lock_buckets s b)" for a b
  proof (cases "node_holder (lock_heap s a)")
    case None
    with olock_invD(2) [OF inv that] have "0 < refs (lock_waiting s) a" by (simp add: node_ok_def)
    then obtain t ob where "(t, a, ob) \<in> set (lock_waiting s)" by (auto simp: refs_def filter_empty_conv)
    with olock_invD(4) [OF inv this] show ?thesis by blast
  next
    case (Some t)
    with held_iff [OF inv, of a "node_object (lock_heap s a)" t] olock_invD(2) [OF inv that] that show ?thesis
      by (auto simp: node_ok_def)
  qed
  { assume "ob \<notin> snd ` lock_held s \<and> ob \<notin> (snd \<circ> snd) ` set (lock_waiting s)"
    then have "(t, ob) \<notin> lock_held s \<and> (t, a, ob) \<notin> set (lock_waiting s)" for t a by force
    then have "Bucket_FindNodeLocked ob (lock_buckets s (hasher ob mod nBucket)) (lock_heap s) \<noteq> Some a" for a
      using used [of a "hasher ob mod nBucket"] FindNode_Some by metis
    then have "Bucket_FindNodeLocked ob (lock_buckets s (hasher ob mod nBucket)) (lock_heap s) = None"
      by (cases "Bucket_FindNodeLocked ob (lock_buckets s (hasher ob mod nBucket)) (lock_heap s)") auto
    then show "fst (ObjectLock_TryLock hasher nBucket dflt True t ob s)"
      by (simp add: ObjectLock_TryLock_def Let_def split: prod.split) }
  { assume "lock_held s = {} \<and> lock_waiting s = []"
    then have "lock_buckets s i = []" for i using used [of _ i] by (cases "lock_buckets s i") auto
    then show "ObjectLock_dtor nBucket s = Some ()" by (simp add: ObjectLock_dtor_def) }
qed

theorem ObjectLock_unlock_frees_witness: "ObjectLock_Unlock length 4 True 1 ''db'' ex_locks \<noteq> None"
  using ObjectLock_unlock_frees [OF ex_locks_reach, of 1 "''db''" True] ex_locks_eq by auto

end
