(* ===== verification/Thrift_Client_Pool.thy ===== *)
theory Thrift_Client_Pool
  imports Prelude "HOL-Library.AList"
begin

text \<open>
  The pool of thrift channels (\<open>common/thrift_client_pool.{h,cpp}\<close>): event loops with their maps from addresses to
  channels, the choice between an existing and a new channel, the cleanup of stale entries, and \<open>getClient\<close>.
  A channel is the number of the call that has created it. Whether a channel is still owned by somebody (its \<open>weak_ptr\<close> can
  be locked) and whether its transport is good is observed by every call; time is read from the clock and is an
  argument. The step relation at the end lets clients come and go and connections break.
\<close>

section \<open>Event loops\<close>

record pool_flags =
  channel_cleanup_min_interval_seconds :: int
  channel_max_checking_size :: int
  min_channel_create_interval_seconds :: int

text \<open>The weak pointer to a channel and its \<open>ClientStatusCallback\<close>, which the entry owns.\<close>

record channel_entry =
  ce_channel :: nat
  ce_create_time :: int
  ce_is_good :: bool

text \<open>The map of channels is a list in the order in which the hash map is iterated.\<close>

record 'a event_loop =
  evb :: nat
  last_cleanup_time :: int
  channels :: "('a \<times> channel_entry) list"

record channel_view =
  ch_alive :: "nat \<Rightarrow> bool"
  ch_good :: "nat \<Rightarrow> bool"

definition EventLoop_ctor :: "nat \<Rightarrow> int \<Rightarrow> 'a event_loop" where
  "EventLoop_ctor e now = \<lparr>evb = e, last_cleanup_time = now, channels = []\<rparr>"

text \<open>
  \<open>getChannelFor\<close>: the channel (or \<open>nullptr\<close>), the channel whose status flag \<open>is_good\<close> then points to, and the loop
  afterwards. \<open>fresh\<close> is the number of the channel it may create; \<open>connected\<close> tells whether the attempt to connect
  has not failed at once.
\<close>

definition should_new_channel :: "pool_flags \<Rightarrow> channel_view \<Rightarrow> int \<Rightarrow> bool \<Rightarrow> channel_entry option \<Rightarrow> bool" where
  "should_new_channel fl v now aggressively entry =
    (case entry of
       None \<Rightarrow> True
     | Some e \<Rightarrow>
         let channel_good = (ch_alive v (ce_channel e) \<and> ch_good v (ce_channel e));
             too_soon = (ce_create_time e + min_channel_create_interval_seconds fl > now)
         in \<not> channel_good \<and> (\<not> too_soon \<or> aggressively))"

definition getChannelFor ::
  "pool_flags \<Rightarrow> channel_view \<Rightarrow> int \<Rightarrow> int \<Rightarrow> nat \<Rightarrow> bool \<Rightarrow> 'a \<Rightarrow> bool \<Rightarrow> 'a event_loop \<Rightarrow> nat option \<times> nat \<times> 'a event_loop" where
  "getChannelFor fl v now create_time fresh connected addr aggressively el =
    (if should_new_channel fl v now aggressively (map_of (channels el) addr)
     then (Some fresh, fresh,
           el\<lparr>channels := AList.update addr \<lparr>ce_channel = fresh, ce_create_time = create_time, ce_is_good = connected\<rparr> (channels el)\<rparr>)
     else let e = the (map_of (channels el) addr)
          in (if ch_alive v (ce_channel e) then Some (ce_channel e) else None, ce_channel e, el))"

fun sweep :: "pool_flags \<Rightarrow> channel_view \<Rightarrow> int \<Rightarrow> ('a \<times> channel_entry) list \<Rightarrow> ('a \<times> channel_entry) list" where
  "sweep fl v n [] = []"
| "sweep fl v n ((a, e) # entries) =
    (if n < channel_max_checking_size fl
     then if ch_alive v (ce_channel e) then (a, e) # sweep fl v (n + 1) entries else sweep fl v (n + 1) entries
     else (a, e) # entries)"

definition cleanupStaleChannels :: "pool_flags \<Rightarrow> channel_view \<Rightarrow> int \<Rightarrow> 'a \<Rightarrow> 'a event_loop \<Rightarrow> 'a event_loop" where
  "cleanupStaleChannels fl v now addr el =
    (if last_cleanup_time el + channel_cleanup_min_interval_seconds fl < now
     then el\<lparr>last_cleanup_time := now,
             channels := takeWhile (\<lambda>(a, _). a \<noteq> addr) (channels el) @
               sweep fl v 0 (dropWhile (\<lambda>(a, _). a \<noteq> addr) (channels el))\<rparr>
     else el)"

section \<open>The pool\<close>

record 'a client_pool =
  event_loops :: "'a event_loop list"
  nextEvbIdx :: u32
  next_channel :: nat

text \<open>The constructors; \<open>None\<close> is a failed \<open>CHECK\<close>. The counter is static, so a new pool goes on with it.\<close>

definition ThriftClientPool_ctor :: "u16 \<Rightarrow> int \<Rightarrow> u32 \<Rightarrow> nat \<Rightarrow> 'a client_pool option" where
  "ThriftClientPool_ctor n_io_threads now idx ch =
    (if n_io_threads > 0
     then Some \<lparr>event_loops = map (\<lambda>i. EventLoop_ctor i now) [0..<unat n_io_threads], nextEvbIdx = idx, next_channel = ch\<rparr>
     else None)"

definition ThriftClientPool_ctor_evbs :: "nat list \<Rightarrow> int \<Rightarrow> u32 \<Rightarrow> nat \<Rightarrow> 'a client_pool option" where
  "ThriftClientPool_ctor_evbs evbs now idx ch =
    (if evbs = [] then None
     else Some \<lparr>event_loops = map (\<lambda>e. EventLoop_ctor e now) evbs, nextEvbIdx = idx, next_channel = ch\<rparr>)"

definition shareIOThreads :: "'a client_pool \<Rightarrow> int \<Rightarrow> u32 \<Rightarrow> nat \<Rightarrow> 'b client_pool option" where
  "shareIOThreads pool now idx ch = ThriftClientPool_ctor_evbs (map evb (event_loops pool)) now idx ch"

text \<open>
  A client: the event loop it lives on, its channel, and the callback its \<open>is_good\<close> flag belongs to. The clock is
  read up to three times: for the decision, for the new callback and for the cleanup.
\<close>

record thrift_client =
  cl_loop :: nat
  cl_channel :: nat
  cl_is_good :: nat

record clock =
  t_check :: int
  t_create :: int
  t_cleanup :: int

definition getClient ::
  "pool_flags \<Rightarrow> channel_view \<Rightarrow> clock \<Rightarrow> bool \<Rightarrow> 'a \<Rightarrow> bool \<Rightarrow> 'a client_pool \<Rightarrow> thrift_client option \<times> 'a client_pool" where
  "getClient fl v t connected addr aggressively pool =
    (let idx = unat (nextEvbIdx pool) mod length (event_loops pool);
         (channel, flag, el) = getChannelFor fl v (t_check t) (t_create t) (next_channel pool) connected addr aggressively
           (event_loops pool ! idx);
         v = (case channel of None \<Rightarrow> v | Some c \<Rightarrow> v\<lparr>ch_alive := (ch_alive v)(c := True)\<rparr>);
         el = cleanupStaleChannels fl v (t_cleanup t) addr el
     in (map_option (\<lambda>c. \<lparr>cl_loop = idx, cl_channel = c, cl_is_good = flag\<rparr>) channel,
         pool\<lparr>event_loops := (event_loops pool)[idx := el], nextEvbIdx := nextEvbIdx pool + 1,
              next_channel := next_channel pool + 1\<rparr>))"

text \<open>\<open>channelClosed\<close> and \<open>connectError\<close> of the callback of a channel, if it still exists.\<close>

definition channelClosed :: "nat \<Rightarrow> 'a client_pool \<Rightarrow> 'a client_pool" where
  "channelClosed c pool =
    pool\<lparr>event_loops := map (\<lambda>el. el\<lparr>channels := map (\<lambda>(a, e).
       (a, if ce_channel e = c then e\<lparr>ce_is_good := False\<rparr> else e)) (channels el)\<rparr>) (event_loops pool)\<rparr>"

section \<open>Clients come and go\<close>

text \<open>The clients users hold, with the address they asked for, and the state of the transports.\<close>

record 'a pool_world =
  w_pool :: "'a client_pool"
  w_clients :: "('a \<times> thrift_client) list"
  w_good :: "nat \<Rightarrow> bool"

definition view_of :: "'a pool_world \<Rightarrow> channel_view" where
  "view_of w = \<lparr>ch_alive = (\<lambda>c. c \<in> cl_channel ` snd ` set (w_clients w)), ch_good = w_good w\<rparr>"

inductive pool_step :: "pool_flags \<Rightarrow> 'a pool_world \<Rightarrow> 'a pool_world \<Rightarrow> bool" for fl where
  get: "getClient fl (view_of w) t connected addr aggressively (w_pool w) = (client, pool) \<Longrightarrow>
    pool_step fl w (w\<lparr>w_pool := pool,
      w_clients := (case client of None \<Rightarrow> w_clients w | Some cl \<Rightarrow> (addr, cl) # w_clients w),
      w_good := (w_good w)(next_channel (w_pool w) := connected)\<rparr>)"
| release: "x \<in> set (w_clients w) \<Longrightarrow> pool_step fl w (w\<lparr>w_clients := remove1 x (w_clients w)\<rparr>)"
| break: "pool_step fl w (w\<lparr>w_pool := channelClosed c (w_pool w), w_good := (w_good w)(c := False)\<rparr>)"

definition pool_init :: "'a pool_world \<Rightarrow> bool" where
  "pool_init w \<longleftrightarrow> w_clients w = [] \<and>
    (\<exists>n now idx ch. ThriftClientPool_ctor n now idx ch = Some (w_pool w)) \<or>
    w_clients w = [] \<and> (\<exists>evbs now idx ch. ThriftClientPool_ctor_evbs evbs now idx ch = Some (w_pool w))"

section \<open>The invariant\<close>

text \<open>
  Every channel number occurs in at most one entry; a flag tells the state of its transport; and the entry of the
  loop and address of a client whose transport is good is the entry of its channel.
\<close>

definition entry_of :: "'a client_pool \<Rightarrow> nat \<Rightarrow> 'a \<Rightarrow> channel_entry option" where
  "entry_of pool i a = (if i < length (event_loops pool) then map_of (channels (event_loops pool ! i)) a else None)"

definition pool_inv :: "'a pool_world \<Rightarrow> bool" where
  "pool_inv w \<longleftrightarrow>
    event_loops (w_pool w) \<noteq> [] \<and>
    (\<forall>el \<in> set (event_loops (w_pool w)). distinct (map fst (channels el))) \<and>
    (\<forall>i a e. entry_of (w_pool w) i a = Some e \<longrightarrow> ce_channel e < next_channel (w_pool w) \<and> ce_is_good e = w_good w (ce_channel e)) \<and>
    (\<forall>i a e j b f. entry_of (w_pool w) i a = Some e \<and> entry_of (w_pool w) j b = Some f \<and> ce_channel e = ce_channel f
       \<longrightarrow> i = j \<and> a = b) \<and>
    (\<forall>a cl. (a, cl) \<in> set (w_clients w) \<longrightarrow> cl_loop cl < length (event_loops (w_pool w)) \<and> cl_channel cl < next_channel (w_pool w) \<and>
       cl_is_good cl = cl_channel cl \<and>
       (w_good w (cl_channel cl) \<longrightarrow> (\<exists>e. entry_of (w_pool w) (cl_loop cl) a = Some e \<and> ce_channel e = cl_channel cl)))"

lemma sweep_subset: "set (sweep fl v n xs) \<subseteq> set xs"
  by (induction fl v n xs rule: sweep.induct) auto

lemma sweep_distinct: "distinct (map fst xs) \<Longrightarrow> distinct (map fst (sweep fl v n xs))"
proof (induction fl v n xs rule: sweep.induct)
  case (2 fl v n a e xs)
  moreover have "a \<notin> fst ` set (sweep fl v (n + 1) xs)" using 2(3) sweep_subset [of fl v "n + 1" xs] by auto
  ultimately show ?case by auto
qed simp

lemma sweep_keeps: "(a, e) \<in> set xs \<Longrightarrow> ch_alive v (ce_channel e) \<Longrightarrow> (a, e) \<in> set (sweep fl v n xs)"
  by (induction fl v n xs rule: sweep.induct) auto

lemma cleanup_entries:
  assumes "distinct (map fst (channels el))"
  shows "distinct (map fst (channels (cleanupStaleChannels fl v now addr el)))"
    and "map_of (channels (cleanupStaleChannels fl v now addr el)) b = Some e \<Longrightarrow> map_of (channels el) b = Some e"
    and "map_of (channels el) b = Some e \<Longrightarrow> ch_alive v (ce_channel e) \<Longrightarrow>
      map_of (channels (cleanupStaleChannels fl v now addr el)) b = Some e"
proof -
  let ?P = "\<lambda>(a, _ :: channel_entry). a \<noteq> addr"
  let ?xs = "takeWhile ?P (channels el)" and ?ys = "dropWhile ?P (channels el)"
  have split: "channels el = ?xs @ ?ys" by simp
  have d: "distinct (map fst (?xs @ sweep fl v 0 ?ys))"
  proof -
    have "distinct (map fst ?xs @ map fst ?ys)" using assms split by (metis map_append)
    then have "distinct (map fst ?xs)" "distinct (map fst ?ys)" "fst ` set ?xs \<inter> fst ` set ?ys = {}" by auto
    with sweep_subset [of fl v 0 ?ys] sweep_distinct [of ?ys fl v 0] show ?thesis by (auto 4 4)
  qed
  have sub: "set (?xs @ sweep fl v 0 ?ys) \<subseteq> set (channels el)"
    using sweep_subset [of fl v 0 ?ys] by (auto dest: set_takeWhileD set_dropWhileD)
  show d': "distinct (map fst (channels (cleanupStaleChannels fl v now addr el)))"
    using d assms by (simp add: cleanupStaleChannels_def)
  show "map_of (channels (cleanupStaleChannels fl v now addr el)) b = Some e \<Longrightarrow> map_of (channels el) b = Some e"
    using sub d assms by (auto simp: cleanupStaleChannels_def map_of_eq_Some_iff simp del: map_append set_append split: if_splits)
  have keep: "(b, e) \<in> set (?xs @ sweep fl v 0 ?ys)" if "(b, e) \<in> set (channels el)" "ch_alive v (ce_channel e)"
  proof -
    have "(b, e) \<in> set ?xs \<or> (b, e) \<in> set ?ys" using that(1) split by (metis Un_iff set_append)
    with sweep_keeps [of b e ?ys v fl 0] that(2) show ?thesis by auto
  qed
  show "map_of (channels el) b = Some e \<Longrightarrow> ch_alive v (ce_channel e) \<Longrightarrow>
      map_of (channels (cleanupStaleChannels fl v now addr el)) b = Some e"
    using keep d assms by (auto simp: cleanupStaleChannels_def map_of_eq_Some_iff simp del: map_append set_append)
qed

text \<open>What \<open>getClient\<close> does to the entries: it may add one for a channel it has created, and may drop dead ones.\<close>

lemma getClient_effect:
  assumes "getClient fl v t connected addr aggressively pool = (client, pool')" "event_loops pool \<noteq> []"
    and "\<forall>el \<in> set (event_loops pool). distinct (map fst (channels el))"
    and "idx = unat (nextEvbIdx pool) mod length (event_loops pool)"
    and "created = should_new_channel fl v (t_check t) aggressively (entry_of pool idx addr)"
  shows "length (event_loops pool') = length (event_loops pool)" "next_channel pool' = Suc (next_channel pool)" "idx < length (event_loops pool)"
    and "\<forall>el \<in> set (event_loops pool'). distinct (map fst (channels el))"
    and "created \<Longrightarrow> client = Some \<lparr>cl_loop = idx, cl_channel = next_channel pool, cl_is_good = next_channel pool\<rparr> \<and>
      entry_of pool' idx addr =
        Some \<lparr>ce_channel = next_channel pool, ce_create_time = t_create t, ce_is_good = connected\<rparr>"
    and "\<not> created \<Longrightarrow> \<exists>e. entry_of pool idx addr = Some e \<and> client = (if ch_alive v (ce_channel e)
        then Some \<lparr>cl_loop = idx, cl_channel = ce_channel e, cl_is_good = ce_channel e\<rparr> else None)"
    and "\<not> (created \<and> j = idx \<and> b = addr) \<Longrightarrow> entry_of pool' j b = Some e \<Longrightarrow> entry_of pool j b = Some e"
    and "\<not> (created \<and> j = idx \<and> b = addr) \<Longrightarrow> entry_of pool j b = Some e \<Longrightarrow> ch_alive v (ce_channel e) \<Longrightarrow> entry_of pool' j b = Some e"
proof -
  let ?el = "event_loops pool ! idx"
  show idx: "idx < length (event_loops pool)" using assms(2,4) by simp
  then have e: "entry_of pool idx b = map_of (channels ?el) b" for b by (simp add: entry_of_def)
  have d: "distinct (map fst (channels ?el))" using assms(3) idx by simp
  obtain channel flag el where g: "getChannelFor fl v (t_check t) (t_create t) (next_channel pool) connected addr aggressively ?el =
      (channel, flag, el)" by (metis prod_cases3)
  define v' where "v' = (case channel of None \<Rightarrow> v | Some c \<Rightarrow> v\<lparr>ch_alive := (ch_alive v)(c := True)\<rparr>)"
  let ?new = "\<lparr>ce_channel = next_channel pool, ce_create_time = t_create t, ce_is_good = connected\<rparr>"
  have client: "client = map_option (\<lambda>c. \<lparr>cl_loop = idx, cl_channel = c, cl_is_good = flag\<rparr>) channel"
    and pool': "pool' = pool\<lparr>event_loops := (event_loops pool)[idx := cleanupStaleChannels fl v' (t_cleanup t) addr el],
      nextEvbIdx := nextEvbIdx pool + 1, next_channel := next_channel pool + 1\<rparr>"
    using assms(1) g by (simp_all add: getClient_def Let_def v'_def flip: assms(4))
  have del: "distinct (map fst (channels el))" using g d by (auto simp: getChannelFor_def Let_def distinct_update split: if_splits)
  have e': "entry_of pool' j b = (if j = idx then map_of (channels (cleanupStaleChannels fl v' (t_cleanup t) addr el)) b else entry_of pool j b)"
    for j b using idx by (simp add: entry_of_def pool')
  have new: "channel = Some (next_channel pool)" "flag = next_channel pool" "map_of (channels el) = (map_of (channels ?el))(addr \<mapsto> ?new)" if created
    using g that by (auto simp: getChannelFor_def Let_def assms(5) e update_conv' split: if_splits)
  have old: "el = ?el" "\<exists>e. map_of (channels ?el) addr = Some e \<and> flag = ce_channel e \<and>
      channel = (if ch_alive v (ce_channel e) then Some (ce_channel e) else None)" if "\<not> created"
    using g that by (auto simp: getChannelFor_def should_new_channel_def Let_def assms(5) e split: if_splits option.splits)
  have alive: "ch_alive v c \<Longrightarrow> ch_alive v' c" "created \<Longrightarrow> ch_alive v' (next_channel pool)" for c
    by (auto simp: v'_def new split: option.split)
  note keep = cleanup_entries [OF del, where fl = fl and v = v' and now = "t_cleanup t" and addr = addr]
  show "length (event_loops pool') = length (event_loops pool)" "next_channel pool' = Suc (next_channel pool)" by (simp_all add: pool')
  show "\<forall>el \<in> set (event_loops pool'). distinct (map fst (channels el))"
    using assms(3) keep(1) by (auto simp: pool' dest!: set_update_subset_insert [THEN subsetD])
  show "client = Some \<lparr>cl_loop = idx, cl_channel = next_channel pool, cl_is_good = next_channel pool\<rparr> \<and> entry_of pool' idx addr = Some ?new" if created
    using new [OF that] keep(3) [where b = addr and e = ?new] alive(2) [OF that] by (simp add: client e')
  show "\<exists>e. entry_of pool idx addr = Some e \<and> client = (if ch_alive v (ce_channel e)
        then Some \<lparr>cl_loop = idx, cl_channel = ce_channel e, cl_is_good = ce_channel e\<rparr> else None)" if "\<not> created"
    using old(2) [OF that] by (auto simp: e client)
  show "entry_of pool j b = Some e" if "\<not> (created \<and> j = idx \<and> b = addr)" "entry_of pool' j b = Some e"
    using that keep(2) [where b = b and e = e] new old by (cases created) (auto simp: e e' split: if_splits)
  show "entry_of pool' j b = Some e" if "\<not> (created \<and> j = idx \<and> b = addr)" "entry_of pool j b = Some e" "ch_alive v (ce_channel e)"
    using that keep(3) [where b = b and e = e] new old alive by (cases created) (auto simp: e e' split: if_splits)
qed

lemma pool_invD:
  assumes "pool_inv w"
  shows "event_loops (w_pool w) \<noteq> []" "\<forall>el \<in> set (event_loops (w_pool w)). distinct (map fst (channels el))"
    and "entry_of (w_pool w) i a = Some e \<Longrightarrow> ce_channel e < next_channel (w_pool w) \<and> ce_is_good e = w_good w (ce_channel e)"
    and "entry_of (w_pool w) i a = Some e \<Longrightarrow> entry_of (w_pool w) j b = Some f \<Longrightarrow> ce_channel e = ce_channel f \<Longrightarrow> i = j \<and> a = b"
    and "(a, cl) \<in> set (w_clients w) \<Longrightarrow> cl_loop cl < length (event_loops (w_pool w)) \<and> cl_channel cl < next_channel (w_pool w) \<and>
       cl_is_good cl = cl_channel cl"
    and "(a, cl) \<in> set (w_clients w) \<Longrightarrow> w_good w (cl_channel cl) \<Longrightarrow>
       \<exists>e. entry_of (w_pool w) (cl_loop cl) a = Some e \<and> ce_channel e = cl_channel cl"
  using assms by (simp_all add: pool_inv_def, blast+)

lemma pool_invI:
  assumes "event_loops (w_pool w) \<noteq> []" "\<forall>el \<in> set (event_loops (w_pool w)). distinct (map fst (channels el))"
    and "\<And>i a e. entry_of (w_pool w) i a = Some e \<Longrightarrow> ce_channel e < next_channel (w_pool w) \<and> ce_is_good e = w_good w (ce_channel e)"
    and "\<And>i a e j b f. entry_of (w_pool w) i a = Some e \<Longrightarrow> entry_of (w_pool w) j b = Some f \<Longrightarrow> ce_channel e = ce_channel f \<Longrightarrow> i = j \<and> a = b"
    and "\<And>a cl. (a, cl) \<in> set (w_clients w) \<Longrightarrow> cl_loop cl < length (event_loops (w_pool w)) \<and> cl_channel cl < next_channel (w_pool w) \<and>
       cl_is_good cl = cl_channel cl"
    and "\<And>a cl. (a, cl) \<in> set (w_clients w) \<Longrightarrow> w_good w (cl_channel cl) \<Longrightarrow>
       \<exists>e. entry_of (w_pool w) (cl_loop cl) a = Some e \<and> ce_channel e = cl_channel cl"
  shows "pool_inv w"
  unfolding pool_inv_def using assms by blast

lemma pool_inv_get:
  assumes inv: "pool_inv w" and get: "getClient fl (view_of w) t connected addr aggressively (w_pool w) = (client, pool)"
  shows "pool_inv (w\<lparr>w_pool := pool,
      w_clients := (case client of None \<Rightarrow> w_clients w | Some cl \<Rightarrow> (addr, cl) # w_clients w),
      w_good := (w_good w)(next_channel (w_pool w) := connected)\<rparr>)"
proof -
  define idx where "idx = unat (nextEvbIdx (w_pool w)) mod length (event_loops (w_pool w))"
  define created where "created = should_new_channel fl (view_of w) (t_check t) aggressively (entry_of (w_pool w) idx addr)"
  let ?n = "next_channel (w_pool w)"
  note eff = getClient_effect [OF get pool_invD(1,2) [OF inv] idx_def created_def]
  have good: "((w_good w)(?n := connected)) c = w_good w c" if "c < ?n" for c using that by simp
  have entry: "created \<and> i = idx \<and> a = addr \<and> ce_channel e = ?n \<and> ce_is_good e = connected \<or>
      \<not> (created \<and> i = idx \<and> a = addr) \<and> entry_of (w_pool w) i a = Some e" if "entry_of pool i a = Some e" for i a e
    using that eff(5) eff(7) [of i a e] by (cases "created \<and> i = idx \<and> a = addr") auto
  have kept: "\<exists>e. entry_of pool (cl_loop cl) a = Some e \<and> ce_channel e = cl_channel cl"
    if "(a, cl) \<in> set (w_clients w)" "w_good w (cl_channel cl)" for a cl
  proof -
    from pool_invD(6) [OF inv that] obtain e where e: "entry_of (w_pool w) (cl_loop cl) a = Some e" "ce_channel e = cl_channel cl" by blast
    have alive: "ch_alive (view_of w) (ce_channel e)" using that(1) e(2) by (force simp: view_of_def)
    moreover have "ch_good (view_of w) (ce_channel e)" using e(2) that(2) by (simp add: view_of_def)
    ultimately have "\<not> (created \<and> cl_loop cl = idx \<and> a = addr)"
      using e(1) by (auto simp: created_def should_new_channel_def)
    from eff(8) [OF this e(1) alive] e(2) show ?thesis by blast
  qed
  have old: "ce_channel e < ?n" "ce_is_good e = w_good w (ce_channel e)" if "entry_of (w_pool w) i a = Some e" for i a e
    using pool_invD(3) [OF inv that] by simp_all
  have uniq: "i = j \<and> a = b" if "entry_of pool i a = Some e" "entry_of pool j b = Some f" "ce_channel e = ce_channel f" for i a e j b f
    using entry [OF that(1)] entry [OF that(2)] that(3) old(1) [of i a e] old(1) [of j b f] pool_invD(4) [OF inv, of i a e j b f] by auto
  have ent: "ce_channel e < Suc ?n \<and> ce_is_good e = ((w_good w)(?n := connected)) (ce_channel e)" if "entry_of pool i a = Some e" for i a e
    using entry [OF that] old [of i a e] by auto
  have cli: "cl_loop cl < length (event_loops pool) \<and> cl_channel cl < Suc ?n \<and> cl_is_good cl = cl_channel cl \<and>
       (((w_good w)(?n := connected)) (cl_channel cl) \<longrightarrow> (\<exists>e. entry_of pool (cl_loop cl) a = Some e \<and> ce_channel e = cl_channel cl))"
    if "(a, cl) \<in> set (case client of None \<Rightarrow> w_clients w | Some cl \<Rightarrow> (addr, cl) # w_clients w)" for a cl
  proof (cases "(a, cl) \<in> set (w_clients w)")
    case True
    with pool_invD(5) [OF inv True] kept [OF True] eff(1) show ?thesis by auto
  next
    case False
    with that have cl: "client = Some cl" "a = addr" by (auto split: option.splits)
    show ?thesis
    proof (cases created)
      case True
      with cl eff(1,3,5) show ?thesis by auto
    next
      case False
      with cl eff(6) obtain e where e: "entry_of (w_pool w) idx addr = Some e" "ch_alive (view_of w) (ce_channel e)"
        "cl = \<lparr>cl_loop = idx, cl_channel = ce_channel e, cl_is_good = ce_channel e\<rparr>" by (auto split: if_splits)
      with eff(8) [OF _ e(1,2)] False cl eff(1,3) old [OF e(1)] show ?thesis by auto
    qed
  qed
  show ?thesis
  proof (rule pool_invI, goal_cases)
    case 1
    show ?case using eff(1) pool_invD(1) [OF inv] by auto
  next
    case 2
    show ?case using eff(4) by simp
  next
    case (3 i a e)
    then show ?case using ent [of i a e] by (simp add: eff(2))
  next
    case (4 i a e j b f)
    then show ?case using uniq [of i a e j b f] by simp
  next
    case (5 a cl)
    then show ?case using cli [of a cl] by (simp add: eff(2))
  next
    case (6 a cl)
    then show ?case using cli [of a cl] by simp
  qed
qed

lemma entry_of_closed: "entry_of (channelClosed c pool) i a =
    map_option (\<lambda>e. if ce_channel e = c then e\<lparr>ce_is_good := False\<rparr> else e) (entry_of pool i a)"
proof -
  have "map_of (map (\<lambda>(a, e). (a, f e)) xs) a = map_option f (map_of xs a)" for f :: "channel_entry \<Rightarrow> channel_entry" and xs
    by (induction xs) auto
  then show ?thesis by (simp add: entry_of_def channelClosed_def)
qed

lemma channelClosed_simps [simp]:
  "length (event_loops (channelClosed c pool)) = length (event_loops pool)" "next_channel (channelClosed c pool) = next_channel pool"
  "event_loops (channelClosed c pool) = [] \<longleftrightarrow> event_loops pool = []"
  by (simp_all add: channelClosed_def)

lemma pool_inv_break:
  assumes "pool_inv w"
  shows "pool_inv (w\<lparr>w_pool := channelClosed c (w_pool w), w_good := (w_good w)(c := False)\<rparr>)"
proof -
  have d: "\<forall>el \<in> set (event_loops (channelClosed c (w_pool w))). distinct (map fst (channels el))"
    using pool_invD(2) [OF assms] by (auto simp: channelClosed_def comp_def split_beta)
  have closed: "\<exists>z. entry_of (w_pool w) i a = Some z \<and> ce_channel e = ce_channel z \<and> ce_is_good e = (ce_is_good z \<and> ce_channel z \<noteq> c)"
    if "entry_of (channelClosed c (w_pool w)) i a = Some e" for i a e
    using that by (auto simp: entry_of_closed)
  show ?thesis
  proof (rule pool_invI, goal_cases)
    case (3 i a e)
    with closed [of i a e] obtain z where z: "entry_of (w_pool w) i a = Some z" "ce_channel e = ce_channel z"
      "ce_is_good e = (ce_is_good z \<and> ce_channel z \<noteq> c)" by auto
    show ?case using pool_invD(3) [OF assms z(1)] z(2,3) by simp
  next
    case (4 i a e j b f)
    from 4(1) closed [of i a e] obtain y where y: "entry_of (w_pool w) i a = Some y" "ce_channel e = ce_channel y" by auto
    from 4(2) closed [of j b f] obtain z where z: "entry_of (w_pool w) j b = Some z" "ce_channel f = ce_channel z" by auto
    show ?case using pool_invD(4) [OF assms y(1) z(1)] y(2) z(2) 4(3) by simp
  next
    case (6 a cl)
    then have "w_good w (cl_channel cl)" "(a, cl) \<in> set (w_clients w)" by (simp_all split: if_splits)
    with pool_invD(6) [OF assms this(2,1)] obtain e where "entry_of (w_pool w) (cl_loop cl) a = Some e" "ce_channel e = cl_channel cl" by blast
    then show ?case by (simp add: entry_of_closed)
  qed (use pool_invD(1,5) [OF assms] in \<open>auto simp: d\<close>)
qed

lemma pool_inv_step: "pool_inv w \<Longrightarrow> pool_step fl w w' \<Longrightarrow> pool_inv w'"
proof (erule pool_step.cases, goal_cases)
  case 1
  then show ?case using pool_inv_get by metis
next
  case (2 x v)
  then have inv: "pool_inv v" by simp
  have sub: "y \<in> set (w_clients v)" if "y \<in> set (remove1 x (w_clients v))" for y
    using that set_remove1_subset [of x "w_clients v"] by blast
  show ?case unfolding 2
  proof (rule pool_invI, goal_cases)
    case (5 a cl)
    then show ?case using pool_invD(5) [OF inv sub, of a cl] by simp
  next
    case (6 a cl)
    then show ?case using pool_invD(6) [OF inv sub, of a cl] by simp
  qed (use pool_invD(1-4) [OF inv] in simp_all)
next
  case 3
  then show ?case using pool_inv_break by metis
qed

lemma pool_inv_init:
  assumes "pool_init w"
  shows "pool_inv w"
proof -
  from assms consider (threads) n now idx ch where "ThriftClientPool_ctor n now idx ch = Some (w_pool w)"
    | (evbs) evbs now idx ch where "ThriftClientPool_ctor_evbs evbs now idx ch = Some (w_pool w)"
    unfolding pool_init_def by blast
  then obtain evbs now where "evbs \<noteq> []" "event_loops (w_pool w) = map (\<lambda>e. EventLoop_ctor e now) evbs"
  proof cases
    case (threads n now idx ch)
    then have "n \<noteq> 0" "w_pool w = \<lparr>event_loops = map (\<lambda>i. EventLoop_ctor i now) [0..<unat n], nextEvbIdx = idx, next_channel = ch\<rparr>"
      by (auto simp: ThriftClientPool_ctor_def split: if_splits)
    with that [of "[0..<unat n]" now] show ?thesis by (simp add: unat_eq_0)
  next
    case (evbs evbs now idx ch)
    then have "evbs \<noteq> []" "w_pool w = \<lparr>event_loops = map (\<lambda>e. EventLoop_ctor e now) evbs, nextEvbIdx = idx, next_channel = ch\<rparr>"
      by (auto simp: ThriftClientPool_ctor_evbs_def split: if_splits)
    with that [of evbs now] show ?thesis by simp
  qed
  moreover have "w_clients w = []" using assms by (auto simp: pool_init_def)
  ultimately show ?thesis by (auto simp: pool_inv_def entry_of_def EventLoop_ctor_def)
qed

interpretation client_pool: invariant_system pool_init "pool_step fl" pool_inv for fl
  by unfold_locales (rule pool_inv_init, assumption, rule pool_inv_step)

section \<open>Properties\<close>

text \<open>
  (C25) However clients are taken and released, connections break and stale entries are cleaned up: the pool has at
  most one good connection to an address per event loop, so never more than event loops; the clients of one loop
  for one address with good connections share a connection; and the \<open>is_good\<close> flag of a client with a
  good connection still exists and tells so.
\<close>

theorem pool_connections_bounded:
  assumes "reach pool_init (pool_step fl) w"
  shows "card {c. \<exists>cl. (a, cl) \<in> set (w_clients w) \<and> cl_channel cl = c \<and> w_good w c} \<le> length (event_loops (w_pool w)) \<and>
    (\<forall>cl. (a, cl) \<in> set (w_clients w) \<and> w_good w (cl_channel cl) \<longrightarrow>
       (\<exists>e. entry_of (w_pool w) (cl_loop cl) a = Some e \<and> ce_channel e = cl_is_good cl \<and> ce_is_good e)) \<and>
    (\<forall>cl cl'. (a, cl) \<in> set (w_clients w) \<and> (a, cl') \<in> set (w_clients w) \<and> cl_loop cl = cl_loop cl' \<and>
       w_good w (cl_channel cl) \<and> w_good w (cl_channel cl') \<longrightarrow> cl_channel cl = cl_channel cl')"
proof -
  note inv = client_pool.reach_inv [OF assms]
  have e: "\<exists>e. entry_of (w_pool w) (cl_loop cl) a = Some e \<and> ce_channel e = cl_is_good cl \<and> ce_is_good e \<and> cl_is_good cl = cl_channel cl"
    if "(a, cl) \<in> set (w_clients w)" "w_good w (cl_channel cl)" for cl
  proof -
    from pool_invD(6) [OF inv that] obtain e where "entry_of (w_pool w) (cl_loop cl) a = Some e" "ce_channel e = cl_channel cl" by blast
    with pool_invD(3) [OF inv this(1)] pool_invD(5) [OF inv that(1)] that(2) show ?thesis by simp
  qed
  have "{c. \<exists>cl. (a, cl) \<in> set (w_clients w) \<and> cl_channel cl = c \<and> w_good w c}
      \<subseteq> (\<lambda>i. ce_channel (the (entry_of (w_pool w) i a))) ` {..<length (event_loops (w_pool w))}"
  proof safe
    fix cl assume cl: "(a, cl) \<in> set (w_clients w)" "w_good w (cl_channel cl)"
    show "cl_channel cl \<in> (\<lambda>i. ce_channel (the (entry_of (w_pool w) i a))) ` {..<length (event_loops (w_pool w))}"
      using e [OF cl] pool_invD(5) [OF inv cl(1)] by (intro image_eqI [of _ _ "cl_loop cl"]) auto
  qed
  from order.trans [OF card_mono [OF _ this] card_image_le]
  have "card {c. \<exists>cl. (a, cl) \<in> set (w_clients w) \<and> cl_channel cl = c \<and> w_good w c} \<le> length (event_loops (w_pool w))" by simp
  moreover have "cl_channel cl = cl_channel cl'" if "(a, cl) \<in> set (w_clients w)" "(a, cl') \<in> set (w_clients w)" "cl_loop cl = cl_loop cl'"
      "w_good w (cl_channel cl)" "w_good w (cl_channel cl')" for cl cl'
    using e [OF that(1,4)] e [OF that(2,5)] that(3) by auto
  ultimately show ?thesis using e by blast
qed

definition ex_pool_flags :: pool_flags where
  "ex_pool_flags = \<lparr>channel_cleanup_min_interval_seconds = 10, channel_max_checking_size = 500, min_channel_create_interval_seconds = 10\<rparr>"

definition ex_pool :: "nat pool_world" where
  "ex_pool = \<lparr>w_pool = the (ThriftClientPool_ctor 1 0 0 0), w_clients = [], w_good = (\<lambda>_. False)\<rparr>"

definition ex_get :: "nat pool_world \<Rightarrow> nat pool_world" where
  "ex_get w = (let (client, pool) = getClient ex_pool_flags (view_of w) \<lparr>t_check = 1, t_create = 1, t_cleanup = 1\<rparr> True 7 True (w_pool w)
     in w\<lparr>w_pool := pool, w_clients := (case client of None \<Rightarrow> w_clients w | Some cl \<Rightarrow> (7, cl) # w_clients w),
          w_good := (w_good w)(next_channel (w_pool w) := True)\<rparr>)"

lemma ex_pool_reach: "reach pool_init (pool_step ex_pool_flags) ex_pool"
proof (rule reach_init)
  have "ThriftClientPool_ctor 1 0 0 0 = Some (w_pool ex_pool)" by (simp add: ex_pool_def ThriftClientPool_ctor_def)
  moreover have "w_clients ex_pool = []" by (simp add: ex_pool_def)
  ultimately show "pool_init ex_pool" unfolding pool_init_def by blast
qed

lemma ex_get_step: "pool_step ex_pool_flags w (ex_get w)"
proof -
  obtain client pool where g: "getClient ex_pool_flags (view_of w) \<lparr>t_check = 1, t_create = 1, t_cleanup = 1\<rparr> True 7 True (w_pool w) = (client, pool)"
    by fastforce
  from pool_step.get [OF this] show ?thesis by (simp add: ex_get_def g)
qed

theorem pool_connections_bounded_witness:
  "card {c. \<exists>cl. (7, cl) \<in> set (w_clients (ex_get (ex_get ex_pool))) \<and> cl_channel cl = c \<and> w_good (ex_get (ex_get ex_pool)) c} \<le>
     length (event_loops (w_pool (ex_get (ex_get ex_pool)))) \<and>
   length (w_clients (ex_get (ex_get ex_pool))) = 2 \<and> length (event_loops (w_pool (ex_get (ex_get ex_pool)))) = 1"
proof -
  have "reach pool_init (pool_step ex_pool_flags) (ex_get (ex_get ex_pool))"
    by (intro reach_step [OF reach_step [OF ex_pool_reach]]) (rule ex_get_step)+
  from pool_connections_bounded [OF this, of 7] show ?thesis
    by (simp add: ex_get_def ex_pool_def getClient_def getChannelFor_def should_new_channel_def cleanupStaleChannels_def
        ThriftClientPool_ctor_def EventLoop_ctor_def ex_pool_flags_def view_of_def Let_def)
qed

text \<open>
  The flag of a client whose connection has broken does not live as long as the client: the next call for the
  address replaces the entry, and with it the callback the flag is part of.
\<close>

definition ex_broken :: "nat pool_world" where
  "ex_broken = ex_get ((ex_get ex_pool)\<lparr>w_pool := channelClosed 0 (w_pool (ex_get ex_pool)), w_good := (w_good (ex_get ex_pool))(0 := False)\<rparr>)"

theorem is_good_flag_freed:
  "reach pool_init (pool_step ex_pool_flags) ex_broken \<and>
   (\<exists>cl. (7, cl) \<in> set (w_clients ex_broken) \<and>
      (\<forall>el \<in> set (event_loops (w_pool ex_broken)). cl_is_good cl \<notin> (ce_channel \<circ> snd) ` set (channels el)))"
proof
  show "reach pool_init (pool_step ex_pool_flags) ex_broken" unfolding ex_broken_def
    by (intro reach_step [OF reach_step [OF reach_step [OF ex_pool_reach]]]) (rule ex_get_step pool_step.break)+
  have "(7, \<lparr>cl_loop = 0, cl_channel = 0, cl_is_good = 0\<rparr>) \<in> set (w_clients ex_broken)"
    "\<forall>el \<in> set (event_loops (w_pool ex_broken)). 0 \<notin> (ce_channel \<circ> snd) ` set (channels el)"
    by (simp_all add: ex_broken_def ex_get_def ex_pool_def getClient_def getChannelFor_def should_new_channel_def cleanupStaleChannels_def
        channelClosed_def ThriftClientPool_ctor_def EventLoop_ctor_def ex_pool_flags_def view_of_def Let_def)
  then show "\<exists>cl. (7, cl) \<in> set (w_clients ex_broken) \<and>
      (\<forall>el \<in> set (event_loops (w_pool ex_broken)). cl_is_good cl \<notin> (ce_channel \<circ> snd) ` set (channels el))"
    by (intro exI [of _ "\<lparr>cl_loop = 0, cl_channel = 0, cl_is_good = 0\<rparr>"]) simp
qed

text \<open>
  What \<open>getClient\<close> returns. It takes the event loops in turn. A usable channel of the loop is used again, and one
  is replaced only if it is unusable; without \<open>aggressively\<close> two channels to an address are never created within the
  minimal interval; a \<open>nullptr\<close> is returned only in this case, when the last channel has gone, and never with
  \<open>aggressively\<close>.
\<close>

theorem getClient_outcome:
  assumes "getClient fl v t connected addr aggressively pool = (client, pool')" "event_loops pool \<noteq> []"
    and "\<forall>el \<in> set (event_loops pool). distinct (map fst (channels el))"
    and "idx = unat (nextEvbIdx pool) mod length (event_loops pool)"
  shows "nextEvbIdx pool' = nextEvbIdx pool + 1 \<and>
    (case entry_of pool idx addr of
       None \<Rightarrow> client = Some \<lparr>cl_loop = idx, cl_channel = next_channel pool, cl_is_good = next_channel pool\<rparr>
     | Some e \<Rightarrow>
         let usable = ch_alive v (ce_channel e) \<and> ch_good v (ce_channel e);
             too_soon = t_check t < ce_create_time e + min_channel_create_interval_seconds fl
         in if usable \<or> too_soon \<and> \<not> aggressively
            then client = (if ch_alive v (ce_channel e)
                   then Some \<lparr>cl_loop = idx, cl_channel = ce_channel e, cl_is_good = ce_channel e\<rparr> else None)
            else client = Some \<lparr>cl_loop = idx, cl_channel = next_channel pool, cl_is_good = next_channel pool\<rparr> \<and>
              entry_of pool' idx addr = Some \<lparr>ce_channel = next_channel pool, ce_create_time = t_create t, ce_is_good = connected\<rparr>)"
proof -
  have "nextEvbIdx pool' = nextEvbIdx pool + 1" using assms(1) by (auto simp: getClient_def Let_def split_beta)
  then show ?thesis using getClient_effect(5,6) [OF assms refl] by (auto simp: should_new_channel_def Let_def split: option.splits)
qed

theorem getClient_outcome_witness:
  "\<exists>pool'. getClient ex_pool_flags (view_of ex_pool) \<lparr>t_check = 1, t_create = 1, t_cleanup = 1\<rparr> True 7 False (w_pool ex_pool) =
     (Some \<lparr>cl_loop = 0, cl_channel = 0, cl_is_good = 0\<rparr>, pool') \<and> nextEvbIdx pool' = 1"
proof -
  obtain client pool' where g: "getClient ex_pool_flags (view_of ex_pool) \<lparr>t_check = 1, t_create = 1, t_cleanup = 1\<rparr> True 7 False
      (w_pool ex_pool) = (client, pool')" by fastforce
  have "event_loops (w_pool ex_pool) = [EventLoop_ctor 0 0]" "nextEvbIdx (w_pool ex_pool) = 0" "next_channel (w_pool ex_pool) = 0"
    by (simp_all add: ex_pool_def ThriftClientPool_ctor_def)
  with getClient_outcome [OF g, of 0] g show ?thesis by (simp add: entry_of_def EventLoop_ctor_def)
qed

end
