(* ===== verification/Thrift_Router.thy ===== *)
theory Thrift_Router
  imports Cluster_Layout Thrift_Client_Pool "HOL-Library.Product_Lexorder"
begin

unbundle bit_operations_syntax

text \<open>
  \<open>common/thrift_router.h\<close>: routing of requests to the hosts of a shard. Hosts are filtered by role, ranked by the length
  of the prefix their group shares with the local group (ties are broken by a hash that changes with every call), clients are
  created or renewed from the pool, and bad hosts are left out. The state is that of one thread: its copy of
  the layout, its clients and its rotation counter; the pool is the model of \<open>Thrift_Client_Pool\<close>.
\<close>

section \<open>State\<close>

datatype quantity = Q_ONE | Q_TWO | Q_ALL
datatype router_code = RT_OK | RT_NOT_FOUND | RT_BAD_HOST | RT_UNKNOWN_SEGMENT | RT_UNKNOWN_SHARD

record router_flags =
  always_prefer_local_host :: bool
  min_client_reconnect_interval_seconds :: int
  thrift_router_max_num_hosts_to_consider :: int
  rf_pool :: pool_flags

record client_and_status =
  cs_client :: "thrift_client option"
  cs_create_time :: int

text \<open>A layout has an identity, the address of the object its \<open>shared_ptr\<close> points to.\<close>

record 'a client_map =
  local_cluster_layout :: "nat \<times> 'a cluster_layout"
  clients :: "'a \<rightharpoonup> client_and_status"
  rotation_counter :: u32
  cm_pool :: "'a client_pool"

record 'a thrift_router =
  router_layout :: "(nat \<times> 'a cluster_layout) option"
  local_client_map :: "'a client_map"

text \<open>The callback for the content of the configuration file: a layout that cannot be parsed is ignored.\<close>

definition onConfigChange :: "(string \<Rightarrow> 'a cluster_layout option) \<Rightarrow> nat \<Rightarrow> string \<Rightarrow> 'a thrift_router \<Rightarrow> 'a thrift_router" where
  "onConfigChange parser ptr content r =
    (case parser content of None \<Rightarrow> r | Some new_layout \<Rightarrow> r\<lparr>router_layout := Some (ptr, new_layout)\<rparr>)"

definition ThriftRouter_ctor :: "'a client_pool \<Rightarrow> nat \<Rightarrow> u32 \<Rightarrow> (string \<Rightarrow> 'a cluster_layout option) \<Rightarrow> nat \<Rightarrow> string \<Rightarrow> 'a thrift_router" where
  "ThriftRouter_ctor pool empty_ptr counter parser ptr content =
    onConfigChange parser ptr content
      \<lparr>router_layout = None,
       local_client_map = \<lparr>local_cluster_layout = (empty_ptr, ClusterLayout_ctor), clients = Map.empty, rotation_counter = counter,
                           cm_pool = pool\<rparr>\<rparr>"

section \<open>Ranking hosts\<close>

text \<open>
  \<open>mix\<close> is \<open>folly::hash::twang_mix64\<close>. Following a pointer that does not lead to a host and \<open>at\<close> of a missing segment have
  no result (\<open>None\<close>). \<open>std::sort\<close> is a sort by the comparator's key, \<open>std::partial_sort\<close> its beginning.
\<close>

definition prefix_length :: "(nat \<rightharpoonup> 'a host) \<Rightarrow> string \<Rightarrow> nat \<Rightarrow> u16 option" where
  "prefix_length H segment p = (case H p of None \<Rightarrow> None | Some h \<Rightarrow> groups_prefix_lengths h segment)"

definition rank_key :: "(u64 \<Rightarrow> u64) \<Rightarrow> (nat \<rightharpoonup> 'a host) \<Rightarrow> u32 \<Rightarrow> string \<Rightarrow> nat \<Rightarrow> int \<times> nat" where
  "rank_key mix H rotation segment p =
    (- int (unat (the (prefix_length H segment p))), unat (mix (of_nat p XOR ucast rotation)))"

definition RankHostsByGroupPrefixLengthAndShrinkTo ::
  "(u64 \<Rightarrow> u64) \<Rightarrow> (nat \<rightharpoonup> 'a host) \<Rightarrow> nat list \<Rightarrow> u32 \<Rightarrow> string \<Rightarrow> nat \<Rightarrow> nat list option" where
  "RankHostsByGroupPrefixLengthAndShrinkTo mix H v rotation segment shrink_target =
    (if list_all (\<lambda>p. prefix_length H segment p \<noteq> None) v
     then Some (let sorted = sort_key (rank_key mix H rotation segment) v
                in if shrink_target < length v then take shrink_target sorted else sorted)
     else None)"

definition filterByRoleAndSortByPreferenceAndShrinkTo ::
  "router_flags \<Rightarrow> (u64 \<Rightarrow> u64) \<Rightarrow> (nat \<rightharpoonup> 'a host) \<Rightarrow> (nat \<times> router_role) list \<Rightarrow> router_role \<Rightarrow> u32 \<Rightarrow> string \<Rightarrow> nat \<Rightarrow>
   nat list option" where
  "filterByRoleAndSortByPreferenceAndShrinkTo fl mix H host_info role rotation segment shrink_target =
    (if role = R_ANY \<and> \<not> always_prefer_local_host fl
     then let v_s = map fst (filter (\<lambda>hi. snd hi = R_SLAVE) host_info);
              v = map fst (filter (\<lambda>hi. snd hi = R_MASTER) host_info)
          in case RankHostsByGroupPrefixLengthAndShrinkTo mix H v rotation segment shrink_target of
               None \<Rightarrow> None
             | Some v \<Rightarrow>
                 (case RankHostsByGroupPrefixLengthAndShrinkTo mix H v_s rotation segment shrink_target of
                    None \<Rightarrow> None
                  | Some v_s \<Rightarrow>
                      let v = v @ v_s in Some (if shrink_target < length v then take shrink_target v else v))
     else let v = map fst (filter (\<lambda>hi. role = R_ANY \<or> snd hi = role) host_info)
          in RankHostsByGroupPrefixLengthAndShrinkTo mix H v rotation segment shrink_target)"

section \<open>Clients\<close>

text \<open>
  What is observed during the work on one shard: the channels when clients are created or renewed, the clock, whether a
  new connection fails at once, and the transports when bad hosts are filtered out.
\<close>

record 'a shard_view =
  sv_channels :: channel_view
  sv_clock :: clock
  sv_now :: int
  sv_connected :: "'a \<Rightarrow> bool"
  sv_good_after :: "nat \<Rightarrow> bool"

definition is_client_good :: "(nat \<Rightarrow> bool) \<Rightarrow> thrift_client option \<Rightarrow> bool" where
  "is_client_good good client = (case client of None \<Rightarrow> False | Some cl \<Rightarrow> good (cl_channel cl))"

text \<open>One host of \<open>createOrFixClientsFor\<close>; the view gains the channel that was created.\<close>

definition fix_client ::
  "router_flags \<Rightarrow> 'a shard_view \<Rightarrow> 'a \<Rightarrow> channel_view \<times> 'a client_map \<Rightarrow> channel_view \<times> 'a client_map" where
  "fix_client fl sv addr s =
    (let (v, cm) = s;
         fresh = next_channel (cm_pool cm);
         (client, pool) = getClient (rf_pool fl) v (sv_clock sv) (sv_connected sv addr) addr False (cm_pool cm)
     in (\<lparr>ch_alive = (ch_alive v)(fresh := True), ch_good = (ch_good v)(fresh := sv_connected sv addr)\<rparr>,
         cm\<lparr>clients := (clients cm)(addr \<mapsto> \<lparr>cs_client = client, cs_create_time = sv_now sv\<rparr>), cm_pool := pool\<rparr>))"

definition createOrFixClient ::
  "router_flags \<Rightarrow> 'a shard_view \<Rightarrow> 'a \<Rightarrow> channel_view \<times> 'a client_map \<Rightarrow> channel_view \<times> 'a client_map" where
  "createOrFixClient fl sv addr s =
    (let (v, cm) = s
     in case clients cm addr of
          None \<Rightarrow> fix_client fl sv addr s
        | Some cs \<Rightarrow>
            if is_client_good (ch_good v) (cs_client cs) then s
            else if cs_create_time cs + min_client_reconnect_interval_seconds fl > sv_now sv then s
            else fix_client fl sv addr s)"

definition createOrFixClientsFor :: "router_flags \<Rightarrow> 'a shard_view \<Rightarrow> 'a list \<Rightarrow> 'a client_map \<Rightarrow> 'a client_map" where
  "createOrFixClientsFor fl sv hosts cm = snd (fold (createOrFixClient fl sv) hosts (sv_channels sv, cm))"

definition client_of :: "'a client_map \<Rightarrow> 'a \<Rightarrow> thrift_client option" where
  "client_of cm addr = (case clients cm addr of None \<Rightarrow> None | Some cs \<Rightarrow> cs_client cs)"

definition filterBadHosts :: "'a shard_view \<Rightarrow> 'a client_map \<Rightarrow> 'a list \<Rightarrow> 'a list" where
  "filterBadHosts sv cm hosts = filter (\<lambda>a. is_client_good (sv_good_after sv) (client_of cm a)) hosts"

text \<open>Filling the clients of one shard: the code for this shard, its clients, and the state.\<close>

definition wanted :: "quantity \<Rightarrow> 'x list \<Rightarrow> 'x list" where
  "wanted quantity xs = (case quantity of Q_ONE \<Rightarrow> take 1 xs | Q_TWO \<Rightarrow> take 2 xs | Q_ALL \<Rightarrow> xs)"

definition shrink_target_of :: "router_flags \<Rightarrow> quantity \<Rightarrow> nat \<Rightarrow> nat" where
  "shrink_target_of fl quantity n =
    (if quantity \<noteq> Q_ALL \<and> thrift_router_max_num_hosts_to_consider fl > 0 \<and> thrift_router_max_num_hosts_to_consider fl < int n
     then nat (thrift_router_max_num_hosts_to_consider fl) else n)"

definition fill_shard ::
  "router_flags \<Rightarrow> (u64 \<Rightarrow> u64) \<Rightarrow> string \<Rightarrow> router_role \<Rightarrow> quantity \<Rightarrow> (nat \<rightharpoonup> 'a host) \<Rightarrow> (nat \<times> router_role) list \<Rightarrow> 'a shard_view \<Rightarrow>
   'a client_map \<Rightarrow> (router_code \<times> thrift_client option list \<times> 'a client_map) option" where
  "fill_shard fl mix segment role quantity H host_info sv cm =
    (case filterByRoleAndSortByPreferenceAndShrinkTo fl mix H host_info role (rotation_counter cm) segment
            (shrink_target_of fl quantity (length host_info)) of
       None \<Rightarrow> None
     | Some ptrs \<Rightarrow>
         if ptrs = [] then Some (RT_NOT_FOUND, [], cm)
         else let hosts = map (\<lambda>p. h_addr (the (H p))) ptrs;
                  cm = createOrFixClientsFor fl sv hosts cm;
                  good_hosts = filterBadHosts sv cm hosts
              in if length hosts \<noteq> length good_hosts \<and> quantity = Q_ALL then Some (RT_BAD_HOST, [], cm)
                 else if good_hosts = [] then Some (RT_BAD_HOST, [], cm)
                 else Some (RT_OK, map (client_of cm) (wanted quantity good_hosts), cm))"

fun fill_shards ::
  "router_flags \<Rightarrow> (u64 \<Rightarrow> u64) \<Rightarrow> string \<Rightarrow> router_role \<Rightarrow> quantity \<Rightarrow> (nat \<rightharpoonup> 'a host) \<Rightarrow> shard_hosts \<Rightarrow> (u32 \<Rightarrow> 'a shard_view) \<Rightarrow>
   router_code \<Rightarrow> (u32 \<times> thrift_client option list) list \<Rightarrow> 'a client_map \<Rightarrow>
   (router_code \<times> (u32 \<times> thrift_client option list) list \<times> 'a client_map) option" where
  "fill_shards fl mix segment role quantity H shard_to_hosts views ret [] cm = Some (ret, [], cm)"
| "fill_shards fl mix segment role quantity H shard_to_hosts views ret ((shard, cls) # rest) cm =
    (if unat shard \<ge> length shard_to_hosts then Some (RT_UNKNOWN_SHARD, (shard, cls) # rest, cm)
     else case fill_shard fl mix segment role quantity H (shard_to_hosts ! unat shard) (views shard) cm of
            None \<Rightarrow> None
          | Some (code, cls, cm) \<Rightarrow>
              (case fill_shards fl mix segment role quantity H shard_to_hosts views (if code = RT_OK then ret else code) rest cm of
                 None \<Rightarrow> None
               | Some (ret, rest, cm) \<Rightarrow> Some (ret, (shard, cls) # rest, cm)))"

definition ThreadLocal_getClientsFor ::
  "router_flags \<Rightarrow> (u64 \<Rightarrow> u64) \<Rightarrow> string \<Rightarrow> router_role \<Rightarrow> quantity \<Rightarrow> (u32 \<Rightarrow> 'a shard_view) \<Rightarrow>
   (u32 \<times> thrift_client option list) list \<Rightarrow> 'a client_map \<Rightarrow>
   (router_code \<times> (u32 \<times> thrift_client option list) list \<times> 'a client_map) option" where
  "ThreadLocal_getClientsFor fl mix segment role quantity views shard_to_clients cm =
    (let cl = snd (local_cluster_layout cm)
     in case map_of (segments cl) segment of
          None \<Rightarrow> Some (RT_UNKNOWN_SEGMENT, shard_to_clients, cm)
        | Some shard_to_hosts \<Rightarrow>
            fill_shards fl mix segment role quantity (host_heap cl) shard_to_hosts views RT_OK shard_to_clients
              (cm\<lparr>rotation_counter := rotation_counter cm + 1\<rparr>))"

definition ThreadLocal_updateClusterLayout :: "(nat \<times> 'a cluster_layout) option \<Rightarrow> 'a client_map \<Rightarrow> 'a client_map" where
  "ThreadLocal_updateClusterLayout layout cm =
    (case layout of
       None \<Rightarrow> cm
     | Some (ptr, cl) \<Rightarrow>
         if ptr = fst (local_cluster_layout cm) then cm
         else cm\<lparr>local_cluster_layout := (ptr, cl),
                 clients := (\<lambda>a. if map_of (all_hosts cl) a \<noteq> None then clients cm a else None)\<rparr>)"

section \<open>The router\<close>

definition updateClusterLayout :: "'a thrift_router \<Rightarrow> 'a thrift_router" where
  "updateClusterLayout r = r\<lparr>local_client_map := ThreadLocal_updateClusterLayout (router_layout r) (local_client_map r)\<rparr>"

definition getClientsForShards ::
  "router_flags \<Rightarrow> (u64 \<Rightarrow> u64) \<Rightarrow> string \<Rightarrow> router_role \<Rightarrow> quantity \<Rightarrow> (u32 \<Rightarrow> 'a shard_view) \<Rightarrow>
   (u32 \<times> thrift_client option list) list \<Rightarrow> 'a thrift_router \<Rightarrow>
   (router_code \<times> (u32 \<times> thrift_client option list) list \<times> 'a thrift_router) option" where
  "getClientsForShards fl mix segment role quantity views shard_to_clients r =
    (let r = updateClusterLayout r
     in map_option (\<lambda>(ret, shard_to_clients, cm). (ret, shard_to_clients, r\<lparr>local_client_map := cm\<rparr>))
          (ThreadLocal_getClientsFor fl mix segment role quantity views shard_to_clients (local_client_map r)))"

definition getClientsFor ::
  "router_flags \<Rightarrow> (u64 \<Rightarrow> u64) \<Rightarrow> string \<Rightarrow> router_role \<Rightarrow> quantity \<Rightarrow> u32 \<Rightarrow> 'a shard_view \<Rightarrow> 'a thrift_router \<Rightarrow>
   (router_code \<times> thrift_client option list \<times> 'a thrift_router) option" where
  "getClientsFor fl mix segment role quantity shard sv r =
    map_option (\<lambda>(ret, shard_to_clients, r). (ret, the (map_of shard_to_clients shard), r))
      (getClientsForShards fl mix segment role quantity (\<lambda>_. sv) [(shard, [])] r)"

definition getShardNumberFor :: "string \<Rightarrow> 'a thrift_router \<Rightarrow> u32" where
  "getShardNumberFor segment r =
    (case router_layout r of
       None \<Rightarrow> 0
     | Some (_, layout) \<Rightarrow> (case map_of (segments layout) segment of None \<Rightarrow> 0 | Some shards \<Rightarrow> of_nat (length shards)))"

definition getHostNumberFor :: "string \<Rightarrow> u32 \<Rightarrow> 'a thrift_router \<Rightarrow> u32" where
  "getHostNumberFor segment shard r =
    (case router_layout r of
       None \<Rightarrow> 0
     | Some (_, layout) \<Rightarrow>
         (case map_of (segments layout) segment of
            None \<Rightarrow> 0
          | Some shards \<Rightarrow> if unat shard \<ge> length shards then 0 else of_nat (length (shards ! unat shard))))"

section \<open>Ranking, as one sort\<close>

lemma map_sort_key: "map f (sort_key (\<lambda>x. k (f x)) xs) = sort_key k (map f xs)"
proof -
  have "map f (insort_key (\<lambda>x. k (f x)) x ys) = insort_key k (f x) (map f ys)" for x ys by (induction ys) auto
  then show ?thesis by (induction xs) auto
qed

lemma sort_key_two_classes:
  fixes k :: "'x \<Rightarrow> 'k::linorder"
  shows "sort_key (\<lambda>x. (if P x then 0 else 1 :: nat, k x)) xs =
    sort_key k (filter P xs) @ sort_key k (filter (\<lambda>x. \<not> P x) xs)"
proof (rule properties_for_sort_key)
  let ?f = "\<lambda>x. (if P x then 0 else 1 :: nat, k x)"
  show "mset (sort_key k (filter P xs) @ sort_key k (filter (\<lambda>x. \<not> P x) xs)) = mset xs" by simp
  show "sorted (map ?f (sort_key k (filter P xs) @ sort_key k (filter (\<lambda>x. \<not> P x) xs)))"
  proof -
    have one: "sorted (map ?f ys)" if "sorted (map k ys)" "\<forall>y \<in> set ys. P y = b" for ys b
      using that by (induction ys) auto
    have "sorted (map ?f (sort_key k (filter P xs)))" by (rule one [where b = True]) auto
    moreover have "sorted (map ?f (sort_key k (filter (\<lambda>x. \<not> P x) xs)))" by (rule one [where b = False]) auto
    ultimately show ?thesis unfolding map_append sorted_append by auto
  qed
  fix y assume "y \<in> set (sort_key k (filter P xs) @ sort_key k (filter (\<lambda>x. \<not> P x) xs))"
  have st: "filter (\<lambda>x. Q x \<and> k y = k x) (sort_key k zs) = filter (\<lambda>x. Q x \<and> k y = k x) zs" for Q zs
  proof -
    have "filter Q (filter (\<lambda>x. k x = k y) (sort_key k zs)) = filter Q (filter (\<lambda>x. k x = k y) zs)"
      by (simp only: sort_key_stable)
    then show ?thesis by (simp add: conj_commute eq_commute [of "k y"])
  qed
  show "filter (\<lambda>x. ?f y = ?f x) (sort_key k (filter P xs) @ sort_key k (filter (\<lambda>x. \<not> P x) xs)) = filter (\<lambda>x. ?f y = ?f x) xs"
  proof (cases "P y")
    case True
    then have "(\<lambda>x. ?f y = ?f x) = (\<lambda>x. P x \<and> k y = k x)" by auto
    moreover have "filter (\<lambda>x. P x \<and> k y = k x) (sort_key k (filter (\<lambda>x. \<not> P x) xs)) = []" by (auto simp: filter_empty_conv)
    ultimately show ?thesis using st [of P "filter P xs"] by simp
  next
    case False
    then have "(\<lambda>x. ?f y = ?f x) = (\<lambda>x. \<not> P x \<and> k y = k x)" by auto
    moreover have "filter (\<lambda>x. \<not> P x \<and> k y = k x) (sort_key k (filter P xs)) = []" by (auto simp: filter_empty_conv)
    ultimately show ?thesis using st [of "\<lambda>x. \<not> P x" "filter (\<lambda>x. \<not> P x) xs"] by simp
  qed
qed

text \<open>The hosts that may serve a role, and the order of preference among them.\<close>

definition eligible :: "router_flags \<Rightarrow> router_role \<Rightarrow> (nat \<times> router_role) list \<Rightarrow> (nat \<times> router_role) list" where
  "eligible fl role host_info =
    filter (\<lambda>hi. if role = R_ANY then always_prefer_local_host fl \<or> snd hi \<noteq> R_ANY else snd hi = role) host_info"

definition preference ::
  "router_flags \<Rightarrow> (u64 \<Rightarrow> u64) \<Rightarrow> (nat \<rightharpoonup> 'a host) \<Rightarrow> router_role \<Rightarrow> u32 \<Rightarrow> string \<Rightarrow> nat \<times> router_role \<Rightarrow> nat \<times> int \<times> nat" where
  "preference fl mix H role rotation segment hi =
    (if role = R_ANY \<and> \<not> always_prefer_local_host fl \<and> snd hi \<noteq> R_MASTER then 1 else 0, rank_key mix H rotation segment (fst hi))"

lemma rank_eq:
  assumes "\<forall>hi \<in> set xs. prefix_length H segment (fst hi) \<noteq> None"
  shows "RankHostsByGroupPrefixLengthAndShrinkTo mix H (map fst xs) rotation segment n =
    Some (take n (map fst (sort_key (\<lambda>hi. rank_key mix H rotation segment (fst hi)) xs)))"
  using assms by (auto simp: RankHostsByGroupPrefixLengthAndShrinkTo_def map_sort_key list_all_iff Let_def)

lemma shrink: "(if n < length v then take n v else v) = take n v"
  by simp

lemma take_two: "take n (take n xs @ take n ys) = take n (xs @ ys)"
  by (simp add: take_take min_def)

lemma preference_sort:
  assumes "role = R_ANY" "\<not> always_prefer_local_host fl"
  shows "map fst (sort_key (preference fl mix H role rotation segment) (eligible fl role host_info)) =
    map fst (sort_key (\<lambda>hi. rank_key mix H rotation segment (fst hi)) (filter (\<lambda>hi. snd hi = R_MASTER) host_info)) @
    map fst (sort_key (\<lambda>hi. rank_key mix H rotation segment (fst hi)) (filter (\<lambda>hi. snd hi = R_SLAVE) host_info))"
proof -
  have "preference fl mix H role rotation segment =
      (\<lambda>hi. (if snd hi = R_MASTER then 0 else 1, rank_key mix H rotation segment (fst hi)))"
    using assms by (auto simp: preference_def fun_eq_iff)
  moreover have "eligible fl role host_info = filter (\<lambda>hi. snd hi \<noteq> R_ANY) host_info" using assms by (simp add: eligible_def)
  moreover have "(r \<noteq> R_ANY \<and> r = R_MASTER) = (r = R_MASTER)" "(r \<noteq> R_ANY \<and> r \<noteq> R_MASTER) = (r = R_SLAVE)" for r by (cases r; simp)+
  ultimately show ?thesis by (simp add: sort_key_two_classes)
qed

text \<open>Both branches of the filter are the beginning of one sorted list.\<close>

lemma ranking_eq:
  assumes "\<forall>hi \<in> set (eligible fl role host_info). prefix_length H segment (fst hi) \<noteq> None"
  shows "filterByRoleAndSortByPreferenceAndShrinkTo fl mix H host_info role rotation segment n =
    Some (take n (map fst (sort_key (preference fl mix H role rotation segment) (eligible fl role host_info))))"
proof (cases "role = R_ANY \<and> \<not> always_prefer_local_host fl")
  case True
  have sub: "\<forall>hi \<in> set (filter (\<lambda>hi. snd hi = r) host_info). prefix_length H segment (fst hi) \<noteq> None" if "r \<noteq> R_ANY" for r
    using assms True that by (auto simp: eligible_def)
  let ?k = "\<lambda>hi. rank_key mix H rotation segment (fst hi)"
  have "filterByRoleAndSortByPreferenceAndShrinkTo fl mix H host_info role rotation segment n =
      Some (take n (take n (map fst (sort_key ?k (filter (\<lambda>hi. snd hi = R_MASTER) host_info))) @
        take n (map fst (sort_key ?k (filter (\<lambda>hi. snd hi = R_SLAVE) host_info)))))"
    using True rank_eq [OF sub]
    by (simp add: filterByRoleAndSortByPreferenceAndShrinkTo_def Let_def shrink del: take_append length_append take_take)
  with True show ?thesis by (simp only: take_two preference_sort simp_thms)
next
  case False
  then have "preference fl mix H role rotation segment = (\<lambda>hi. (0, rank_key mix H rotation segment (fst hi)))"
    by (auto simp: preference_def fun_eq_iff)
  moreover have "sort_key (\<lambda>x. (0 :: nat, k x)) xs = sort_key k xs" for k :: "nat \<times> router_role \<Rightarrow> int \<times> nat" and xs
    using sort_key_two_classes [of "\<lambda>_. True" k xs] by simp
  moreover have "map fst (filter (\<lambda>hi. role = R_ANY \<or> snd hi = role) host_info) = map fst (eligible fl role host_info)"
    using False by (auto simp: eligible_def intro!: arg_cong [where f = "map fst"] filter_cong)
  ultimately show ?thesis
    unfolding filterByRoleAndSortByPreferenceAndShrinkTo_def if_not_P [OF False] Let_def by (simp add: rank_eq [OF assms])
qed

text \<open>
  (C26) The hosts a request is tried on are the first of the eligible hosts (those with the requested role) in the order of
  preference: masters before slaves if any role will do and local hosts need not come first, then longer
  shared group prefixes, then the rotating hash; and there are as many as the limit allows. In particular no eligible host
  left out is preferable to one taken.
\<close>

theorem ranking_is_one_sort:
  assumes "\<forall>hi \<in> set (eligible fl role host_info). prefix_length H segment (fst hi) \<noteq> None"
  shows "filterByRoleAndSortByPreferenceAndShrinkTo fl mix H host_info role rotation segment n =
    Some (take n (map fst (sort_key (preference fl mix H role rotation segment) (eligible fl role host_info))))"
  by (rule ranking_eq [OF assms])

definition ex_heap :: "nat \<rightharpoonup> nat host" where
  "ex_heap = [1 \<mapsto> \<lparr>h_addr = 1, groups_prefix_lengths = [''s'' \<mapsto> 2]\<rparr>, 2 \<mapsto> \<lparr>h_addr = 2, groups_prefix_lengths = [''s'' \<mapsto> 5]\<rparr>]"

theorem ranking_is_one_sort_witness:
  "filterByRoleAndSortByPreferenceAndShrinkTo
     \<lparr>always_prefer_local_host = True, min_client_reconnect_interval_seconds = 5, thrift_router_max_num_hosts_to_consider = -1,
      rf_pool = ex_pool_flags\<rparr> id ex_heap [(1, R_MASTER), (2, R_SLAVE)] R_ANY 0 ''s'' 1 = Some [2]"
  by (subst ranking_is_one_sort) (simp_all add: eligible_def prefix_length_def preference_def rank_key_def ex_heap_def)

section \<open>Routing\<close>

lemma wanted_subset: "set (wanted quantity xs) \<subseteq> set xs"
  by (auto simp: wanted_def dest: in_set_takeD split: quantity.splits)

lemma wanted_nonempty: "xs \<noteq> [] \<Longrightarrow> wanted quantity xs \<noteq> []"
  by (auto simp: wanted_def split: quantity.split)

text \<open>The clients for one shard are good, and as many as asked for.\<close>

definition filled :: "router_flags \<Rightarrow> router_role \<Rightarrow> quantity \<Rightarrow> shard_hosts \<Rightarrow> (u32 \<Rightarrow> 'a shard_view) \<Rightarrow> u32 \<times> thrift_client option list \<Rightarrow> bool" where
  "filled fl role quantity shards views sc \<longleftrightarrow>
    (case sc of (shard, cls) \<Rightarrow> unat shard < length shards \<and> cls \<noteq> [] \<and> list_all (is_client_good (sv_good_after (views shard))) cls \<and>
       (case quantity of Q_ONE \<Rightarrow> length cls = 1 | Q_TWO \<Rightarrow> length cls \<le> 2
        | Q_ALL \<Rightarrow> length cls = length (eligible fl role (shards ! unat shard))))"

definition hosts_known :: "router_flags \<Rightarrow> router_role \<Rightarrow> (nat \<rightharpoonup> 'a host) \<Rightarrow> string \<Rightarrow> (nat \<times> router_role) list \<Rightarrow> bool" where
  "hosts_known fl role H segment host_info \<longleftrightarrow> (\<forall>hi \<in> set (eligible fl role host_info). prefix_length H segment (fst hi) \<noteq> None)"

lemma fill_shard_run:
  assumes "hosts_known fl role H segment host_info"
  obtains code cls cm' where "fill_shard fl mix segment role quantity H host_info sv cm = Some (code, cls, cm')"
    "code \<in> {RT_OK, RT_NOT_FOUND, RT_BAD_HOST}" "code = RT_NOT_FOUND \<longleftrightarrow> eligible fl role host_info = []"
    "code \<noteq> RT_OK \<Longrightarrow> cls = []"
    "code = RT_OK \<Longrightarrow> cls \<noteq> [] \<and> list_all (is_client_good (sv_good_after sv)) cls \<and>
       (case quantity of Q_ONE \<Rightarrow> length cls = 1 | Q_TWO \<Rightarrow> length cls \<le> 2 | Q_ALL \<Rightarrow> length cls = length (eligible fl role host_info))"
proof -
  let ?n = "shrink_target_of fl quantity (length host_info)"
  define ptrs where "ptrs = take ?n (map fst (sort_key (preference fl mix H role (rotation_counter cm) segment) (eligible fl role host_info)))"
  have f: "filterByRoleAndSortByPreferenceAndShrinkTo fl mix H host_info role (rotation_counter cm) segment ?n = Some ptrs"
    using ranking_eq assms by (simp add: hosts_known_def ptrs_def)
  have "length (eligible fl role host_info) \<le> length host_info" by (simp add: eligible_def)
  moreover have lp: "length ptrs = min (length (eligible fl role host_info)) ?n" by (simp add: ptrs_def)
  ultimately have len: "quantity = Q_ALL \<Longrightarrow> length ptrs = length (eligible fl role host_info)"
    and "length ptrs = 0 \<longleftrightarrow> length (eligible fl role host_info) = 0"
    by (auto simp: shrink_target_of_def min_def split: if_splits)
  then have none: "ptrs = [] \<longleftrightarrow> eligible fl role host_info = []" by simp
  show thesis
  proof (cases "ptrs = []")
    case True
    then show thesis using that [of RT_NOT_FOUND "[]" cm] f none by (simp add: fill_shard_def)
  next
    case False
    define hosts where "hosts = map (\<lambda>p. h_addr (the (H p))) ptrs"
    define cm' where "cm' = createOrFixClientsFor fl sv hosts cm"
    define good where "good = filterBadHosts sv cm' hosts"
    have run: "fill_shard fl mix segment role quantity H host_info sv cm =
        (if length hosts \<noteq> length good \<and> quantity = Q_ALL \<or> good = [] then Some (RT_BAD_HOST, [], cm')
         else Some (RT_OK, map (client_of cm') (wanted quantity good), cm'))"
      using f False by (simp add: fill_shard_def Let_def hosts_def cm'_def good_def)
    show thesis
    proof (cases "length hosts \<noteq> length good \<and> quantity = Q_ALL \<or> good = []")
      case True
      then show thesis using that [of RT_BAD_HOST "[]" cm'] run False none by simp
    next
      case ok: False
      have "list_all (is_client_good (sv_good_after sv)) (map (client_of cm') (wanted quantity good))"
        using wanted_subset [of quantity good] by (auto simp: list_all_iff good_def filterBadHosts_def)
      moreover have "map (client_of cm') (wanted quantity good) \<noteq> []" using ok wanted_nonempty [of good quantity] by simp
      moreover have "case quantity of Q_ONE \<Rightarrow> length (map (client_of cm') (wanted quantity good)) = 1
          | Q_TWO \<Rightarrow> length (map (client_of cm') (wanted quantity good)) \<le> 2
          | Q_ALL \<Rightarrow> length (map (client_of cm') (wanted quantity good)) = length (eligible fl role host_info)"
        using ok len by (cases quantity; cases good) (auto simp: wanted_def hosts_def)
      moreover have "fill_shard fl mix segment role quantity H host_info sv cm =
          Some (RT_OK, map (client_of cm') (wanted quantity good), cm')" using run ok by simp
      ultimately show thesis using False none by (intro that [of RT_OK "map (client_of cm') (wanted quantity good)" cm']) blast+
    qed
  qed
qed

lemma fill_shards_run:
  assumes "\<And>i. i < length shards \<Longrightarrow> hosts_known fl role H segment (shards ! i)"
  shows "\<exists>ret' out cm'. fill_shards fl mix segment role quantity H shards views ret req cm = Some (ret', out, cm') \<and>
    map fst out = map fst req \<and>
    (ret' = RT_OK \<longrightarrow> ret = RT_OK \<and> list_all (filled fl role quantity shards views) out) \<and>
    (ret \<noteq> RT_UNKNOWN_SHARD \<longrightarrow> (ret' = RT_UNKNOWN_SHARD \<longleftrightarrow> (\<exists>shard \<in> fst ` set req. length shards \<le> unat shard))) \<and>
    (ret' = RT_NOT_FOUND \<longrightarrow> ret = RT_NOT_FOUND \<or> (\<exists>shard \<in> fst ` set req. unat shard < length shards \<and> eligible fl role (shards ! unat shard) = []))"
proof (induction req arbitrary: ret cm)
  case (Cons sc req)
  obtain shard cls0 where sc: "sc = (shard, cls0)" by fastforce
  show ?case
  proof (cases "unat shard < length shards")
    case False
    then show ?thesis using sc by auto
  next
    case True
    obtain code cls cm1 where
      one: "fill_shard fl mix segment role quantity H (shards ! unat shard) (views shard) cm = Some (code, cls, cm1)"
      "code \<in> {RT_OK, RT_NOT_FOUND, RT_BAD_HOST}" "code = RT_NOT_FOUND \<longleftrightarrow> eligible fl role (shards ! unat shard) = []"
      "code \<noteq> RT_OK \<Longrightarrow> cls = []"
      "code = RT_OK \<Longrightarrow> cls \<noteq> [] \<and> list_all (is_client_good (sv_good_after (views shard))) cls \<and>
        (case quantity of Q_ONE \<Rightarrow> length cls = 1 | Q_TWO \<Rightarrow> length cls \<le> 2 | Q_ALL \<Rightarrow> length cls = length (eligible fl role (shards ! unat shard)))"
      by (rule fill_shard_run [OF assms [OF True], of mix quantity "views shard" cm]) blast
    let ?ret = "if code = RT_OK then ret else code"
    from Cons.IH [of ?ret cm1] obtain ret' out cm' where
      rec: "fill_shards fl mix segment role quantity H shards views ?ret req cm1 = Some (ret', out, cm')" "map fst out = map fst req"
      "ret' = RT_OK \<longrightarrow> ?ret = RT_OK \<and> list_all (filled fl role quantity shards views) out"
      "?ret \<noteq> RT_UNKNOWN_SHARD \<longrightarrow> (ret' = RT_UNKNOWN_SHARD \<longleftrightarrow> (\<exists>shard \<in> fst ` set req. length shards \<le> unat shard))"
      "ret' = RT_NOT_FOUND \<longrightarrow> ?ret = RT_NOT_FOUND \<or> (\<exists>shard \<in> fst ` set req. unat shard < length shards \<and> eligible fl role (shards ! unat shard) = [])"
      by blast
    have one_filled: "code = RT_OK \<Longrightarrow> filled fl role quantity shards views (shard, cls)" using one(5) True by (simp add: filled_def)
    show ?thesis
    proof (intro exI [of _ ret'] exI [of _ "(shard, cls) # out"] exI [of _ cm'] conjI)
      show "fill_shards fl mix segment role quantity H shards views ret (sc # req) cm = Some (ret', (shard, cls) # out, cm')"
        using True sc one(1) rec(1) by simp
      show "map fst ((shard, cls) # out) = map fst (sc # req)" using rec(2) sc by simp
      show "ret' = RT_OK \<longrightarrow> ret = RT_OK \<and> list_all (filled fl role quantity shards views) ((shard, cls) # out)"
        using rec(3) one_filled by (simp split: if_splits)
      show "ret \<noteq> RT_UNKNOWN_SHARD \<longrightarrow> (ret' = RT_UNKNOWN_SHARD \<longleftrightarrow> (\<exists>shard \<in> fst ` set (sc # req). length shards \<le> unat shard))"
        using rec(4) one(2) True sc by (auto split: if_splits)
      show "ret' = RT_NOT_FOUND \<longrightarrow> ret = RT_NOT_FOUND \<or>
          (\<exists>shard \<in> fst ` set (sc # req). unat shard < length shards \<and> eligible fl role (shards ! unat shard) = [])"
        using rec(5) one(3) True sc by (simp split: if_splits)
    qed
  qed
qed simp

text \<open>
  A layout whose stored pointers lead to hosts that know their segment, as the parser yields it.
\<close>

definition layout_valid :: "'a cluster_layout \<Rightarrow> bool" where
  "layout_valid cl \<longleftrightarrow> (\<forall>(segment, shards) \<in> set (segments cl). shards_ok segment (host_heap cl) shards)"

lemma layout_valid_known:
  assumes "layout_valid cl" "map_of (segments cl) segment = Some shards" "i < length shards"
  shows "hosts_known fl role (host_heap cl) segment (shards ! i)"
proof -
  from assms(1) map_of_SomeD [OF assms(2)] have ok: "shards_ok segment (host_heap cl) shards" by (auto simp: layout_valid_def)
  have "prefix_length (host_heap cl) segment p \<noteq> None" if "(p, r) \<in> set (shards ! i)" for p r
    by (rule shards_okD [OF ok assms(3) that]) (auto simp: prefix_length_def)
  then show ?thesis by (auto simp: hosts_known_def eligible_def)
qed

lemma parsed_layout_valid:
  assumes "parseConfig parse setFromIpPort alloc content lg = Parsed cl" "alloc_fresh alloc" "alloc_reuses alloc"
  shows "layout_valid cl"
proof -
  from assms(1) obtain root where "parse content = Some (JObject root)"
    "parse_segments setFromIpPort alloc lg root ClusterLayout_ctor = Parsed cl"
    by (auto simp: parseConfig_def split: option.splits json.splits)
  with parse_segments_Parsed [OF this(2) assms(2,3)] have "list_all2 (segment_parsed setFromIpPort (host_heap cl)) root (segments cl)"
    by (auto simp: layout_ok_def ClusterLayout_ctor_def)
  then show ?thesis
    by (auto simp: layout_valid_def list_all2_conv_all_nth in_set_conv_nth segment_parsed_def) (metis fst_conv snd_conv)
qed


definition ex_router_flags :: router_flags where
  "ex_router_flags = \<lparr>always_prefer_local_host = True, min_client_reconnect_interval_seconds = 5,
     thrift_router_max_num_hosts_to_consider = -1, rf_pool = ex_pool_flags\<rparr>"

definition ex_shard_view :: "'a shard_view" where
  "ex_shard_view = \<lparr>sv_channels = \<lparr>ch_alive = (\<lambda>_. False), ch_good = (\<lambda>_. False)\<rparr>, sv_clock = \<lparr>t_check = 1, t_create = 1, t_cleanup = 1\<rparr>,
     sv_now = 1, sv_connected = (\<lambda>_. True), sv_good_after = (\<lambda>_. True)\<rparr>"

definition ex_client_map :: "'a cluster_layout \<Rightarrow> 'a client_map" where
  "ex_client_map cl = \<lparr>local_cluster_layout = (1, cl), clients = Map.empty, rotation_counter = 0,
     cm_pool = the (ThriftClientPool_ctor 1 0 0 0)\<rparr>"


end
