(* ===== verification/Hot_Key.thy ===== *)
theory Hot_Key
  imports Complex_Main Prelude "HOL-Library.Signed_Division"
begin

unbundle bit_operations_syntax

text \<open>
  \<open>HotKeyDetector\<close> of \<open>common/hot_key_detector.h\<close>. The keys are of any type, \<open>k0\<close> is the value-initialised key the
  array starts with, and the times of the steady clock are in nanoseconds. The mutex makes every operation atomic. The
  estimates of the buckets are compared with the exact load of each key, halved at the same moments.
\<close>

section \<open>The detector\<close>

record 'k hot_key_detector =
  hk_keys :: "'k list"
  hk_load :: "u64 list"
  next_idx :: nat
  total_records :: u64
  total_recorded_load :: u64
  last_decay_time :: int

definition kBucketNumber :: nat where
  "kBucketNumber = 12"

definition HotKeyDetector_ctor :: "'k \<Rightarrow> int \<Rightarrow> 'k hot_key_detector" where
  "HotKeyDetector_ctor k0 now =
    \<lparr>hk_keys = replicate kBucketNumber k0, hk_load = replicate kBucketNumber 0, next_idx = 0, total_records = 0,
     total_recorded_load = 0, last_decay_time = now\<rparr>"

definition decay_due :: "int \<Rightarrow> int \<Rightarrow> int \<Rightarrow> bool" where
  "decay_due decay_time_seconds now previous \<longleftrightarrow> \<not> (now - previous) sdiv 1000000000 < decay_time_seconds"

definition decayByTime :: "int \<Rightarrow> int \<Rightarrow> 'k hot_key_detector \<Rightarrow> 'k hot_key_detector" where
  "decayByTime decay_time_seconds now h =
    (if \<not> decay_due decay_time_seconds now (last_decay_time h) then h
     else h\<lparr>total_records := drop_bit 1 (total_records h), total_recorded_load := drop_bit 1 (total_recorded_load h),
            hk_load := map (drop_bit 1) (hk_load h), last_decay_time := now\<rparr>)"

text \<open>The loop over the buckets: the bucket of the key, or else the first empty one.\<close>

fun find_bucket :: "'k \<Rightarrow> ('k \<times> u64) list \<Rightarrow> nat \<Rightarrow> nat option \<Rightarrow> nat + nat option" where
  "find_bucket key [] i first_empty_bucket = Inr first_empty_bucket"
| "find_bucket key ((k, l) # buckets) i first_empty_bucket =
    (if key = k then Inl i
     else find_bucket key buckets (Suc i) (if first_empty_bucket = None \<and> l = 0 then Some i else first_empty_bucket))"

definition take_bucket :: "'k \<Rightarrow> u64 \<Rightarrow> 'k hot_key_detector \<Rightarrow> 'k hot_key_detector" where
  "take_bucket key load h =
    (let i = next_idx h;
         h = (if hk_load h ! i = load then h\<lparr>hk_keys := (hk_keys h)[i := key]\<rparr>
              else if hk_load h ! i > load then h\<lparr>hk_load := (hk_load h)[i := hk_load h ! i - load]\<rparr>
              else h\<lparr>hk_keys := (hk_keys h)[i := key], hk_load := (hk_load h)[i := load - hk_load h ! i]\<rparr>)
     in h\<lparr>next_idx := if Suc i \<ge> kBucketNumber then 0 else Suc i\<rparr>)"

definition HotKeyDetector_record :: "int \<Rightarrow> int \<Rightarrow> 'k \<Rightarrow> u64 \<Rightarrow> 'k hot_key_detector \<Rightarrow> 'k hot_key_detector" where
  "HotKeyDetector_record decay_time_seconds now key load h =
    (let h = decayByTime decay_time_seconds now h;
         h = h\<lparr>total_records := total_records h + 1, total_recorded_load := total_recorded_load h + load\<rparr>
     in case find_bucket key (zip (hk_keys h) (hk_load h)) 0 None of
          Inl i \<Rightarrow> h\<lparr>hk_load := (hk_load h)[i := hk_load h ! i + load]\<rparr>
        | Inr (Some i) \<Rightarrow> h\<lparr>hk_keys := (hk_keys h)[i := key], hk_load := (hk_load h)[i := load]\<rparr>
        | Inr None \<Rightarrow> take_bucket key load h)"

text \<open>The factor on the right is an \<open>int\<close>, converted to 64 bits.\<close>

definition isIdxKeyAbove :: "'k hot_key_detector \<Rightarrow> nat \<Rightarrow> int \<Rightarrow> bool" where
  "isIdxKeyAbove h idx percents \<longleftrightarrow>
    100 * of_nat kBucketNumber * hk_load h ! idx >
      of_int ((int kBucketNumber + 1) * percents - 100) * total_recorded_load h"

fun find_key :: "'k \<Rightarrow> 'k list \<Rightarrow> nat \<Rightarrow> nat option" where
  "find_key key [] i = None"
| "find_key key (k # ks) i = (if k = key then Some i else find_key key ks (Suc i))"

definition isAbove :: "'k hot_key_detector \<Rightarrow> 'k \<Rightarrow> int \<Rightarrow> bool" where
  "isAbove h key percents =
    (if total_records h < 50 then False
     else case find_key key (hk_keys h) 0 of None \<Rightarrow> False | Some idx \<Rightarrow> isIdxKeyAbove h idx percents)"

definition getKeysAbove :: "'k hot_key_detector \<Rightarrow> int \<Rightarrow> 'k list" where
  "getKeysAbove h percents = map ((!) (hk_keys h)) (filter (\<lambda>idx. isIdxKeyAbove h idx percents) [0..<kBucketNumber])"

section \<open>The exact loads\<close>

definition amount :: "u64 \<Rightarrow> rat" where
  "amount l = of_nat (unat l)"

record 'k exact_loads =
  exact :: "'k \<Rightarrow> rat"
  exact_total :: rat
  exact_decay_time :: int

definition exact_start :: "int \<Rightarrow> 'k exact_loads" where
  "exact_start now = \<lparr>exact = (\<lambda>_. 0), exact_total = 0, exact_decay_time = now\<rparr>"

definition exact_decay :: "int \<Rightarrow> int \<Rightarrow> 'k exact_loads \<Rightarrow> 'k exact_loads" where
  "exact_decay decay_time_seconds now e =
    (if \<not> decay_due decay_time_seconds now (exact_decay_time e) then e
     else \<lparr>exact = (\<lambda>k. exact e k / 2), exact_total = exact_total e / 2, exact_decay_time = now\<rparr>)"

definition exact_record :: "int \<Rightarrow> int \<Rightarrow> 'k \<Rightarrow> u64 \<Rightarrow> 'k exact_loads \<Rightarrow> 'k exact_loads" where
  "exact_record decay_time_seconds now key load e =
    (let e = exact_decay decay_time_seconds now e
     in e\<lparr>exact := (exact e)(key := exact e key + amount load), exact_total := exact_total e + amount load\<rparr>)"

text \<open>Both on a sequence of records, each with its time, key and load.\<close>

definition detect :: "int \<Rightarrow> (int \<times> 'k \<times> u64) list \<Rightarrow> 'k hot_key_detector \<Rightarrow> 'k hot_key_detector" where
  "detect d = fold (\<lambda>(now, key, load). HotKeyDetector_record d now key load)"

definition exactly :: "int \<Rightarrow> (int \<times> 'k \<times> u64) list \<Rightarrow> 'k exact_loads \<Rightarrow> 'k exact_loads" where
  "exactly d = fold (\<lambda>(now, key, load). exact_record d now key load)"

definition raw_load :: "(int \<times> 'k \<times> u64) list \<Rightarrow> nat" where
  "raw_load rs = sum_list (map (\<lambda>(_, _, load). unat load) rs)"

section \<open>The invariant\<close>

text \<open>
  No bucket overestimates its key, the buckets together hold no more than the recorded total, the recorded total is
  the exact one rounded down, and only the first bucket of a key holds a load.
\<close>

definition first_bucket :: "'k hot_key_detector \<Rightarrow> bool" where
  "first_bucket h \<longleftrightarrow> (\<forall>j < kBucketNumber. \<forall>i < j. hk_keys h ! i = hk_keys h ! j \<longrightarrow> hk_load h ! j = 0)"

definition detector_inv :: "nat \<Rightarrow> 'k exact_loads \<Rightarrow> 'k hot_key_detector \<Rightarrow> bool" where
  "detector_inv raw e h \<longleftrightarrow>
    length (hk_keys h) = kBucketNumber \<and> length (hk_load h) = kBucketNumber \<and> next_idx h < kBucketNumber \<and>
    last_decay_time h = exact_decay_time e \<and> first_bucket h \<and> (\<forall>k. 0 \<le> exact e k) \<and>
    (\<forall>i < kBucketNumber. amount (hk_load h ! i) \<le> exact e (hk_keys h ! i)) \<and>
    sum_list (map unat (hk_load h)) \<le> unat (total_recorded_load h) \<and>
    amount (total_recorded_load h) \<le> exact_total e \<and> exact_total e - 1 < amount (total_recorded_load h) \<and>
    unat (total_recorded_load h) \<le> raw"

lemma detector_invD:
  assumes "detector_inv raw e h"
  shows "length (hk_keys h) = kBucketNumber" "length (hk_load h) = kBucketNumber" "next_idx h < kBucketNumber"
    "last_decay_time h = exact_decay_time e" "first_bucket h" "0 \<le> exact e k"
    "i < kBucketNumber \<Longrightarrow> amount (hk_load h ! i) \<le> exact e (hk_keys h ! i)"
    "sum_list (map unat (hk_load h)) \<le> unat (total_recorded_load h)"
    "amount (total_recorded_load h) \<le> exact_total e" "exact_total e - 1 < amount (total_recorded_load h)"
    "unat (total_recorded_load h) \<le> raw"
  using assms by (auto simp: detector_inv_def)

lemma unat_half: "unat (drop_bit (Suc 0) (w :: u64)) = unat w div 2"
  by (simp only: unat_drop_bit_eq) (simp add: drop_bit_eq_div)

lemma sum_halves: "sum_list (map (\<lambda>x. x div 2) xs) \<le> sum_list xs div (2::nat)"
  by (induction xs) auto

lemma amount_mono: "l \<le> m \<Longrightarrow> amount l \<le> amount m"
  by (simp only: amount_def of_nat_le_iff word_le_nat_alt)

lemma amount_nonneg: "0 \<le> amount l"
  by (simp only: amount_def of_nat_0_le_iff)

lemma amount_add: "unat l = unat m + unat n \<Longrightarrow> amount l = amount m + amount n"
  by (simp only: amount_def of_nat_add)

lemma amount_half: "amount (drop_bit (Suc 0) l) \<le> amount l / 2" "amount l / 2 - 1 / 2 \<le> amount (drop_bit (Suc 0) l)"
proof -
  have "unat l = 2 * (unat l div 2) + unat l mod 2" by simp
  then have "(of_nat (unat l) :: rat) = 2 * of_nat (unat l div 2) + of_nat (unat l mod 2)"
    by (metis of_nat_add of_nat_mult of_nat_numeral)
  moreover have "(of_nat (unat l mod 2) :: rat) \<le> 1" "(0 :: rat) \<le> of_nat (unat l mod 2)" by (simp_all only: mod2_eq_if) simp_all
  ultimately show "amount (drop_bit (Suc 0) l) \<le> amount l / 2" "amount l / 2 - 1 / 2 \<le> amount (drop_bit (Suc 0) l)"
    unfolding amount_def unat_half by linarith+
qed

lemma detector_inv_decay:
  assumes "detector_inv raw e h"
  shows "detector_inv raw (exact_decay d now e) (decayByTime d now h)"
proof (cases "decay_due d now (last_decay_time h)")
  case True
  note inv = detector_invD [OF assms]
  have "amount (drop_bit (Suc 0) (hk_load h ! i)) \<le> exact e (hk_keys h ! i) / 2" if "i < kBucketNumber" for i
    using inv(7) [OF that] amount_half(1) [of "hk_load h ! i"] by linarith
  moreover have "sum_list (map (\<lambda>l. unat l div 2) (hk_load h)) \<le> unat (total_recorded_load h) div 2"
    using sum_halves [of "map unat (hk_load h)"] div_le_mono [OF inv(8), of 2] by (simp add: comp_def)
  moreover have "amount (drop_bit (Suc 0) (total_recorded_load h)) \<le> exact_total e / 2"
    "exact_total e / 2 - 1 < amount (drop_bit (Suc 0) (total_recorded_load h))"
    using inv(9,10) amount_half [of "total_recorded_load h"] by linarith+
  moreover have "unat (total_recorded_load h) div 2 \<le> raw" using inv(11) by linarith
  ultimately show ?thesis
    using True inv(1-6) by (simp add: detector_inv_def decayByTime_def exact_decay_def first_bucket_def unat_half comp_def)
qed (use detector_invD(4) [OF assms] assms in \<open>simp add: decayByTime_def exact_decay_def\<close>)

lemma find_bucket_Inl:
  "find_bucket key buckets i fe = Inl j \<Longrightarrow>
    i \<le> j \<and> j - i < length buckets \<and> fst (buckets ! (j - i)) = key \<and> (\<forall>m < j - i. fst (buckets ! m) \<noteq> key)"
proof (induction key buckets i fe rule: find_bucket.induct)
  case (2 key k l buckets i fe)
  show ?case
  proof (cases "key = k")
    case False
    with 2 have "Suc i \<le> j \<and> j - Suc i < length buckets \<and> fst (buckets ! (j - Suc i)) = key \<and>
        (\<forall>m < j - Suc i. fst (buckets ! m) \<noteq> key)" by simp
    moreover from this have "j - i = Suc (j - Suc i)" by linarith
    ultimately show ?thesis using False by (auto simp: less_Suc_eq_0_disj)
  qed (use 2 in simp)
qed simp

lemma find_bucket_Inr:
  "find_bucket key buckets i fe = Inr r \<Longrightarrow>
    key \<notin> fst ` set buckets \<and> (r = fe \<or> (\<exists>j. r = Some j \<and> i \<le> j \<and> j - i < length buckets))"
proof (induction key buckets i fe rule: find_bucket.induct)
  case (2 key k l buckets i fe)
  then have "key \<noteq> k" by (auto split: if_splits)
  with 2 have "key \<notin> fst ` set buckets \<and> (r = (if fe = None \<and> l = 0 then Some i else fe) \<or>
      (\<exists>j. r = Some j \<and> Suc i \<le> j \<and> j - Suc i < length buckets))" by simp
  then show ?case using \<open>key \<noteq> k\<close> by (auto split: if_splits)
qed simp

text \<open>What one of the three ways to change bucket \<open>j\<close> has to satisfy.\<close>

definition bucket_change :: "'k \<Rightarrow> u64 \<Rightarrow> 'k hot_key_detector \<Rightarrow> nat \<Rightarrow> 'k \<Rightarrow> u64 \<Rightarrow> bool" where
  "bucket_change key load h j k' l' \<longleftrightarrow> j < kBucketNumber \<and>
    ((k' = key \<and> hk_keys h ! j = key \<and> (\<forall>m < j. hk_keys h ! m \<noteq> key) \<and> unat l' = unat (hk_load h ! j) + unat load) \<or>
     (k' = key \<and> key \<notin> set (hk_keys h) \<and> l' \<le> load) \<or>
     (k' = hk_keys h ! j \<and> l' \<le> hk_load h ! j \<and> l' \<noteq> 0 \<and> hk_load h ! j \<noteq> 0))"

lemma bucket_change_inv:
  assumes inv: "detector_inv raw e h" and ch: "bucket_change key load h j k' l'" and raw: "raw + unat load < 2 ^ 64"
    and n: "n < kBucketNumber"
  shows "detector_inv (raw + unat load)
    (e\<lparr>exact := (exact e)(key := exact e key + amount load), exact_total := exact_total e + amount load\<rparr>)
    (h\<lparr>total_records := r, total_recorded_load := total_recorded_load h + load, hk_keys := (hk_keys h)[j := k'],
       hk_load := (hk_load h)[j := l'], next_idx := n\<rparr>)"
proof -
  note I = detector_invD [OF inv]
  let ?e = "(exact e)(key := exact e key + amount load)"
  have j: "j < kBucketNumber" using ch by (simp add: bucket_change_def)
  have T: "unat (total_recorded_load h + load) = unat (total_recorded_load h) + unat load"
    using I(11) raw by (subst unat_add_lem [THEN iffD1]) simp_all
  have mono: "exact e k \<le> ?e k" for k using amount_nonneg [of load] by simp
  have l': "unat l' \<le> unat (hk_load h ! j) + unat load" using ch by (auto simp: bucket_change_def word_le_nat_alt)
  have "amount l' \<le> ?e k'"
    using ch I(7) [OF j] I(6) [of key] amount_add [of l' "hk_load h ! j" load] amount_mono [of l' load]
      amount_mono [of l' "hk_load h ! j"] mono [of "hk_keys h ! j"]
    unfolding bucket_change_def by (elim conjE disjE) auto
  moreover have "amount (hk_load h ! i) \<le> ?e (hk_keys h ! i)" if "i < kBucketNumber" for i
    using order.trans [OF I(7) [OF that] mono] .
  ultimately have below: "\<forall>i < kBucketNumber. amount ((hk_load h)[j := l'] ! i) \<le> ?e ((hk_keys h)[j := k'] ! i)"
    using I(1,2) by (metis nth_list_update_eq nth_list_update_neq)
  have "sum_list (map unat ((hk_load h)[j := l'])) \<le> sum_list (map unat (hk_load h)) + unat load"
    using l' j I(2) elem_le_sum_list [of j "map unat (hk_load h)"] by (simp add: map_update sum_list_update)
  moreover have "first_bucket (h\<lparr>hk_keys := (hk_keys h)[j := k'], hk_load := (hk_load h)[j := l']\<rparr>)"
    using ch I(1,2,5) unfolding first_bucket_def bucket_change_def
    by (auto simp: nth_list_update in_set_conv_nth split: if_splits) (use less_trans in blast)
  moreover have "0 \<le> ?e k" for k using I(6) [of k] mono [of k] by linarith
  ultimately show ?thesis
    using I(1-4,8-11) T amount_add [OF T] below n by (simp add: detector_inv_def first_bucket_def)
qed

lemma take_bucket_eq:
  obtains k' l' where "take_bucket key load h = h\<lparr>hk_keys := (hk_keys h)[next_idx h := k'], hk_load := (hk_load h)[next_idx h := l'],
      next_idx := if Suc (next_idx h) \<ge> kBucketNumber then 0 else Suc (next_idx h)\<rparr>"
    "(k' = key \<and> l' \<le> load) \<or> (k' = hk_keys h ! next_idx h \<and> l' \<le> hk_load h ! next_idx h \<and> l' \<noteq> 0 \<and> hk_load h ! next_idx h \<noteq> 0)"
proof -
  let ?i = "next_idx h"
  consider "hk_load h ! ?i = load" | "hk_load h ! ?i > load" | "hk_load h ! ?i < load" by fastforce
  then show thesis
  proof cases
    case 1
    show thesis using 1 by (intro that [where k' = key and l' = load]) (simp_all add: take_bucket_def Let_def flip: 1)
  next
    case 2
    then have "hk_load h ! ?i - load \<le> hk_load h ! ?i" "hk_load h ! ?i - load \<noteq> 0" "hk_load h ! ?i \<noteq> 0"
      by (auto intro: word_sub_le)
    with 2 show thesis
      by (intro that [where k' = "hk_keys h ! ?i" and l' = "hk_load h ! ?i - load"]) (simp_all add: take_bucket_def Let_def)
  next
    case 3
    then have "load - hk_load h ! ?i \<le> load" by (intro word_sub_le) simp
    with 3 show thesis
      by (intro that [where k' = key and l' = "load - hk_load h ! ?i"]) (simp_all add: take_bucket_def Let_def)
  qed
qed

lemma detector_inv_record:
  assumes inv: "detector_inv raw e h" and raw: "raw + unat load < 2 ^ 64"
  shows "detector_inv (raw + unat load) (exact_record d now key load e) (HotKeyDetector_record d now key load h)"
proof -
  define h0 where "h0 = decayByTime d now h"
  define h1 where "h1 = h0\<lparr>total_records := total_records h0 + 1, total_recorded_load := total_recorded_load h0 + load\<rparr>"
  note inv0 = detector_inv_decay [OF inv, of d now, folded h0_def]
  note I = detector_invD [OF inv0]
  have same: "hk_keys h1 = hk_keys h0" "hk_load h1 = hk_load h0" "next_idx h1 = next_idx h0" by (simp_all add: h1_def)
  note step = bucket_change_inv [OF inv0 _ raw, where r = "total_records h0 + 1"]
  have buckets: "length (zip (hk_keys h0) (hk_load h0)) = kBucketNumber" "fst ` set (zip (hk_keys h0) (hk_load h0)) = set (hk_keys h0)"
    using I(1,2) by (simp_all flip: set_map)
  note unfold = HotKeyDetector_record_def Let_def h0_def [symmetric] h1_def [symmetric] same exact_record_def
  show ?thesis
  proof (cases "find_bucket key (zip (hk_keys h0) (hk_load h0)) 0 None")
    case (Inl i)
    note found = find_bucket_Inl [OF Inl, simplified buckets(1)]
    then have i: "i < kBucketNumber" "hk_keys h0 ! i = key" "\<forall>m < i. hk_keys h0 ! m \<noteq> key"
      using I(1,2) by auto
    have "unat (hk_load h0 ! i) \<le> sum_list (map unat (hk_load h0))"
      using elem_le_sum_list [of i "map unat (hk_load h0)"] i(1) I(2) by simp
    then have "unat (hk_load h0 ! i + load) = unat (hk_load h0 ! i) + unat load"
      using I(8,11) raw by (subst unat_add_lem [THEN iffD1]) simp_all
    then have "bucket_change key load h0 i key (hk_load h0 ! i + load)" using i by (simp add: bucket_change_def)
    moreover have "HotKeyDetector_record d now key load h = h1\<lparr>hk_keys := (hk_keys h0)[i := key],
        hk_load := (hk_load h0)[i := hk_load h0 ! i + load], next_idx := next_idx h0\<rparr>"
      using Inl list_update_id [of "hk_keys h0" i, unfolded i(2)] by (simp add: unfold)
    ultimately show ?thesis
      using step [OF _ I(3)] by (simp add: h1_def exact_record_def Let_def)
  next
    case (Inr r)
    note absent = find_bucket_Inr [OF Inr, unfolded buckets]
    show ?thesis
    proof (cases r)
      case None
      obtain k' l' where t: "take_bucket key load h1 = h1\<lparr>hk_keys := (hk_keys h0)[next_idx h0 := k'],
          hk_load := (hk_load h0)[next_idx h0 := l'],
          next_idx := if Suc (next_idx h0) \<ge> kBucketNumber then 0 else Suc (next_idx h0)\<rparr>"
        "(k' = key \<and> l' \<le> load) \<or>
         (k' = hk_keys h0 ! next_idx h0 \<and> l' \<le> hk_load h0 ! next_idx h0 \<and> l' \<noteq> 0 \<and> hk_load h0 ! next_idx h0 \<noteq> 0)"
        by (rule take_bucket_eq [of key load h1, unfolded same])
      with absent I(3) have "bucket_change key load h0 (next_idx h0) k' l'" by (auto simp: bucket_change_def)
      moreover have "(if Suc (next_idx h0) \<ge> kBucketNumber then 0 else Suc (next_idx h0)) < kBucketNumber"
        by (simp add: kBucketNumber_def)
      ultimately show ?thesis
        using step Inr None t(1) by (simp add: unfold)
    next
      case (Some i)
      with absent have "bucket_change key load h0 i key load" by (simp add: bucket_change_def)
      from step [OF this I(3)] show ?thesis
        using Inr Some by (simp add: unfold) (simp add: h1_def)
    qed
  qed
qed

lemma detector_inv_detect:
  "detector_inv raw e h \<Longrightarrow> raw + raw_load rs < 2 ^ 64 \<Longrightarrow> detector_inv (raw + raw_load rs) (exactly d rs e) (detect d rs h)"
proof (induction rs arbitrary: raw e h)
  case (Cons r rs)
  obtain now key load where r: "r = (now, key, load)" by (cases r)
  have "detector_inv (raw + unat load) (exact_record d now key load e) (HotKeyDetector_record d now key load h)"
    using Cons.prems by (intro detector_inv_record) (simp_all add: raw_load_def r)
  from Cons.IH [OF this] Cons.prems(2) show ?case by (simp add: raw_load_def detect_def exactly_def r add.assoc)
qed (simp add: raw_load_def detect_def exactly_def)

lemma detector_inv_ctor: "detector_inv 0 (exact_start now) (HotKeyDetector_ctor k0 now)"
  by (simp add: detector_inv_def HotKeyDetector_ctor_def exact_start_def first_bucket_def kBucketNumber_def amount_def)

section \<open>Above a percentage\<close>

lemma isIdxKeyAbove_exact:
  assumes "detector_inv raw e h" "1200 * raw < 2 ^ 64" "8 \<le> percents" "percents \<le> 100" "i < kBucketNumber"
  shows "isIdxKeyAbove h i percents \<longleftrightarrow> (13 * percents - 100) * int (unat (total_recorded_load h)) < 1200 * int (unat (hk_load h ! i))"
proof -
  note I = detector_invD [OF assms(1)]
  define n where "n = nat (13 * percents - 100)"
  have n: "n \<le> 1200" "13 * percents - 100 = int n" using assms(3,4) by (auto simp: n_def)
  have "unat (hk_load h ! i) \<le> raw"
    using elem_le_sum_list [of i "map unat (hk_load h)"] assms(5) I(2,8,11) by simp
  then have "1200 * unat (hk_load h ! i) < 2 ^ 64" using assms(2) by linarith
  then have l: "unat (1200 * hk_load h ! i) = 1200 * unat (hk_load h ! i)"
    by (subst unat_mult_lem [THEN iffD1]) simp_all
  have "n * unat (total_recorded_load h) < 2 ^ 64"
    using order.strict_trans1 [OF mult_le_mono [OF n(1) I(11)] assms(2)] .
  moreover have "unat (of_nat n :: u64) = n" using n(1) by (intro unat_of_nat_small) simp
  ultimately have r: "unat (of_nat n * total_recorded_load h) = n * unat (total_recorded_load h)"
    using unat_mult_lem [of "of_nat n" "total_recorded_load h"] by simp
  have "isIdxKeyAbove h i percents \<longleftrightarrow> of_nat n * total_recorded_load h < 1200 * hk_load h ! i"
    by (simp add: isIdxKeyAbove_def kBucketNumber_def n(2))
  also have "\<dots> \<longleftrightarrow> n * unat (total_recorded_load h) < 1200 * unat (hk_load h ! i)" by (simp only: word_less_nat_alt l r)
  finally show ?thesis unfolding n(2) by (metis of_nat_less_iff of_nat_mult of_nat_numeral)
qed

lemma find_key_Some: "find_key key ks i = Some j \<Longrightarrow> i \<le> j \<and> j - i < length ks \<and> ks ! (j - i) = key"
proof (induction key ks i rule: find_key.induct)
  case (2 key k ks i)
  show ?case
  proof (cases "k = key")
    case False
    with 2 have "Suc i \<le> j \<and> j - Suc i < length ks \<and> ks ! (j - Suc i) = key" by simp
    moreover from this have "j - i = Suc (j - Suc i)" by linarith
    ultimately show ?thesis by auto
  qed (use 2 in simp)
qed simp

lemma find_key_first:
  "m < length ks \<Longrightarrow> ks ! m = key \<Longrightarrow> \<exists>j. find_key key ks i = Some (i + j) \<and> j \<le> m \<and> ks ! j = key"
proof (induction key ks i arbitrary: m rule: find_key.induct)
  case (2 key k ks i)
  show ?case
  proof (cases "k = key")
    case False
    with 2 obtain m' where "m = Suc m'" "m' < length ks" "ks ! m' = key" by (cases m) auto
    with 2(1) [OF False this(2,3)] False obtain j where "find_key key ks (Suc i) = Some (Suc i + j)" "j \<le> m'" "ks ! j = key" by blast
    with False \<open>m = Suc m'\<close> show ?thesis by (intro exI [of _ "Suc j"]) simp
  qed simp
qed simp

lemma isAbove_iff:
  assumes inv: "detector_inv raw e h" and above: "\<And>i. i < kBucketNumber \<Longrightarrow> isIdxKeyAbove h i percents \<Longrightarrow> hk_load h ! i \<noteq> 0"
  shows "isAbove h key percents \<longleftrightarrow> 50 \<le> total_records h \<and> key \<in> set (getKeysAbove h percents)"
proof -
  note I = detector_invD [OF inv]
  have "isIdxKeyAbove h j percents \<and> j < kBucketNumber \<and> hk_keys h ! j = key"
    if "find_key key (hk_keys h) 0 = Some j" "isIdxKeyAbove h j percents" for j
    using find_key_Some [OF that(1)] that(2) I(1) by simp
  moreover have "find_key key (hk_keys h) 0 = Some i"
    if hot: "i < kBucketNumber" "hk_keys h ! i = key" "isIdxKeyAbove h i percents" for i
  proof -
    obtain j where j: "find_key key (hk_keys h) 0 = Some j" "j \<le> i" "hk_keys h ! j = key"
      using find_key_first [of i "hk_keys h" key 0] hot I(1) by auto
    with I(5) above [OF hot(1,3)] hot have "\<not> j < i" unfolding first_bucket_def by metis
    with j show ?thesis by simp
  qed
  ultimately have "(\<exists>j. find_key key (hk_keys h) 0 = Some j \<and> isIdxKeyAbove h j percents) \<longleftrightarrow>
      (\<exists>i < kBucketNumber. hk_keys h ! i = key \<and> isIdxKeyAbove h i percents)" by blast
  moreover have "isAbove h key percents \<longleftrightarrow>
      50 \<le> total_records h \<and> (\<exists>j. find_key key (hk_keys h) 0 = Some j \<and> isIdxKeyAbove h j percents)"
    by (auto simp: isAbove_def not_less split: option.splits)
  moreover have "key \<in> set (getKeysAbove h percents) \<longleftrightarrow> (\<exists>i < kBucketNumber. hk_keys h ! i = key \<and> isIdxKeyAbove h i percents)"
    by (auto simp: getKeysAbove_def)
  ultimately show ?thesis by blast
qed

section \<open>Properties\<close>

text \<open>
  (C27) After any sequence of records whose loads sum up to less than \<open>2^64 / 1200\<close>, and for percentages from 8 to 100:
  a single key is reported hot exactly when at least 50 records count and the key is among the hot keys; and a key is
  never reported hot unless its exact load, with the decay applied without rounding, exceeds \<open>(13 p - 100) / 12\<close> percent
  of the exact total load less one unit.
\<close>

theorem hot_keys_sound:
  assumes "1200 * raw_load rs < 2 ^ 64" "8 \<le> percents" "percents \<le> 100"
  shows "(isAbove (detect d rs (HotKeyDetector_ctor k0 t0)) key percents \<longleftrightarrow>
      50 \<le> total_records (detect d rs (HotKeyDetector_ctor k0 t0)) \<and>
      key \<in> set (getKeysAbove (detect d rs (HotKeyDetector_ctor k0 t0)) percents)) \<and>
    (key \<in> set (getKeysAbove (detect d rs (HotKeyDetector_ctor k0 t0)) percents) \<longrightarrow>
      of_int (13 * percents - 100) * (exact_total (exactly d rs (exact_start t0)) - 1) < 1200 * exact (exactly d rs (exact_start t0)) key)"
proof -
  let ?h = "detect d rs (HotKeyDetector_ctor k0 t0)" and ?e = "exactly d rs (exact_start t0)"
  have inv: "detector_inv (raw_load rs) ?e ?h"
    using detector_inv_detect [OF detector_inv_ctor, of rs d t0 k0] assms(1) by simp
  note I = detector_invD [OF inv] and exact_iff = isIdxKeyAbove_exact [OF inv assms]
  have "hk_load ?h ! i \<noteq> 0" if "i < kBucketNumber" "isIdxKeyAbove ?h i percents" for i
  proof
    assume "hk_load ?h ! i = 0"
    with that exact_iff [OF that(1)] have "(13 * percents - 100) * int (unat (total_recorded_load ?h)) < 0" by simp
    with assms(2) show False by (simp add: mult_less_0_iff)
  qed
  note iff = isAbove_iff [OF inv this]
  have "of_int (13 * percents - 100) * (exact_total ?e - 1) < 1200 * exact ?e (hk_keys ?h ! i)"
    if "i < kBucketNumber" "isIdxKeyAbove ?h i percents" for i
  proof -
    have "of_int ((13 * percents - 100) * int (unat (total_recorded_load ?h))) < (of_int (1200 * int (unat (hk_load ?h ! i))) :: rat)"
      using that exact_iff by (simp only: of_int_less_iff)
    then have "of_int (13 * percents - 100) * amount (total_recorded_load ?h) < 1200 * amount (hk_load ?h ! i)"
      by (simp only: amount_def of_int_mult of_int_of_nat_eq of_int_numeral)
    moreover have "of_int (13 * percents - 100) * (exact_total ?e - 1) \<le> of_int (13 * percents - 100) * amount (total_recorded_load ?h)"
      using I(10) assms(2) by (intro mult_left_mono) simp_all
    ultimately show ?thesis using I(7) [OF that(1)] by linarith
  qed
  then show ?thesis using iff by (auto simp: getKeysAbove_def)
qed

theorem hot_keys_sound_witness:
  "exact_total (exactly 60 [(0, 1, 40), (0, 2, 8), (61 * 10 ^ 9, 1 :: nat, 5)] (exact_start 0)) = 29 \<and>
   of_int 810 * (exact_total (exactly 60 [(0, 1, 40), (0, 2, 8), (61 * 10 ^ 9, 1 :: nat, 5)] (exact_start 0)) - 1) <
     1200 * exact (exactly 60 [(0, 1, 40), (0, 2, 8), (61 * 10 ^ 9, 1 :: nat, 5)] (exact_start 0)) 1"
proof -
  let ?rs = "[(0, 1, 40), (0, 2, 8), (61 * 10 ^ 9, 1 :: nat, 5)]"
  have "1 \<in> set (getKeysAbove (detect 60 ?rs (HotKeyDetector_ctor 0 0)) 70)" by code_simp
  moreover have "1200 * raw_load ?rs < 2 ^ 64" by (simp add: raw_load_def)
  moreover have "exact_total (exactly 60 ?rs (exact_start 0)) = 29" by code_simp
  ultimately show ?thesis
    using hot_keys_sound [of ?rs 70 60 0 0 1] by simp
qed

text \<open>
  The comment of the class says that a key with more than a tenth of the load should be in a bucket. The order of the records
  matters: twelve other keys recorded first keep out a key that has a third of the load.
\<close>

lemma hot_key_missed:
  "let rs = map (\<lambda>k. (0, k, 2)) [1..<13] @ replicate 12 (0, 13, 1)
   in 13 \<notin> set (hk_keys (detect 60 rs (HotKeyDetector_ctor 0 0))) \<and>
      3 * exact (exactly 60 rs (exact_start 0)) (13 :: nat) = exact_total (exactly 60 rs (exact_start 0))"
  by code_simp

end
