(* ===== verification/Stats.thy ===== *)
theory Stats
  imports Complex_Main Prelude "HOL-Library.AList"
begin

text \<open>
  \<open>common/stats/stats.cpp\<close>: counters and metrics, recorded in objects local to a thread and flushed by one thread into the
  global time series. A statistic is named by an index, if it is pre-defined, or by a string; the two overloads of every
  operation are the two cases of \<open>stat_key\<close>. The time series and histograms of folly are parameters. The interleavings of
  the recording threads with the flush thread are a labelled step relation; between the moment the flush thread has taken
  a local value and the moment it has added it to the global one, the value is in flight.
\<close>

section \<open>Tables\<close>

datatype stat_key = Index u32 | Name string

text \<open>A vector for the pre-defined statistics and a hash map for the others, listed in the order of its iteration.\<close>

record 'v table =
  slots :: "'v list"
  named :: "(string \<times> 'v) list"

definition valid_key :: "'v table \<Rightarrow> stat_key \<Rightarrow> bool" where
  "valid_key t key = (case key of Index i \<Rightarrow> unat i < length (slots t) | Name n \<Rightarrow> True)"

definition lookup :: "'v table \<Rightarrow> stat_key \<Rightarrow> 'v option" where
  "lookup t key =
    (case key of Index i \<Rightarrow> if unat i < length (slots t) then Some (slots t ! unat i) else None | Name n \<Rightarrow> map_of (named t) n)"

text \<open>
  Changing the value of a statistic: nothing happens for an index out of range, and a name that is not in the map is entered
  with the changed initial value.
\<close>

definition bump :: "stat_key \<Rightarrow> ('v \<Rightarrow> 'v) \<Rightarrow> 'v \<Rightarrow> 'v table \<Rightarrow> 'v table" where
  "bump key f v0 t =
    (case key of
       Index i \<Rightarrow> if unat i < length (slots t) then t\<lparr>slots := (slots t)[unat i := f (slots t ! unat i)]\<rparr> else t
     | Name n \<Rightarrow>
         (case map_of (named t) n of
            Some v \<Rightarrow> t\<lparr>named := AList.update n (f v) (named t)\<rparr>
          | None \<Rightarrow> t\<lparr>named := named t @ [(n, f v0)]\<rparr>))"

definition all_keys :: "'v table \<Rightarrow> stat_key list" where
  "all_keys t = map (\<lambda>i. Index (of_nat i)) [0..<length (slots t)] @ map (Name \<circ> fst) (named t)"

section \<open>The libraries\<close>

record ('ts, 'h, 'th) folly_stats =
  ts_new :: "u32 \<Rightarrow> 'ts"
  ts_addValue :: "int \<Rightarrow> u64 \<Rightarrow> 'ts \<Rightarrow> 'ts"
  ts_update :: "int \<Rightarrow> 'ts \<Rightarrow> 'ts"
  ts_sum :: "nat \<Rightarrow> 'ts \<Rightarrow> u64"
  h_new :: "int \<Rightarrow> int \<Rightarrow> 'h"
  h_addValue :: "int \<Rightarrow> 'h \<Rightarrow> 'h"
  th_new :: "u32 \<Rightarrow> int \<Rightarrow> int \<Rightarrow> 'th"
  th_addValues :: "int \<Rightarrow> 'h \<Rightarrow> 'th \<Rightarrow> 'th"
  th_update :: "int \<Rightarrow> 'th \<Rightarrow> 'th"
  th_getPercentileEstimate :: "rat \<Rightarrow> nat \<Rightarrow> 'th \<Rightarrow> int"
  th_sum :: "nat \<Rightarrow> 'th \<Rightarrow> int"
  th_avg :: "nat \<Rightarrow> 'th \<Rightarrow> int"
  th_count :: "nat \<Rightarrow> 'th \<Rightarrow> int"

text \<open>
  What the code relies on: the second level has no interval and so keeps everything that was added, whatever the time.
  \<open>samples\<close> and \<open>ts_samples\<close> are the values a histogram, and the second level of a time series of histograms, contains.
\<close>

definition folly_spec :: "('ts, 'h, 'th) folly_stats \<Rightarrow> ('h \<Rightarrow> int multiset) \<Rightarrow> ('th \<Rightarrow> int multiset) \<Rightarrow> bool" where
  "folly_spec api samples ts_samples \<longleftrightarrow>
    (\<forall>n. ts_sum api 1 (ts_new api n) = 0) \<and>
    (\<forall>t v x. ts_sum api 1 (ts_addValue api t v x) = ts_sum api 1 x + v) \<and>
    (\<forall>t x. ts_sum api 1 (ts_update api t x) = ts_sum api 1 x) \<and>
    (\<forall>a b. samples (h_new api a b) = {#}) \<and>
    (\<forall>v h. samples (h_addValue api v h) = add_mset v (samples h)) \<and>
    (\<forall>n a b. ts_samples (th_new api n a b) = {#}) \<and>
    (\<forall>t h x. ts_samples (th_addValues api t h x) = ts_samples x + samples h) \<and>
    (\<forall>t x. ts_samples (th_update api t x) = ts_samples x) \<and>
    (\<forall>x. int (size (ts_samples x)) < 2 ^ 63 \<longrightarrow> th_count api 1 x = int (size (ts_samples x)))"

section \<open>The objects\<close>

record 'h local_stats =
  counters :: "u64 table"
  ls_histograms :: "'h table"

datatype 'h in_flight = Idle | CounterInFlight stat_key u64 | MetricInFlight stat_key 'h

record ('ts, 'h, 'th) stats =
  counter_names :: "string list option"
  metric_names :: "string list option"
  nSecondsPerMin :: u32
  timeseries :: "'ts table"
  histograms :: "'th table"
  local_stats :: "(tid \<times> 'h local_stats) list"
  counter_callbacks :: "(string \<times> nat) list"
  metrics_callbacks :: "(string \<times> nat) list"
  flight :: "'h in_flight"

definition kMinMetricValue :: int where
  "kMinMetricValue = 0"

definition kMaxMetricValue :: int where
  "kMaxMetricValue = 200"

definition GetArraySize :: "string list option \<Rightarrow> nat" where
  "GetArraySize array = (case array of Some names \<Rightarrow> length names | None \<Rightarrow> 0)"

definition GetTimeseriesHistogramWrapper :: "('ts, 'h, 'th) folly_stats \<Rightarrow> u32 \<Rightarrow> 'th" where
  "GetTimeseriesHistogramWrapper api nSeconds = th_new api nSeconds kMinMetricValue kMaxMetricValue"

definition GetMultiLevelTimeSeriesWrapper :: "('ts, 'h, 'th) folly_stats \<Rightarrow> u32 \<Rightarrow> 'ts" where
  "GetMultiLevelTimeSeriesWrapper api nSeconds = ts_new api nSeconds"

text \<open>The constructor, after \<open>Stats::init\<close> and \<open>SetSecondsPerMin\<close> have stored the names and the length of a minute.\<close>

definition Stats_ctor :: "('ts, 'h, 'th) folly_stats \<Rightarrow> string list option \<Rightarrow> string list option \<Rightarrow> u32 \<Rightarrow> ('ts, 'h, 'th) stats" where
  "Stats_ctor api c_names m_names nSeconds =
    \<lparr>counter_names = c_names, metric_names = m_names, nSecondsPerMin = nSeconds,
     timeseries = \<lparr>slots = replicate (GetArraySize c_names) (GetMultiLevelTimeSeriesWrapper api nSeconds), named = []\<rparr>,
     histograms = \<lparr>slots = replicate (GetArraySize m_names) (GetTimeseriesHistogramWrapper api nSeconds), named = []\<rparr>,
     local_stats = [], counter_callbacks = [], metrics_callbacks = [], flight = Idle\<rparr>"

definition LocalStats_ctor :: "('ts, 'h, 'th) folly_stats \<Rightarrow> nat \<Rightarrow> nat \<Rightarrow> 'h local_stats" where
  "LocalStats_ctor api num_counters num_metrics =
    \<lparr>counters = \<lparr>slots = replicate num_counters 0, named = []\<rparr>,
     ls_histograms = \<lparr>slots = replicate num_metrics (h_new api kMinMetricValue kMaxMetricValue), named = []\<rparr>\<rparr>"

section \<open>Recording\<close>

definition LocalStats_Incr :: "stat_key \<Rightarrow> u64 \<Rightarrow> 'h local_stats \<Rightarrow> 'h local_stats" where
  "LocalStats_Incr counter value l = l\<lparr>counters := bump counter (\<lambda>n. n + value) 0 (counters l)\<rparr>"

definition LocalStats_AddMetric :: "('ts, 'h, 'th) folly_stats \<Rightarrow> stat_key \<Rightarrow> int \<Rightarrow> 'h local_stats \<Rightarrow> 'h local_stats" where
  "LocalStats_AddMetric api metric value l =
    l\<lparr>ls_histograms := bump metric (h_addValue api value) (h_new api kMinMetricValue kMaxMetricValue) (ls_histograms l)\<rparr>"

definition GetLocalStats :: "('ts, 'h, 'th) folly_stats \<Rightarrow> tid \<Rightarrow> ('ts, 'h, 'th) stats \<Rightarrow> 'h local_stats" where
  "GetLocalStats api t s =
    (case map_of (local_stats s) t of
       Some l \<Rightarrow> l
     | None \<Rightarrow> LocalStats_ctor api (GetArraySize (counter_names s)) (GetArraySize (metric_names s)))"

definition with_local :: "tid \<Rightarrow> 'h local_stats \<Rightarrow> ('ts, 'h, 'th) stats \<Rightarrow> ('ts, 'h, 'th) stats" where
  "with_local t l s = s\<lparr>local_stats := AList.update t l (local_stats s)\<rparr>"

definition Stats_Incr :: "('ts, 'h, 'th) folly_stats \<Rightarrow> tid \<Rightarrow> stat_key \<Rightarrow> u64 \<Rightarrow> ('ts, 'h, 'th) stats \<Rightarrow> ('ts, 'h, 'th) stats" where
  "Stats_Incr api t counter value s = with_local t (LocalStats_Incr counter value (GetLocalStats api t s)) s"

definition Stats_AddMetric :: "('ts, 'h, 'th) folly_stats \<Rightarrow> tid \<Rightarrow> stat_key \<Rightarrow> int \<Rightarrow> ('ts, 'h, 'th) stats \<Rightarrow> ('ts, 'h, 'th) stats" where
  "Stats_AddMetric api t metric value s = with_local t (LocalStats_AddMetric api metric value (GetLocalStats api t s)) s"

text \<open>Callbacks are numbered; a name that has one keeps it.\<close>

definition emplace :: "string \<Rightarrow> nat \<Rightarrow> (string \<times> nat) list \<Rightarrow> (string \<times> nat) list" where
  "emplace name callback m = (if map_of m name = None then m @ [(name, callback)] else m)"

definition RegisterIncr :: "string \<Rightarrow> nat \<Rightarrow> ('ts, 'h, 'th) stats \<Rightarrow> ('ts, 'h, 'th) stats" where
  "RegisterIncr counter callback s = s\<lparr>counter_callbacks := emplace counter callback (counter_callbacks s)\<rparr>"

definition RegisterAddMetric :: "string \<Rightarrow> nat \<Rightarrow> ('ts, 'h, 'th) stats \<Rightarrow> ('ts, 'h, 'th) stats" where
  "RegisterAddMetric metric callback s = s\<lparr>metrics_callbacks := emplace metric callback (metrics_callbacks s)\<rparr>"

section \<open>Flushing\<close>

definition Stats_FlushCounter :: "('ts, 'h, 'th) folly_stats \<Rightarrow> stat_key \<Rightarrow> u64 \<Rightarrow> int \<Rightarrow> ('ts, 'h, 'th) stats \<Rightarrow> ('ts, 'h, 'th) stats" where
  "Stats_FlushCounter api counter sum_taken now s =
    s\<lparr>timeseries := bump counter (ts_addValue api now sum_taken) (GetMultiLevelTimeSeriesWrapper api (nSecondsPerMin s)) (timeseries s)\<rparr>"

definition Stats_FlushMetric :: "('ts, 'h, 'th) folly_stats \<Rightarrow> stat_key \<Rightarrow> 'h \<Rightarrow> int \<Rightarrow> ('ts, 'h, 'th) stats \<Rightarrow> ('ts, 'h, 'th) stats" where
  "Stats_FlushMetric api metric histogram now s =
    s\<lparr>histograms := bump metric (th_addValues api now histogram) (GetTimeseriesHistogramWrapper api (nSecondsPerMin s)) (histograms s)\<rparr>"

text \<open>\<open>LocalStats::FlushCounter\<close> and \<open>LocalStats::FlushMetric\<close> take the local value, then pass it on.\<close>

definition take_counter :: "tid \<Rightarrow> stat_key \<Rightarrow> 'h local_stats \<Rightarrow> ('ts, 'h, 'th) stats \<Rightarrow> ('ts, 'h, 'th) stats" where
  "take_counter t counter l s =
    (case lookup (counters l) counter of
       None \<Rightarrow> s
     | Some sum_taken \<Rightarrow>
         (with_local t (l\<lparr>counters := bump counter (\<lambda>_. 0) 0 (counters l)\<rparr>) s)
           \<lparr>flight := if sum_taken > 0 then CounterInFlight counter sum_taken else Idle\<rparr>)"

definition take_metric ::
  "('ts, 'h, 'th) folly_stats \<Rightarrow> tid \<Rightarrow> stat_key \<Rightarrow> 'h local_stats \<Rightarrow> ('ts, 'h, 'th) stats \<Rightarrow> ('ts, 'h, 'th) stats" where
  "take_metric api t metric l s =
    (case lookup (ls_histograms l) metric of
       None \<Rightarrow> s
     | Some histogram \<Rightarrow>
         let histogram_ptr = h_new api kMinMetricValue kMaxMetricValue
         in (with_local t (l\<lparr>ls_histograms := bump metric (\<lambda>_. histogram_ptr) histogram_ptr (ls_histograms l)\<rparr>) s)
              \<lparr>flight := MetricInFlight metric histogram\<rparr>)"

definition pass_on :: "('ts, 'h, 'th) folly_stats \<Rightarrow> int \<Rightarrow> ('ts, 'h, 'th) stats \<Rightarrow> ('ts, 'h, 'th) stats" where
  "pass_on api now s =
    (case flight s of
       Idle \<Rightarrow> s
     | CounterInFlight counter sum_taken \<Rightarrow> (Stats_FlushCounter api counter sum_taken now s)\<lparr>flight := Idle\<rparr>
     | MetricInFlight metric histogram \<Rightarrow> (Stats_FlushMetric api metric histogram now s)\<lparr>flight := Idle\<rparr>)"

definition LocalStats_FlushCounter :: "('ts, 'h, 'th) folly_stats \<Rightarrow> int \<Rightarrow> tid \<Rightarrow> stat_key \<Rightarrow> ('ts, 'h, 'th) stats \<Rightarrow> ('ts, 'h, 'th) stats" where
  "LocalStats_FlushCounter api now t counter s =
    (case map_of (local_stats s) t of None \<Rightarrow> s | Some l \<Rightarrow> pass_on api now (take_counter t counter l s))"

definition LocalStats_FlushMetric :: "('ts, 'h, 'th) folly_stats \<Rightarrow> int \<Rightarrow> tid \<Rightarrow> stat_key \<Rightarrow> ('ts, 'h, 'th) stats \<Rightarrow> ('ts, 'h, 'th) stats" where
  "LocalStats_FlushMetric api now t metric s =
    (case map_of (local_stats s) t of None \<Rightarrow> s | Some l \<Rightarrow> pass_on api now (take_metric api t metric l s))"

definition LocalStats_FlushAll :: "('ts, 'h, 'th) folly_stats \<Rightarrow> int \<Rightarrow> tid \<Rightarrow> ('ts, 'h, 'th) stats \<Rightarrow> ('ts, 'h, 'th) stats" where
  "LocalStats_FlushAll api now t s =
    (case map_of (local_stats s) t of
       None \<Rightarrow> s
     | Some l \<Rightarrow>
         fold (LocalStats_FlushMetric api now t) (all_keys (ls_histograms l))
           (fold (LocalStats_FlushCounter api now t) (all_keys (counters l)) s))"

text \<open>
  One round of the flush thread \<open>ft\<close>: the callbacks, which return \<open>count_of\<close> and \<open>value_of\<close>, then every thread's object,
  each at its own time.
\<close>

definition flush_round ::
  "('ts, 'h, 'th) folly_stats \<Rightarrow> tid \<Rightarrow> (nat \<Rightarrow> u64) \<Rightarrow> (nat \<Rightarrow> int) \<Rightarrow> (tid \<Rightarrow> int) \<Rightarrow> ('ts, 'h, 'th) stats \<Rightarrow> ('ts, 'h, 'th) stats" where
  "flush_round api ft count_of value_of now s =
    (let s = fold (\<lambda>(name, cb). Stats_Incr api ft (Name name) (count_of cb)) (counter_callbacks s) s;
         s = fold (\<lambda>(name, cb). Stats_AddMetric api ft (Name name) (value_of cb)) (metrics_callbacks s) s
     in fold (\<lambda>t. LocalStats_FlushAll api (now t) t) (map fst (local_stats s)) s)"

section \<open>Reading\<close>

text \<open>
  The objects \<open>Counter\<close> and \<open>Metric\<close> point to a time series; a reading advances it to the current time first. The advance
  is not kept in the state, since every later reading or addition advances the series again.
\<close>

definition GetCounter :: "stat_key \<Rightarrow> ('ts, 'h, 'th) stats \<Rightarrow> 'ts option" where
  "GetCounter counter s = lookup (timeseries s) counter"

definition GetMetric :: "stat_key \<Rightarrow> ('ts, 'h, 'th) stats \<Rightarrow> 'th option" where
  "GetMetric metric s = lookup (histograms s) metric"

definition GetTotal :: "('ts, 'h, 'th) folly_stats \<Rightarrow> int \<Rightarrow> 'ts \<Rightarrow> u64" where
  "GetTotal api now ts = ts_sum api 1 (ts_update api now ts)"

definition GetLastMinute :: "('ts, 'h, 'th) folly_stats \<Rightarrow> int \<Rightarrow> 'ts \<Rightarrow> u64" where
  "GetLastMinute api now ts = ts_sum api 0 (ts_update api now ts)"

definition GetPercentileTotal :: "('ts, 'h, 'th) folly_stats \<Rightarrow> int \<Rightarrow> rat \<Rightarrow> 'th \<Rightarrow> int" where
  "GetPercentileTotal api now pct th = th_getPercentileEstimate api pct 1 (th_update api now th)"

definition GetPercentileLastMinute :: "('ts, 'h, 'th) folly_stats \<Rightarrow> int \<Rightarrow> rat \<Rightarrow> 'th \<Rightarrow> int" where
  "GetPercentileLastMinute api now pct th = th_getPercentileEstimate api pct 0 (th_update api now th)"

definition GetSumTotal :: "('ts, 'h, 'th) folly_stats \<Rightarrow> int \<Rightarrow> 'th \<Rightarrow> int" where
  "GetSumTotal api now th = th_sum api 1 (th_update api now th)"

definition GetSumLastMinute :: "('ts, 'h, 'th) folly_stats \<Rightarrow> int \<Rightarrow> 'th \<Rightarrow> int" where
  "GetSumLastMinute api now th = th_sum api 0 (th_update api now th)"

definition GetAverageTotal :: "('ts, 'h, 'th) folly_stats \<Rightarrow> int \<Rightarrow> 'th \<Rightarrow> int" where
  "GetAverageTotal api now th = th_avg api 1 (th_update api now th)"

definition GetAverageLastMinute :: "('ts, 'h, 'th) folly_stats \<Rightarrow> int \<Rightarrow> 'th \<Rightarrow> int" where
  "GetAverageLastMinute api now th = th_avg api 0 (th_update api now th)"

definition GetCountTotal :: "('ts, 'h, 'th) folly_stats \<Rightarrow> int \<Rightarrow> 'th \<Rightarrow> int" where
  "GetCountTotal api now th = th_count api 1 (th_update api now th)"

definition GetCountLastMinute :: "('ts, 'h, 'th) folly_stats \<Rightarrow> int \<Rightarrow> 'th \<Rightarrow> int" where
  "GetCountLastMinute api now th = th_count api 0 (th_update api now th)"

section \<open>The text dump\<close>

fun join :: "string \<Rightarrow> string list \<Rightarrow> string" where
  "join sep [] = []"
| "join sep [x] = x"
| "join sep (x # xs) = x @ sep @ join sep xs"

definition GetTotalName :: "string \<Rightarrow> string" where
  "GetTotalName raw_name =
    (let raw_name_parts = split_at CHR '' '' raw_name in join '' '' (raw_name_parts[0 := raw_name_parts ! 0 @ ''__TOTAL'']))"

definition newline :: string where
  "newline = [CHR 0x0A]"

definition metric_line :: "string \<Rightarrow> int \<Rightarrow> int \<Rightarrow> (rat \<Rightarrow> int) \<Rightarrow> int \<Rightarrow> string" where
  "metric_line name average cnt percentile sum_taken =
    ''  '' @ name @ '': (average='' @ show_int average @ '', count='' @ show_int cnt @ '', maximum='' @ show_int (percentile 100) @
    '', minimum='' @ show_int (percentile 0) @ '', p50='' @ show_int (percentile 50) @ '', p90='' @ show_int (percentile 90) @
    '', p99='' @ show_int (percentile 99) @ '', p999='' @ show_int (percentile (999 / 10)) @
    '', p9999='' @ show_int (percentile (9999 / 100)) @ '', sum='' @ show_int sum_taken @ '')'' @ newline"

definition metric_logger :: "('ts, 'h, 'th) folly_stats \<Rightarrow> int \<Rightarrow> string \<Rightarrow> 'th \<Rightarrow> string" where
  "metric_logger api now name th =
    metric_line name (GetAverageLastMinute api now th) (GetCountLastMinute api now th)
      (\<lambda>pct. GetPercentileLastMinute api now pct th) (GetSumLastMinute api now th) @
    metric_line (GetTotalName name) (GetAverageTotal api now th) (GetCountTotal api now th)
      (\<lambda>pct. GetPercentileTotal api now pct th) (GetSumTotal api now th)"

definition counter_logger :: "('ts, 'h, 'th) folly_stats \<Rightarrow> int \<Rightarrow> string \<Rightarrow> 'ts \<Rightarrow> string" where
  "counter_logger api now name ts =
    ''  '' @ name @ '': '' @ show_nat (unat (GetLastMinute api now ts)) @ newline @
    ''  '' @ GetTotalName name @ '': '' @ show_nat (unat (GetTotal api now ts)) @ newline"

definition log_table :: "string list option \<Rightarrow> (string \<Rightarrow> 'v \<Rightarrow> string) \<Rightarrow> 'v table \<Rightarrow> string" where
  "log_table names logger t =
    concat (map2 logger (case names of Some ns \<Rightarrow> ns | None \<Rightarrow> []) (slots t)) @ concat (map (\<lambda>(name, v). logger name v) (named t))"

text \<open>The whole dump at one time of the clock, which is read once per value in the code.\<close>

definition DumpStatsAsText :: "('ts, 'h, 'th) folly_stats \<Rightarrow> int \<Rightarrow> ('ts, 'h, 'th) stats \<Rightarrow> string" where
  "DumpStatsAsText api now s =
    ''gauges:'' @ newline @ ''labels:'' @ newline @ ''metrics:'' @ newline @
    log_table (metric_names s) (metric_logger api now) (histograms s) @
    ''counters:'' @ newline @ log_table (counter_names s) (counter_logger api now) (timeseries s)"

section \<open>Interleavings\<close>

datatype stats_label =
    LIncr tid stat_key u64
  | LAddMetric tid stat_key int
  | LTakeCounter tid stat_key
  | LTakeMetric tid stat_key
  | LPassOn int
  | LRegisterIncr string nat
  | LRegisterAddMetric string nat
  | LThreadExit tid

text \<open>Only the flush thread takes values, one at a time. The object of a thread is destroyed when the thread ends.\<close>

inductive stats_step ::
  "('ts, 'h, 'th) folly_stats \<Rightarrow> ('ts, 'h, 'th) stats \<Rightarrow> stats_label \<Rightarrow> ('ts, 'h, 'th) stats \<Rightarrow> bool" for api where
  step_incr: "stats_step api s (LIncr t counter value) (Stats_Incr api t counter value s)"
| step_metric: "stats_step api s (LAddMetric t metric value) (Stats_AddMetric api t metric value s)"
| step_take_counter: "flight s = Idle \<Longrightarrow> map_of (local_stats s) t = Some l \<Longrightarrow>
    stats_step api s (LTakeCounter t counter) (take_counter t counter l s)"
| step_take_metric: "flight s = Idle \<Longrightarrow> map_of (local_stats s) t = Some l \<Longrightarrow>
    stats_step api s (LTakeMetric t metric) (take_metric api t metric l s)"
| step_pass_on: "stats_step api s (LPassOn now) (pass_on api now s)"
| step_register_incr: "stats_step api s (LRegisterIncr counter callback) (RegisterIncr counter callback s)"
| step_register_metric: "stats_step api s (LRegisterAddMetric metric callback) (RegisterAddMetric metric callback s)"
| step_exit: "stats_step api s (LThreadExit t) (s\<lparr>local_stats := AList.delete t (local_stats s)\<rparr>)"

inductive stats_run ::
  "('ts, 'h, 'th) folly_stats \<Rightarrow> ('ts, 'h, 'th) stats \<Rightarrow> stats_label list \<Rightarrow> ('ts, 'h, 'th) stats \<Rightarrow> bool" for api where
  run_nil: "stats_run api s [] s"
| run_snoc: "stats_run api s tr s' \<Longrightarrow> stats_step api s' lbl s'' \<Longrightarrow> stats_run api s (tr @ [lbl]) s''"

text \<open>The specification: what has been recorded, in no time and without threads.\<close>

record stats_spec =
  counts :: "stat_key \<Rightarrow> u64"
  recorded :: "stat_key \<Rightarrow> int multiset"

definition known_key :: "nat \<Rightarrow> stat_key \<Rightarrow> bool" where
  "known_key n key = (case key of Index i \<Rightarrow> unat i < n | Name _ \<Rightarrow> True)"

fun spec_step :: "nat \<Rightarrow> nat \<Rightarrow> stats_label \<Rightarrow> stats_spec \<Rightarrow> stats_spec" where
  "spec_step nc nm (LIncr t counter value) sp =
    (if known_key nc counter then sp\<lparr>counts := (counts sp)(counter := counts sp counter + value)\<rparr> else sp)"
| "spec_step nc nm (LAddMetric t metric value) sp =
    (if known_key nm metric then sp\<lparr>recorded := (recorded sp)(metric := add_mset value (recorded sp metric))\<rparr> else sp)"
| "spec_step nc nm _ sp = sp"

definition spec_run :: "nat \<Rightarrow> nat \<Rightarrow> stats_label list \<Rightarrow> stats_spec" where
  "spec_run nc nm tr = fold (spec_step nc nm) tr \<lparr>counts = (\<lambda>_. 0), recorded = (\<lambda>_. {#})\<rparr>"

text \<open>The abstraction: what is in the global series, in flight and in the objects of the threads.\<close>

definition held :: "('v \<Rightarrow> 'm::comm_monoid_add) \<Rightarrow> 'v table \<Rightarrow> stat_key \<Rightarrow> 'm" where
  "held f t key = (case lookup t key of None \<Rightarrow> 0 | Some v \<Rightarrow> f v)"

definition pending :: "('h local_stats \<Rightarrow> 'm::comm_monoid_add) \<Rightarrow> ('ts, 'h, 'th) stats \<Rightarrow> 'm" where
  "pending f s = sum_list (map (\<lambda>x. f (snd x)) (local_stats s))"

definition flying_count :: "('ts, 'h, 'th) stats \<Rightarrow> stat_key \<Rightarrow> u64" where
  "flying_count s key = (case flight s of CounterInFlight k n \<Rightarrow> if k = key then n else 0 | _ \<Rightarrow> 0)"

definition flying_values :: "('h \<Rightarrow> int multiset) \<Rightarrow> ('ts, 'h, 'th) stats \<Rightarrow> stat_key \<Rightarrow> int multiset" where
  "flying_values samples s key = (case flight s of MetricInFlight k h \<Rightarrow> if k = key then samples h else {#} | _ \<Rightarrow> {#})"

definition abs_stats ::
  "('ts, 'h, 'th) folly_stats \<Rightarrow> ('h \<Rightarrow> int multiset) \<Rightarrow> ('th \<Rightarrow> int multiset) \<Rightarrow> ('ts, 'h, 'th) stats \<Rightarrow> stats_spec" where
  "abs_stats api samples ts_samples s =
    \<lparr>counts = (\<lambda>k. held (ts_sum api 1) (timeseries s) k + flying_count s k + pending (\<lambda>l. held id (counters l) k) s),
     recorded = (\<lambda>k. held ts_samples (histograms s) k + flying_values samples s k + pending (\<lambda>l. held samples (ls_histograms l) k) s)\<rparr>"

text \<open>All vectors have the length of the list of names, and a thread has one object.\<close>

definition sized :: "nat \<Rightarrow> nat \<Rightarrow> 'h local_stats \<Rightarrow> bool" where
  "sized nc nm l \<longleftrightarrow> length (slots (counters l)) = nc \<and> length (slots (ls_histograms l)) = nm"

definition stats_inv :: "nat \<Rightarrow> nat \<Rightarrow> ('ts, 'h, 'th) stats \<Rightarrow> bool" where
  "stats_inv nc nm s \<longleftrightarrow>
    GetArraySize (counter_names s) = nc \<and> GetArraySize (metric_names s) = nm \<and>
    length (slots (timeseries s)) = nc \<and> length (slots (histograms s)) = nm \<and>
    distinct (map fst (local_stats s)) \<and> list_all (sized nc nm \<circ> snd) (local_stats s) \<and>
    (case flight s of Idle \<Rightarrow> True | CounterInFlight k _ \<Rightarrow> known_key nc k | MetricInFlight k _ \<Rightarrow> known_key nm k)"

section \<open>Tables and objects\<close>

lemma length_slots_bump [simp]: "length (slots (bump key f v0 t)) = length (slots t)"
  by (auto simp: bump_def split: stat_key.splits option.splits)

lemma lookup_bump:
  "lookup (bump key f v0 t) k =
    (if k = key \<and> known_key (length (slots t)) key then Some (f (case lookup t key of Some v \<Rightarrow> v | None \<Rightarrow> v0)) else lookup t k)"
  by (auto simp: bump_def lookup_def known_key_def update_conv' map_of_append nth_list_update map_add_def
      split: stat_key.splits option.splits dest: unsigned_word_eqI)

lemma held_bump:
  "held g (bump key f v0 t) k =
    (if k = key \<and> known_key (length (slots t)) key then g (f (case lookup t key of Some v \<Rightarrow> v | None \<Rightarrow> v0)) else held g t k)"
  by (simp add: held_def lookup_bump)

lemma held_bump_add:
  assumes "g v0 = 0" "\<And>v. g (f v) = g v + d"
  shows "held g (bump key f v0 t) k = held g t k + (if k = key \<and> known_key (length (slots t)) key then d else 0)"
  using assms by (simp add: held_bump) (simp add: held_def split: option.split)

lemma sum_alist_update:
  fixes f :: "'v \<Rightarrow> 'm::cancel_comm_monoid_add"
  assumes "distinct (map fst xs)"
  shows "sum_list (map (\<lambda>x. f (snd x)) (AList.update k v xs)) + (case map_of xs k of None \<Rightarrow> 0 | Some v0 \<Rightarrow> f v0) =
    sum_list (map (\<lambda>x. f (snd x)) xs) + f v"
  using assms
proof (induction xs)
  case (Cons x xs)
  obtain a b where x: "x = (a, b)" by (cases x)
  show ?case
  proof (cases "k = a")
    case False
    let ?old = "case map_of xs k of None \<Rightarrow> 0 | Some v0 \<Rightarrow> f v0"
    from Cons have "f b + (sum_list (map (\<lambda>x. f (snd x)) (AList.update k v xs)) + ?old) = f b + (sum_list (map (\<lambda>x. f (snd x)) xs) + f v)" by simp
    with False show ?thesis by (simp add: x add.assoc)
  qed (simp add: x add.commute add.left_commute)
qed simp

lemma pending_balance:
  fixes f :: "'h local_stats \<Rightarrow> 'm::cancel_comm_monoid_add"
  assumes "distinct (map fst (local_stats s))"
    and "f (LocalStats_ctor api (GetArraySize (counter_names s)) (GetArraySize (metric_names s))) = 0"
  shows "pending f (with_local t l s) + f (GetLocalStats api t s) = pending f s + f l"
proof -
  have "(case map_of (local_stats s) t of None \<Rightarrow> 0 | Some l0 \<Rightarrow> f l0) = f (GetLocalStats api t s)"
    using assms(2) by (simp add: GetLocalStats_def split: option.split)
  with sum_alist_update [OF assms(1), of f t l] show ?thesis by (simp add: pending_def with_local_def)
qed

lemma pending_gain:
  fixes f :: "'h local_stats \<Rightarrow> 'm::cancel_comm_monoid_add"
  assumes "distinct (map fst (local_stats s))"
    and "f (LocalStats_ctor api (GetArraySize (counter_names s)) (GetArraySize (metric_names s))) = 0"
    and "f l = f (GetLocalStats api t s) + d"
  shows "pending f (with_local t l s) = pending f s + d"
proof -
  have "pending f (with_local t l s) + f (GetLocalStats api t s) = pending f s + d + f (GetLocalStats api t s)"
    unfolding pending_balance [where f = f, OF assms(1,2)] assms(3) by (simp add: ac_simps)
  then show ?thesis by (rule add_right_imp_eq)
qed

lemma pending_loss:
  fixes f :: "'h local_stats \<Rightarrow> 'm::cancel_comm_monoid_add"
  assumes "distinct (map fst (local_stats s))"
    and "f (LocalStats_ctor api (GetArraySize (counter_names s)) (GetArraySize (metric_names s))) = 0"
    and "f (GetLocalStats api t s) = f l + d"
  shows "d + pending f (with_local t l s) = pending f s"
proof -
  have "d + pending f (with_local t l s) + f l = pending f s + f l"
    unfolding pending_balance [where f = f, OF assms(1,2), of t l, symmetric] assms(3) by (simp add: ac_simps)
  then show ?thesis by (rule add_right_imp_eq)
qed

lemma folly_specD:
  assumes "folly_spec api samples ts_samples"
  shows "ts_sum api (Suc 0) (ts_new api n) = 0" "ts_sum api (Suc 0) (ts_addValue api t v x) = ts_sum api (Suc 0) x + v"
    "ts_sum api (Suc 0) (ts_update api t x) = ts_sum api (Suc 0) x"
    "samples (h_new api a b) = {#}" "samples (h_addValue api i h) = add_mset i (samples h)"
    "ts_samples (th_new api n a b) = {#}" "ts_samples (th_addValues api t h y) = ts_samples y + samples h"
    "ts_samples (th_update api t y) = ts_samples y"
    "int (size (ts_samples y)) < 2 ^ 63 \<Longrightarrow> th_count api (Suc 0) y = int (size (ts_samples y))"
  using assms by (simp_all add: folly_spec_def)

lemma held_local_ctor:
  assumes "folly_spec api samples ts_samples"
  shows "held id (counters (LocalStats_ctor api nc nm)) k = 0" "held samples (ls_histograms (LocalStats_ctor api nc nm)) k = {#}"
  by (auto simp: held_def lookup_def LocalStats_ctor_def folly_specD [OF assms] split: stat_key.splits)

lemma stats_invD:
  assumes "stats_inv nc nm s"
  shows "GetArraySize (counter_names s) = nc" "GetArraySize (metric_names s) = nm" "length (slots (timeseries s)) = nc"
    "length (slots (histograms s)) = nm" "distinct (map fst (local_stats s))" "sized nc nm (GetLocalStats api t s)"
  using assms
  by (auto simp: stats_inv_def GetLocalStats_def sized_def LocalStats_ctor_def list_all_iff split: option.splits dest!: map_of_SomeD)

lemma with_local_inv:
  assumes "stats_inv nc nm s" "sized nc nm l"
  shows "stats_inv nc nm (with_local t l s)"
proof -
  have "list_all P (AList.update t l xs)" if "P (t, l)" "list_all P xs" for P xs
    using that by (induction xs) auto
  with assms show ?thesis by (simp add: stats_inv_def with_local_def distinct_update)
qed

lemma with_local_simps [simp]:
  "timeseries (with_local t l s) = timeseries s" "histograms (with_local t l s) = histograms s"
  "flight (with_local t l s) = flight s" "counter_names (with_local t l s) = counter_names s"
  "metric_names (with_local t l s) = metric_names s"
  "flying_count (with_local t l s) = flying_count s" "flying_values samples (with_local t l s) = flying_values samples s"
  by (simp_all add: with_local_def flying_count_def flying_values_def fun_eq_iff)

section \<open>Every step refines the specification\<close>

lemma incr_refines:
  assumes "folly_spec api samples ts_samples" "stats_inv nc nm s"
  shows "stats_inv nc nm (Stats_Incr api t counter value s) \<and>
    abs_stats api samples ts_samples (Stats_Incr api t counter value s) =
      spec_step nc nm (LIncr t counter value) (abs_stats api samples ts_samples s)"
proof -
  note I = stats_invD [OF assms(2)]
  let ?l = "LocalStats_Incr counter value (GetLocalStats api t s)"
  have "sized nc nm ?l" using I(6) [of api t] by (simp add: sized_def LocalStats_Incr_def)
  moreover have "pending (\<lambda>l. held id (counters l) k) (with_local t ?l s) =
      pending (\<lambda>l. held id (counters l) k) s + (if k = counter \<and> known_key nc counter then value else 0)" for k
    by (rule pending_gain [OF I(5), where api = api])
      (use I(6) [of api t] in \<open>simp_all add: held_local_ctor [OF assms(1)] LocalStats_Incr_def held_bump_add [where d = value] sized_def\<close>)
  moreover have "pending (\<lambda>l. held samples (ls_histograms l) k) (with_local t ?l s) = pending (\<lambda>l. held samples (ls_histograms l) k) s" for k
    using pending_gain [OF I(5), where api = api and l = ?l and t = t and f = "\<lambda>l. held samples (ls_histograms l) k" and d = "{#}"]
    by (simp add: held_local_ctor [OF assms(1)] LocalStats_Incr_def)
  ultimately show ?thesis
    by (auto simp: Stats_Incr_def abs_stats_def with_local_inv [OF assms(2)] fun_eq_iff ac_simps)
qed

lemma metric_refines:
  assumes "folly_spec api samples ts_samples" "stats_inv nc nm s"
  shows "stats_inv nc nm (Stats_AddMetric api t metric value s) \<and>
    abs_stats api samples ts_samples (Stats_AddMetric api t metric value s) =
      spec_step nc nm (LAddMetric t metric value) (abs_stats api samples ts_samples s)"
proof -
  note I = stats_invD [OF assms(2)]
  let ?l = "LocalStats_AddMetric api metric value (GetLocalStats api t s)"
  have "sized nc nm ?l" using I(6) [of api t] by (simp add: sized_def LocalStats_AddMetric_def)
  moreover have "pending (\<lambda>l. held samples (ls_histograms l) k) (with_local t ?l s) =
      pending (\<lambda>l. held samples (ls_histograms l) k) s + (if k = metric \<and> known_key nm metric then {#value#} else {#})" for k
    by (rule pending_gain [OF I(5), where api = api])
      (use I(6) [of api t] in \<open>simp_all add: held_local_ctor [OF assms(1)] LocalStats_AddMetric_def
         held_bump_add [where d = "{#value#}"] sized_def folly_specD [OF assms(1)]\<close>)
  moreover have "pending (\<lambda>l. held id (counters l) k) (with_local t ?l s) = pending (\<lambda>l. held id (counters l) k) s" for k
    using pending_gain [OF I(5), where api = api and l = ?l and t = t and f = "\<lambda>l. held id (counters l) k" and d = 0]
    by (simp add: held_local_ctor [OF assms(1)] LocalStats_AddMetric_def)
  ultimately show ?thesis
    by (auto simp: Stats_AddMetric_def abs_stats_def with_local_inv [OF assms(2)] fun_eq_iff ac_simps)
qed

lemma lookup_known: "lookup t key = Some v \<Longrightarrow> known_key (length (slots t)) key"
  by (auto simp: lookup_def known_key_def split: stat_key.splits if_splits)

lemma held_reset:
  assumes "lookup t key = Some v" "g z = 0"
  shows "held g t k = held g (bump key (\<lambda>_. z) w t) k + (if k = key then g v else 0)"
  using assms lookup_known [OF assms(1)] by (simp add: held_bump) (simp add: held_def)

lemma pending_flight [simp]: "pending f (s\<lparr>flight := x\<rparr>) = pending f s"
  by (simp add: pending_def)

lemma take_counter_refines:
  assumes "folly_spec api samples ts_samples" "stats_inv nc nm s" "flight s = Idle" "map_of (local_stats s) t = Some l"
  shows "stats_inv nc nm (take_counter t counter l s) \<and>
    abs_stats api samples ts_samples (take_counter t counter l s) = abs_stats api samples ts_samples s"
proof (cases "lookup (counters l) counter")
  case (Some n)
  note I = stats_invD [OF assms(2)]
  let ?l = "l\<lparr>counters := bump counter (\<lambda>_. 0) 0 (counters l)\<rparr>"
  have l: "GetLocalStats api t s = l" using assms(4) by (simp add: GetLocalStats_def)
  with I(6) [of api t] have sized: "sized nc nm l" "sized nc nm ?l" by (simp_all add: sized_def)
  have known: "known_key nc counter" using lookup_known [OF Some] sized by (simp add: sized_def)
  have "(if k = counter then n else 0) + pending (\<lambda>l. held id (counters l) k) (with_local t ?l s) = pending (\<lambda>l. held id (counters l) k) s" for k
    by (rule pending_loss [OF I(5), where api = api])
      (use held_reset [OF Some, where g = id and z = 0 and k = k and w = 0] in \<open>simp_all add: held_local_ctor [OF assms(1)] l\<close>)
  moreover have "pending (\<lambda>l. held samples (ls_histograms l) k) (with_local t ?l s) = pending (\<lambda>l. held samples (ls_histograms l) k) s" for k
    using pending_loss [OF I(5), where api = api and l = ?l and t = t and f = "\<lambda>l. held samples (ls_histograms l) k" and d = "{#}"]
    by (simp add: held_local_ctor [OF assms(1)] l)
  moreover have "stats_inv nc nm ((with_local t ?l s)\<lparr>flight := if n > 0 then CounterInFlight counter n else Idle\<rparr>)"
    using with_local_inv [OF assms(2) sized(2), of t] known by (simp add: stats_inv_def)
  moreover have "(if k = counter then n else 0) = flying_count ((with_local t ?l s)\<lparr>flight := if n > 0 then CounterInFlight counter n else Idle\<rparr>) k" for k
    by (simp add: flying_count_def word_greater_zero_iff)
  ultimately show ?thesis
    using Some assms(3) by (simp add: take_counter_def abs_stats_def flying_values_def fun_eq_iff add.assoc) (simp add: flying_count_def)
qed (use assms(2) in \<open>simp add: take_counter_def\<close>)

lemma take_metric_refines:
  assumes "folly_spec api samples ts_samples" "stats_inv nc nm s" "flight s = Idle" "map_of (local_stats s) t = Some l"
  shows "stats_inv nc nm (take_metric api t metric l s) \<and>
    abs_stats api samples ts_samples (take_metric api t metric l s) = abs_stats api samples ts_samples s"
proof (cases "lookup (ls_histograms l) metric")
  case (Some h)
  note I = stats_invD [OF assms(2)]
  let ?n = "h_new api kMinMetricValue kMaxMetricValue"
  let ?l = "l\<lparr>ls_histograms := bump metric (\<lambda>_. ?n) ?n (ls_histograms l)\<rparr>"
  have l: "GetLocalStats api t s = l" using assms(4) by (simp add: GetLocalStats_def)
  with I(6) [of api t] have sized: "sized nc nm l" "sized nc nm ?l" by (simp_all add: sized_def)
  have known: "known_key nm metric" using lookup_known [OF Some] sized by (simp add: sized_def)
  have "(if k = metric then samples h else {#}) + pending (\<lambda>l. held samples (ls_histograms l) k) (with_local t ?l s) =
      pending (\<lambda>l. held samples (ls_histograms l) k) s" for k
    by (rule pending_loss [OF I(5), where api = api])
      (use held_reset [OF Some, where g = samples and z = ?n and k = k and w = ?n] in \<open>simp_all add: held_local_ctor [OF assms(1)] l folly_specD [OF assms(1)]\<close>)
  moreover have "pending (\<lambda>l. held id (counters l) k) (with_local t ?l s) = pending (\<lambda>l. held id (counters l) k) s" for k
    using pending_loss [OF I(5), where api = api and l = ?l and t = t and f = "\<lambda>l. held id (counters l) k" and d = 0]
    by (simp add: held_local_ctor [OF assms(1)] l)
  moreover have "stats_inv nc nm ((with_local t ?l s)\<lparr>flight := MetricInFlight metric h\<rparr>)"
    using with_local_inv [OF assms(2) sized(2), of t] known by (simp add: stats_inv_def)
  ultimately show ?thesis
    using Some assms(3)
    by (simp add: take_metric_def Let_def abs_stats_def fun_eq_iff flying_count_def flying_values_def eq_commute [of metric])
qed (use assms(2) in \<open>simp add: take_metric_def\<close>)

lemma pass_on_refines:
  assumes "folly_spec api samples ts_samples" "stats_inv nc nm s"
  shows "stats_inv nc nm (pass_on api now s) \<and> abs_stats api samples ts_samples (pass_on api now s) = abs_stats api samples ts_samples s"
proof (cases "flight s")
  case (CounterInFlight k n)
  have "held (ts_sum api (Suc 0)) (timeseries (Stats_FlushCounter api k n now s)) j =
      held (ts_sum api (Suc 0)) (timeseries s) j + (if j = k \<and> known_key nc k then n else 0)" for j
    using stats_invD(3) [OF assms(2)]
    by (simp add: Stats_FlushCounter_def GetMultiLevelTimeSeriesWrapper_def held_bump_add [where d = n] folly_specD [OF assms(1)])
  moreover have "known_key nc k" using assms(2) CounterInFlight by (simp add: stats_inv_def)
  ultimately show ?thesis using assms(2) CounterInFlight
    by (simp add: pass_on_def abs_stats_def fun_eq_iff flying_count_def flying_values_def)
      (simp add: Stats_FlushCounter_def stats_inv_def pending_def)
next
  case (MetricInFlight k h)
  have "held ts_samples (histograms (Stats_FlushMetric api k h now s)) j =
      held ts_samples (histograms s) j + (if j = k \<and> known_key nm k then samples h else {#})" for j
    using stats_invD(4) [OF assms(2)]
    by (simp add: Stats_FlushMetric_def GetTimeseriesHistogramWrapper_def held_bump_add [where d = "samples h"] folly_specD [OF assms(1)])
  moreover have "known_key nm k" using assms(2) MetricInFlight by (simp add: stats_inv_def)
  ultimately show ?thesis using assms(2) MetricInFlight
    by (simp add: pass_on_def abs_stats_def fun_eq_iff flying_count_def flying_values_def)
      (simp add: Stats_FlushMetric_def stats_inv_def pending_def)
qed (use assms(2) in \<open>simp add: pass_on_def\<close>)

lemma step_refines:
  assumes "folly_spec api samples ts_samples" "stats_inv nc nm s" "stats_step api s lbl s'" "\<forall>t. lbl \<noteq> LThreadExit t"
  shows "stats_inv nc nm s' \<and> abs_stats api samples ts_samples s' = spec_step nc nm lbl (abs_stats api samples ts_samples s)"
  using assms(3,4)
proof cases
  case step_incr
  then show ?thesis using incr_refines [OF assms(1,2)] by simp
next
  case step_metric
  then show ?thesis using metric_refines [OF assms(1,2)] by simp
next
  case (step_take_counter t l counter)
  then show ?thesis using take_counter_refines [OF assms(1,2)] by simp
next
  case (step_take_metric t l metric)
  then show ?thesis using take_metric_refines [OF assms(1,2)] by simp
next
  case step_pass_on
  then show ?thesis using pass_on_refines [OF assms(1,2)] by simp
qed (use assms(2) in \<open>simp_all add: RegisterIncr_def RegisterAddMetric_def stats_inv_def abs_stats_def pending_def
  flying_count_def flying_values_def fun_eq_iff\<close>)

section \<open>A round of the flush thread empties the objects\<close>

definition local_count :: "('ts, 'h, 'th) stats \<Rightarrow> tid \<Rightarrow> stat_key \<Rightarrow> u64" where
  "local_count s t k = (case map_of (local_stats s) t of None \<Rightarrow> 0 | Some l \<Rightarrow> held id (counters l) k)"

definition local_values :: "('h \<Rightarrow> int multiset) \<Rightarrow> ('ts, 'h, 'th) stats \<Rightarrow> tid \<Rightarrow> stat_key \<Rightarrow> int multiset" where
  "local_values samples s t k = (case map_of (local_stats s) t of None \<Rightarrow> {#} | Some l \<Rightarrow> held samples (ls_histograms l) k)"

lemma pass_on_simps [simp]: "local_stats (pass_on api now s) = local_stats s" "flight (pass_on api now s) = Idle"
  by (simp_all add: pass_on_def Stats_FlushCounter_def Stats_FlushMetric_def split: in_flight.split)

lemma all_keys_complete: "lookup t k = Some v \<Longrightarrow> k \<in> set (all_keys t)"
proof (cases k)
  case (Index i)
  assume "lookup t k = Some v"
  with Index show ?thesis
    by (auto simp: lookup_def all_keys_def image_iff split: if_splits intro!: bexI [of _ "unat i"])
next
  case (Name n)
  assume "lookup t k = Some v"
  with Name show ?thesis by (force simp: lookup_def all_keys_def dest: map_of_SomeD)
qed

lemma map_of_with_local: "map_of (local_stats (with_local t l s)) = (map_of (local_stats s))(t \<mapsto> l)"
  by (simp add: with_local_def update_conv')

definition flushed :: "nat \<Rightarrow> nat \<Rightarrow> stats_spec \<Rightarrow> ('ts, 'h, 'th) folly_stats \<Rightarrow> ('h \<Rightarrow> int multiset) \<Rightarrow> ('th \<Rightarrow> int multiset) \<Rightarrow>
    ('ts, 'h, 'th) stats \<Rightarrow> bool" where
  "flushed nc nm sp api samples ts_samples s \<longleftrightarrow> stats_inv nc nm s \<and> flight s = Idle \<and> abs_stats api samples ts_samples s = sp"

lemma flush_counter_effect:
  assumes "folly_spec api samples ts_samples" "flushed nc nm sp api samples ts_samples s"
  shows "flushed nc nm sp api samples ts_samples (LocalStats_FlushCounter api now t key s)"
    and "local_count (LocalStats_FlushCounter api now t key s) t' k = (if t' = t \<and> k = key then 0 else local_count s t' k)"
    and "local_values samples (LocalStats_FlushCounter api now t key s) = local_values samples s"
proof -
  have inv: "stats_inv nc nm s" "flight s = Idle" "abs_stats api samples ts_samples s = sp"
    using assms(2) by (simp_all add: flushed_def)
  show "flushed nc nm sp api samples ts_samples (LocalStats_FlushCounter api now t key s)"
  proof (cases "map_of (local_stats s) t")
    case (Some l)
    note taken = take_counter_refines [OF assms(1) inv(1,2) Some, of key]
    then show ?thesis
      using pass_on_refines [OF assms(1) conjunct1 [OF taken], of now] Some inv(3) by (simp add: LocalStats_FlushCounter_def flushed_def)
  qed (use assms(2) in \<open>simp add: LocalStats_FlushCounter_def\<close>)
  have "held id (bump key (\<lambda>_. 0) 0 c) k = (if k = key then 0 else held id c k)" if "lookup c key = Some v" for c :: "u64 table" and v k
    using lookup_known [OF that] by (simp add: held_bump)
  then show "local_count (LocalStats_FlushCounter api now t key s) t' k = (if t' = t \<and> k = key then 0 else local_count s t' k)"
    by (simp add: local_count_def LocalStats_FlushCounter_def take_counter_def map_of_with_local split: option.split)
      (auto simp: held_def)
  show "local_values samples (LocalStats_FlushCounter api now t key s) = local_values samples s"
    by (auto simp: local_values_def LocalStats_FlushCounter_def take_counter_def map_of_with_local fun_eq_iff split: option.split)
qed

lemma flush_metric_effect:
  assumes "folly_spec api samples ts_samples" "flushed nc nm sp api samples ts_samples s"
  shows "flushed nc nm sp api samples ts_samples (LocalStats_FlushMetric api now t key s)"
    and "local_values samples (LocalStats_FlushMetric api now t key s) t' k = (if t' = t \<and> k = key then {#} else local_values samples s t' k)"
    and "local_count (LocalStats_FlushMetric api now t key s) = local_count s"
proof -
  have inv: "stats_inv nc nm s" "flight s = Idle" "abs_stats api samples ts_samples s = sp"
    using assms(2) by (simp_all add: flushed_def)
  show "flushed nc nm sp api samples ts_samples (LocalStats_FlushMetric api now t key s)"
  proof (cases "map_of (local_stats s) t")
    case (Some l)
    note taken = take_metric_refines [OF assms(1) inv(1,2) Some, of key]
    then show ?thesis
      using pass_on_refines [OF assms(1) conjunct1 [OF taken], of now] Some inv(3) by (simp add: LocalStats_FlushMetric_def flushed_def)
  qed (use assms(2) in \<open>simp add: LocalStats_FlushMetric_def\<close>)
  let ?n = "h_new api kMinMetricValue kMaxMetricValue"
  have "held samples (bump key (\<lambda>_. ?n) ?n c) k = (if k = key then {#} else held samples c k)" if "lookup c key = Some v" for c v k
    using lookup_known [OF that] by (simp add: held_bump folly_specD [OF assms(1)])
  then show "local_values samples (LocalStats_FlushMetric api now t key s) t' k = (if t' = t \<and> k = key then {#} else local_values samples s t' k)"
    by (simp add: local_values_def LocalStats_FlushMetric_def take_metric_def Let_def map_of_with_local split: option.split)
      (auto simp: held_def)
  show "local_count (LocalStats_FlushMetric api now t key s) = local_count s"
    by (auto simp: local_count_def LocalStats_FlushMetric_def take_metric_def Let_def map_of_with_local fun_eq_iff split: option.split)
qed

lemma flush_counters_effect:
  assumes "folly_spec api samples ts_samples" "flushed nc nm sp api samples ts_samples s"
  shows "flushed nc nm sp api samples ts_samples (fold (LocalStats_FlushCounter api now t) ks s) \<and>
    (\<forall>t' k. local_count (fold (LocalStats_FlushCounter api now t) ks s) t' k = (if t' = t \<and> k \<in> set ks then 0 else local_count s t' k)) \<and>
    local_values samples (fold (LocalStats_FlushCounter api now t) ks s) = local_values samples s"
  using assms(2)
proof (induction ks arbitrary: s)
  case (Cons key ks)
  note step = flush_counter_effect [OF assms(1) Cons.prems, where now = now and t = t and key = key]
  show ?case using Cons.IH [OF step(1)] by (simp add: step(2,3))
qed simp

lemma flush_metrics_effect:
  assumes "folly_spec api samples ts_samples" "flushed nc nm sp api samples ts_samples s"
  shows "flushed nc nm sp api samples ts_samples (fold (LocalStats_FlushMetric api now t) ks s) \<and>
    (\<forall>t' k. local_values samples (fold (LocalStats_FlushMetric api now t) ks s) t' k =
      (if t' = t \<and> k \<in> set ks then {#} else local_values samples s t' k)) \<and>
    local_count (fold (LocalStats_FlushMetric api now t) ks s) = local_count s"
  using assms(2)
proof (induction ks arbitrary: s)
  case (Cons key ks)
  note step = flush_metric_effect [OF assms(1) Cons.prems, where now = now and t = t and key = key]
  show ?case using Cons.IH [OF step(1)] by (simp add: step(2,3))
qed simp

lemma flush_all_effect:
  assumes "folly_spec api samples ts_samples" "flushed nc nm sp api samples ts_samples s"
  shows "flushed nc nm sp api samples ts_samples (LocalStats_FlushAll api now t s) \<and>
    (\<forall>t' k. local_count (LocalStats_FlushAll api now t s) t' k = (if t' = t then 0 else local_count s t' k) \<and>
      local_values samples (LocalStats_FlushAll api now t s) t' k = (if t' = t then {#} else local_values samples s t' k))"
proof (cases "map_of (local_stats s) t")
  case (Some l)
  define s1 where "s1 = fold (LocalStats_FlushCounter api now t) (all_keys (counters l)) s"
  note c = flush_counters_effect [OF assms, of now t "all_keys (counters l)", folded s1_def]
  note m = flush_metrics_effect [OF assms(1) conjunct1 [OF c], of now t "all_keys (ls_histograms l)"]
  have "local_count s t k = 0" if "k \<notin> set (all_keys (counters l))" for k
    using all_keys_complete [of "counters l" k] that Some by (cases "lookup (counters l) k") (auto simp: local_count_def held_def)
  moreover have "local_values samples s t k = {#}" if "k \<notin> set (all_keys (ls_histograms l))" for k
    using all_keys_complete [of "ls_histograms l" k] that Some by (cases "lookup (ls_histograms l) k") (auto simp: local_values_def held_def)
  ultimately show ?thesis using c m Some by (simp add: LocalStats_FlushAll_def s1_def [symmetric])
qed (use assms(2) in \<open>simp add: LocalStats_FlushAll_def local_count_def local_values_def\<close>)

lemma flush_threads_effect:
  assumes "folly_spec api samples ts_samples" "flushed nc nm sp api samples ts_samples s"
  shows "flushed nc nm sp api samples ts_samples (fold (\<lambda>t. LocalStats_FlushAll api (now t) t) ts s) \<and>
    (\<forall>t' k. local_count (fold (\<lambda>t. LocalStats_FlushAll api (now t) t) ts s) t' k = (if t' \<in> set ts then 0 else local_count s t' k) \<and>
      local_values samples (fold (\<lambda>t. LocalStats_FlushAll api (now t) t) ts s) t' k = (if t' \<in> set ts then {#} else local_values samples s t' k))"
  using assms(2)
proof (induction ts arbitrary: s)
  case (Cons t ts)
  note step = flush_all_effect [OF assms(1) Cons.prems, of "now t" t]
  show ?case using Cons.IH [OF conjunct1 [OF step]] step by simp
qed simp

lemma pending_zero:
  assumes "distinct (map fst (local_stats s))" "\<And>t l. map_of (local_stats s) t = Some l \<Longrightarrow> f l = 0"
  shows "pending f s = (0 :: 'm::comm_monoid_add)"
proof -
  have "f (snd x) = 0" if "x \<in> set (local_stats s)" for x
    using that assms(2) [of "fst x" "snd x"] map_of_eq_Some_iff [OF assms(1)] by simp
  moreover have "\<forall>x \<in> set xs. f (snd x) = 0 \<Longrightarrow> (\<Sum>x\<leftarrow>xs. f (snd x)) = 0" for xs :: "(tid \<times> 'a local_stats) list"
    by (induction xs) auto
  ultimately show ?thesis by (simp add: pending_def)
qed

lemma all_flushed:
  assumes "folly_spec api samples ts_samples" "flushed nc nm sp api samples ts_samples s"
    "\<And>t k. local_count s t k = 0" "\<And>t k. local_values samples s t k = {#}"
  shows "(case GetCounter k s of None \<Rightarrow> 0 | Some ts \<Rightarrow> GetTotal api now ts) = counts sp k \<and>
    (case GetMetric k s of None \<Rightarrow> {#} | Some th \<Rightarrow> ts_samples th) = recorded sp k"
proof -
  have s: "distinct (map fst (local_stats s))" "flight s = Idle" "abs_stats api samples ts_samples s = sp"
    using assms(2) by (auto simp: flushed_def stats_inv_def)
  have "pending (\<lambda>l. held id (counters l) k) s = 0" for k
    using assms(3) [of _ k] by (intro pending_zero [OF s(1)]) (metis local_count_def option.simps(5))
  moreover have "pending (\<lambda>l. held samples (ls_histograms l) k) s = {#}" for k
    using assms(4) [of _ k] by (intro pending_zero [OF s(1)]) (metis local_values_def option.simps(5))
  ultimately show ?thesis
    using s(2) by (auto simp: s(3) [symmetric] abs_stats_def flying_count_def flying_values_def held_def GetCounter_def GetMetric_def
      GetTotal_def folly_specD [OF assms(1)] split: option.split)
qed

section \<open>Properties\<close>

lemma ctor_refines:
  assumes "folly_spec api samples ts_samples"
  shows "stats_inv (GetArraySize cn) (GetArraySize mn) (Stats_ctor api cn mn secs) \<and>
    abs_stats api samples ts_samples (Stats_ctor api cn mn secs) = \<lparr>counts = (\<lambda>_. 0), recorded = (\<lambda>_. {#})\<rparr>"
  by (auto simp: stats_inv_def abs_stats_def Stats_ctor_def held_def lookup_def flying_count_def flying_values_def pending_def
      GetMultiLevelTimeSeriesWrapper_def GetTimeseriesHistogramWrapper_def folly_specD [OF assms] fun_eq_iff split: stat_key.split)

lemma run_refines:
  assumes "folly_spec api samples ts_samples" "stats_run api (Stats_ctor api cn mn secs) tr s" "\<forall>t. LThreadExit t \<notin> set tr"
  shows "stats_inv (GetArraySize cn) (GetArraySize mn) s \<and>
    abs_stats api samples ts_samples s = spec_run (GetArraySize cn) (GetArraySize mn) tr"
  using assms(2,3)
proof (induction "Stats_ctor api cn mn secs" tr s rule: stats_run.induct)
  case (run_snoc tr s' lbl s'')
  then show ?case using step_refines [OF assms(1) _ run_snoc(3)] by (auto simp: spec_run_def)
qed (use ctor_refines [OF assms(1)] in \<open>simp add: spec_run_def\<close>)

text \<open>What a round of the flush thread records itself.\<close>

definition callback_labels :: "tid \<Rightarrow> (nat \<Rightarrow> u64) \<Rightarrow> (nat \<Rightarrow> int) \<Rightarrow> ('ts, 'h, 'th) stats \<Rightarrow> stats_label list" where
  "callback_labels ft count_of value_of s =
    map (\<lambda>(name, cb). LIncr ft (Name name) (count_of cb)) (counter_callbacks s) @
    map (\<lambda>(name, cb). LAddMetric ft (Name name) (value_of cb)) (metrics_callbacks s)"

lemma fold_run:
  assumes "stats_run api s0 tr s" "\<And>x s. stats_step api s (lbl x) (f x s)"
  shows "stats_run api s0 (tr @ map lbl xs) (fold f xs s)"
  using assms(1)
proof (induction xs arbitrary: tr s)
  case (Cons x xs)
  from Cons.IH [OF run_snoc [OF Cons.prems assms(2)], of x] show ?case by simp
qed simp

lemma fold_flight: "(\<And>x s. flight (f x s) = flight s) \<Longrightarrow> flight (fold f xs s) = flight s"
  by (induction xs arbitrary: s) simp_all

lemma callbacks_run:
  fixes s :: "('ts, 'h, 'th) stats" and ft :: tid and count_of :: "nat \<Rightarrow> u64" and value_of :: "nat \<Rightarrow> int"
  assumes "stats_run api s0 tr s"
  defines "s1 \<equiv> fold (\<lambda>(name, cb). Stats_Incr api ft (Name name) (count_of cb)) (counter_callbacks s) s"
  defines "s2 \<equiv> fold (\<lambda>(name, cb). Stats_AddMetric api ft (Name name) (value_of cb)) (metrics_callbacks s1) s1"
  shows "stats_run api s0 (tr @ callback_labels ft count_of value_of s) s2" "flight s2 = flight s"
proof -
  have run: "stats_run api s0 (tr @ map (\<lambda>(name, cb). LIncr ft (Name name) (count_of cb)) (counter_callbacks s)) s1"
    unfolding s1_def by (rule fold_run [OF assms(1)]) (auto intro: step_incr split: prod.split)
  have "metrics_callbacks (fold (\<lambda>(name, cb). Stats_Incr api ft (Name name) (count_of cb)) xs s) = metrics_callbacks s"
    for xs and s :: "('ts, 'h, 'th) stats"
    by (induction xs arbitrary: s) (auto simp: Stats_Incr_def with_local_def)
  then have "metrics_callbacks s1 = metrics_callbacks s" by (simp add: s1_def)
  with fold_run [OF run, of "\<lambda>(name, cb). LAddMetric ft (Name name) (value_of cb)"
      "\<lambda>(name, cb). Stats_AddMetric api ft (Name name) (value_of cb)" "metrics_callbacks s1"]
  show "stats_run api s0 (tr @ callback_labels ft count_of value_of s) s2"
    by (auto simp: s2_def callback_labels_def intro: step_metric split: prod.split)
  show "flight s2 = flight s"
    unfolding s2_def s1_def by (auto intro!: trans [OF fold_flight] simp: Stats_Incr_def Stats_AddMetric_def split: prod.split)
qed


definition ex_folly :: "(u64, int list, int list) folly_stats" where
  "ex_folly = \<lparr>ts_new = (\<lambda>_. 0), ts_addValue = (\<lambda>_ v x. x + v), ts_update = (\<lambda>_ x. x), ts_sum = (\<lambda>_ x. x),
     h_new = (\<lambda>_ _. []), h_addValue = (\<lambda>v h. v # h), th_new = (\<lambda>_ _ _. []), th_addValues = (\<lambda>_ h x. x @ h), th_update = (\<lambda>_ x. x),
     th_getPercentileEstimate = (\<lambda>_ _ x. 0), th_sum = (\<lambda>_ x. sum_list x), th_avg = (\<lambda>_ x. sum_list x div int (length x)),
     th_count = (\<lambda>_ x. int (length x))\<rparr>"

lemma ex_folly_spec: "folly_spec ex_folly mset mset"
  by (simp add: folly_spec_def ex_folly_def)

definition ex_before :: "(u64, int list, int list) stats" where
  "ex_before = Stats_Incr ex_folly 2 (Name ''c'') 7 (Stats_Incr ex_folly 1 (Name ''c'') 5 (Stats_ctor ex_folly None None 60))"

definition ex_after :: "(u64, int list, int list) stats" where
  "ex_after = pass_on ex_folly 10 (Stats_Incr ex_folly 1 (Name ''c'') 1
     (take_counter 1 (Name ''c'') (GetLocalStats ex_folly 1 ex_before) ex_before))"

lemma ex_after_run:
  "stats_run ex_folly (Stats_ctor ex_folly None None 60)
     [LIncr 1 (Name ''c'') 5, LIncr 2 (Name ''c'') 7, LTakeCounter 1 (Name ''c''), LIncr 1 (Name ''c'') 1, LPassOn 10] ex_after"
proof -
  let ?s0 = "Stats_ctor ex_folly None None 60"
  note run = stats_run.intros(1) [of ex_folly ?s0, THEN run_snoc [OF _ step_incr], of 1 "Name ''c''" 5,
    THEN run_snoc [OF _ step_incr], of 2 "Name ''c''" 7, folded ex_before_def]
  have "stats_step ex_folly ex_before (LTakeCounter 1 (Name ''c'')) (take_counter 1 (Name ''c'') (GetLocalStats ex_folly 1 ex_before) ex_before)"
    by (rule step_take_counter) (simp_all add: ex_before_def Stats_ctor_def Stats_Incr_def with_local_def GetLocalStats_def)
  from run [THEN run_snoc [OF _ this], THEN run_snoc [OF _ step_incr], of 1 "Name ''c''" 1, THEN run_snoc [OF _ step_pass_on], of 10]
  show ?thesis by (simp add: ex_after_def)
qed


text \<open>A thread that ends takes what it has recorded since the last flush with it.\<close>

lemma exit_loses_counts:
  "\<exists>s. stats_run ex_folly (Stats_ctor ex_folly None None 60) [LIncr 1 (Name ''c'') 5, LThreadExit 1] s \<and>
     GetCounter (Name ''c'') (flush_round ex_folly 0 (\<lambda>_. 0) (\<lambda>_. 0) (\<lambda>_. 20) s) = None"
proof -
  let ?s1 = "Stats_Incr ex_folly 1 (Name ''c'') 5 (Stats_ctor ex_folly None None 60)"
  have "stats_run ex_folly (Stats_ctor ex_folly None None 60) ([] @ [LIncr 1 (Name ''c'') 5] @ [LThreadExit 1])
      (?s1\<lparr>local_stats := AList.delete 1 (local_stats ?s1)\<rparr>)"
    unfolding append_assoc [symmetric] by (rule run_snoc [OF run_snoc [OF run_nil step_incr] step_exit])
  moreover have "GetCounter (Name ''c'') (flush_round ex_folly 0 (\<lambda>_. 0) (\<lambda>_. 0) (\<lambda>_. 20)
      (?s1\<lparr>local_stats := AList.delete 1 (local_stats ?s1)\<rparr>)) = None" by code_simp
  ultimately show ?thesis by auto
qed

text \<open>The name of a total: the suffix goes before the tags.\<close>

lemma split_at_nonempty: "split_at c xs \<noteq> []"
  by (induction xs) (auto split: list.split)

lemma split_at_append: "c \<notin> set xs \<Longrightarrow> split_at c (xs @ c # ys) = xs # split_at c ys"
  by (induction xs) auto

lemma split_at_single: "c \<notin> set xs \<Longrightarrow> split_at c xs = [xs]"
  by (induction xs) auto

lemma join_Cons: "ts \<noteq> [] \<Longrightarrow> join sep (t # ts) = t @ sep @ join sep ts"
  by (cases ts) auto

lemma join_split_at: "join [c] (split_at c xs) = xs"
proof (induction xs)
  case (Cons x xs)
  obtain t ts where t: "split_at c xs = t # ts" using split_at_nonempty by (meson neq_Nil_conv)
  with Cons show ?case by (cases ts) (auto simp: join_Cons)
qed simp

lemma GetTotalName_tags:
  assumes "CHR '' '' \<notin> set name"
  shows "GetTotalName name = name @ ''__TOTAL''" "GetTotalName (name @ '' '' @ tags) = name @ ''__TOTAL '' @ tags"
  using assms by (simp_all add: GetTotalName_def split_at_single split_at_append join_Cons split_at_nonempty join_split_at)

end
