(* ===== verification/Kafka_Consumer.thy ===== *)
theory Kafka_Consumer
  imports Kafka_Watcher "HOL-Library.AList" "HOL-Library.List_Lexorder" "HOL-Library.Char_ord"
begin

text \<open>
  \<open>common/kafka/kafka_consumer.{h,cpp}\<close>, \<open>kafka_consumer_holder.cpp\<close>, \<open>kafka_utils.cpp\<close>, \<open>kafka_config.cpp\<close> and
  \<open>kafka_consumer_pool.cpp\<close>: a consumer that is created again, with its positions restored, when a watched file changes.

  librdkafka is a parameter: its operations act on a state of type \<open>'w\<close>, the client together with the brokers. The flag that the
  file poller sets is a pair of its value and of what the poller does before each later reading of it. \<open>None\<close> stands for a
  call that does not return, because its loop goes on forever or because it dereferences a null pointer.
\<close>

section \<open>Retrying\<close>

fun retry :: "nat \<Rightarrow> ('s \<Rightarrow> rd_error \<times> 's) \<Rightarrow> rd_error \<Rightarrow> 's \<Rightarrow> rd_error \<times> 's" where
  "retry 0 func error_code s = (error_code, s)"
| "retry (Suc n) func error_code s =
    (if error_code = ERR_NO_ERROR then (error_code, s) else let (error_code, s) = func s in retry n func error_code s)"

text \<open>The flag is compared with a \<open>size_t\<close>.\<close>

definition ExecuteKafkaOperationWithRetry :: "int \<Rightarrow> ('s \<Rightarrow> rd_error \<times> 's) \<Rightarrow> 's \<Rightarrow> rd_error \<times> 's" where
  "ExecuteKafkaOperationWithRetry num_retries func s =
    (let (error_code, s) = func s in retry (unat (word_of_int num_retries :: u64)) func error_code s)"

section \<open>Configuration\<close>

record kafka_flags =
  kafka_consumer_num_retries :: int
  kafka_consumer_reset_on_file_change :: string
  enable_kafka_auto_offset_store :: string
  kafka_client_global_config_file :: string
  consumer_stats_flags :: kafka_stats_flags

text \<open>\<open>std::getline\<close> until the end of the file: the last line need not be terminated.\<close>

definition getlines :: "string \<Rightarrow> string list" where
  "getlines content = (let ls = split_at CHR 0x0A content in if last ls = [] then butlast ls else ls)"

fun read_conf_lines :: "string list \<Rightarrow> (string \<times> string) list \<Rightarrow> (string \<times> string) list option" where
  "read_conf_lines [] configMap = Some configMap"
| "read_conf_lines (line # ls) configMap =
    (if line = [] \<or> hd line = CHR ''#'' then read_conf_lines ls configMap
     else let d = length (takeWhile (\<lambda>c. c \<noteq> CHR ''='') line)
          in if d = 0 \<or> d = length line then None
             else read_conf_lines ls (AList.update (take d line) (drop (Suc d) line) configMap))"

definition read_conf_file :: "(string \<Rightarrow> string option) \<Rightarrow> string \<Rightarrow> (string \<times> string) list option" where
  "read_conf_file files conf_file =
    (case files conf_file of None \<Rightarrow> None | Some content \<Rightarrow> read_conf_lines (getlines content) [])"

section \<open>The library\<close>

type_synonym position = "topic_partition \<times> int"

record 'w rdkafka =
  conf_set :: "string \<Rightarrow> string \<Rightarrow> bool"
  rk_create :: "(string \<times> string) list \<Rightarrow> 'w \<Rightarrow> bool \<times> 'w"
  rk_assign :: "position list \<Rightarrow> 'w \<Rightarrow> rd_error \<times> 'w"
  rk_seek :: "position \<Rightarrow> 'w \<Rightarrow> rd_error \<times> 'w"
  rk_offsetsForTimes :: "position list \<Rightarrow> 'w \<Rightarrow> rd_error \<times> position list \<times> 'w"
  rk_consume :: "int \<Rightarrow> 'w \<Rightarrow> kafka_message option \<times> 'w"
  rk_close :: "'w \<Rightarrow> 'w"
  rk_commitSync :: "'w \<Rightarrow> 'w"

definition OFFSET_END :: int where
  "OFFSET_END = -1"

record consumed_offset =
  co_offset :: int
  co_timestamp :: int

text \<open>
  The consumer with its holder: \<open>kc_instance\<close> tells whether the pointer of the holder is set, \<open>kc_renewable\<close> which of the two
  classes of holders it is. Unordered sets and maps are listed in the order of their iteration.
\<close>

record 'w kafka_consumer =
  kc_world :: 'w
  kc_instance :: bool
  kc_renewable :: bool
  kc_partition_ids :: "u32 list"
  kc_topic_names :: "string list"
  kc_broker_list :: string
  kc_group_id :: string
  kc_type :: string
  kc_topic_names_string :: string
  kc_resettable :: bool
  kc_is_healthy :: bool
  last_known_consumed_offsets :: "(topic_partition \<times> consumed_offset) list"
  kc_stats :: "stat_event list"

definition kc_incr :: "string \<Rightarrow> u64 \<Rightarrow> 'w kafka_consumer \<Rightarrow> 'w kafka_consumer" where
  "kc_incr name n c = c\<lparr>kc_stats := kc_stats c @ [Incr name n]\<rparr>"

definition type_tag :: "'w kafka_consumer \<Rightarrow> string" where
  "type_tag c = ''kafka_consumer_type='' @ kc_type c"

text \<open>Setting the configuration: the pairs that are accepted, or a required one is not.\<close>

fun set_conf :: "'w rdkafka \<Rightarrow> (string \<times> string \<times> bool) list \<Rightarrow> (string \<times> string) list option" where
  "set_conf api [] = Some []"
| "set_conf api ((key, val, required) # config) =
    (if conf_set api key val then map_option (Cons (key, val)) (set_conf api config)
     else if required then None else set_conf api config)"

definition CreateRdKafkaConsumer_config :: "kafka_flags \<Rightarrow> 'w rdkafka \<Rightarrow> (string \<times> string \<times> bool) list \<Rightarrow> 'w kafka_consumer \<Rightarrow> 'w kafka_consumer" where
  "CreateRdKafkaConsumer_config fl api config c =
    (case set_conf api (sort_key fst config) of
       None \<Rightarrow> (kc_incr (getFullStatsName (consumer_stats_flags fl) ''kafka_consumer_error_init'' [type_tag c]) 1 c)\<lparr>kc_instance := False\<rparr>
     | Some conf \<Rightarrow> let (created, w) = rk_create api conf (kc_world c) in c\<lparr>kc_instance := created, kc_world := w\<rparr>)"

definition CreateRdKafkaConsumer :: "kafka_flags \<Rightarrow> (string \<Rightarrow> string option) \<Rightarrow> 'w rdkafka \<Rightarrow> 'w kafka_consumer \<Rightarrow> 'w kafka_consumer" where
  "CreateRdKafkaConsumer fl files api c =
    (let config = [(''enable.partition.eof'', ''true'', False), (''enable.auto.offset.store'', enable_kafka_auto_offset_store fl, False)]
     in case (if kafka_client_global_config_file fl = [] then Some []
              else read_conf_file files (kafka_client_global_config_file fl)) of
          None \<Rightarrow> (kc_incr (getFullStatsName (consumer_stats_flags fl) ''kafka_consumer_error_init'' [type_tag c]) 1 c)\<lparr>kc_instance := False\<rparr>
        | Some configMap \<Rightarrow>
            let config = fold (\<lambda>(key, val). AList.update key (val, True)) configMap config;
                config = AList.update ''metadata.broker.list'' (kc_broker_list c, True) config;
                config = AList.update ''api.version.request'' (''true'', True) config;
                config = AList.update ''group.id'' (kc_group_id c, True) config
            in CreateRdKafkaConsumer_config fl api config c)"

section \<open>The holder\<close>

definition all_partitions :: "u32 list \<Rightarrow> string list \<Rightarrow> int \<Rightarrow> position list" where
  "all_partitions partition_ids topic_names offset =
    concat (map (\<lambda>partition_id. map (\<lambda>topic_name. ((topic_name, sint partition_id), offset)) topic_names) partition_ids)"

text \<open>\<open>None\<close>: the null pointer is dereferenced.\<close>

definition on_instance :: "('w \<Rightarrow> 'r \<times> 'w) \<Rightarrow> 'w kafka_consumer \<Rightarrow> ('r \<times> 'w kafka_consumer) option" where
  "on_instance f c = (if kc_instance c then let (r, w) = f (kc_world c) in Some (r, c\<lparr>kc_world := w\<rparr>) else None)"

definition KafkaSeekWithRetry :: "kafka_flags \<Rightarrow> 'w rdkafka \<Rightarrow> position \<Rightarrow> 'w kafka_consumer \<Rightarrow> (bool \<times> 'w kafka_consumer) option" where
  "KafkaSeekWithRetry fl api p c =
    map_option (\<lambda>(e, c). (e = ERR_NO_ERROR, c))
      (on_instance (ExecuteKafkaOperationWithRetry (kafka_consumer_num_retries fl) (rk_seek api p)) c)"

definition offsets_for_times :: "kafka_flags \<Rightarrow> 'w rdkafka \<Rightarrow> position list \<Rightarrow> 'w kafka_consumer \<Rightarrow>
    ((rd_error \<times> position list) \<times> 'w kafka_consumer) option" where
  "offsets_for_times fl api ps =
    on_instance (\<lambda>w. let (e, ps, w) = ExecuteKafkaOperationWithRetry (kafka_consumer_num_retries fl)
      (\<lambda>(ps, w). rk_offsetsForTimes api ps w) (ps, w) in ((e, ps), w))"

definition assign_all :: "kafka_flags \<Rightarrow> 'w rdkafka \<Rightarrow> 'w kafka_consumer \<Rightarrow> (rd_error \<times> 'w kafka_consumer) option" where
  "assign_all fl api c =
    on_instance (ExecuteKafkaOperationWithRetry (kafka_consumer_num_retries fl)
      (rk_assign api (all_partitions (kc_partition_ids c) (kc_topic_names c) OFFSET_END))) c"

definition assignPartitions :: "kafka_flags \<Rightarrow> 'w rdkafka \<Rightarrow> 'w kafka_consumer \<Rightarrow> (bool \<times> 'w kafka_consumer) option" where
  "assignPartitions fl api c = map_option (\<lambda>(e, c). (e = ERR_NO_ERROR, c)) (assign_all fl api c)"

definition seek_consumed :: "kafka_flags \<Rightarrow> 'w rdkafka \<Rightarrow> topic_partition \<Rightarrow> consumed_offset \<Rightarrow> 'w kafka_consumer \<Rightarrow> (bool \<times> 'w kafka_consumer) option" where
  "seek_consumed fl api tp co c =
    (if co_offset co \<noteq> -1 then KafkaSeekWithRetry fl api (tp, co_offset co) c
     else if co_timestamp co \<noteq> -1 then
       (case offsets_for_times fl api [(tp, co_timestamp co)] c of
          None \<Rightarrow> None
        | Some ((e, ps), c) \<Rightarrow> if e \<noteq> ERR_NO_ERROR then Some (False, c) else KafkaSeekWithRetry fl api (hd ps) c)
     else Some (False, c))"

fun seekToRelevantOffsets ::
  "kafka_flags \<Rightarrow> 'w rdkafka \<Rightarrow> (topic_partition \<times> consumed_offset) list \<Rightarrow> 'w kafka_consumer \<Rightarrow> (bool \<times> 'w kafka_consumer) option" where
  "seekToRelevantOffsets fl api [] c = Some (True, c)"
| "seekToRelevantOffsets fl api ((tp, co) # consumedOffsets) c =
    (case seek_consumed fl api tp co c of
       None \<Rightarrow> None
     | Some (ok, c) \<Rightarrow> if ok then seekToRelevantOffsets fl api consumedOffsets c else Some (False, c))"

definition syncPreviousInstance :: "'w rdkafka \<Rightarrow> 'w kafka_consumer \<Rightarrow> 'w kafka_consumer" where
  "syncPreviousInstance api c = (if kc_instance c then c\<lparr>kc_world := rk_commitSync api (kc_world c)\<rparr> else c)"

definition closePreviousInstance :: "'w rdkafka \<Rightarrow> 'w kafka_consumer \<Rightarrow> 'w kafka_consumer" where
  "closePreviousInstance api c = (if kc_instance c then c\<lparr>kc_world := rk_close api (kc_world c)\<rparr> else c)"

text \<open>\<open>rnd n\<close> is the random number of the \<open>n\<close>th round; sleeping is not modelled.\<close>

partial_function (option) reset_loop ::
  "kafka_flags \<Rightarrow> (string \<Rightarrow> string option) \<Rightarrow> 'w rdkafka \<Rightarrow> (nat \<Rightarrow> int) \<Rightarrow> (topic_partition \<times> consumed_offset) list option \<Rightarrow>
   nat \<Rightarrow> int \<Rightarrow> int \<Rightarrow> 'w kafka_consumer \<Rightarrow> 'w kafka_consumer option" where
  "reset_loop fl files api rnd consumedOffsets n sleep_ms backoff c =
    (let c = CreateRdKafkaConsumer fl files api (closePreviousInstance api c)
     in case consumedOffsets of
          None \<Rightarrow> Some c
        | Some offsets \<Rightarrow>
            (case (case assignPartitions fl api c of
                     None \<Rightarrow> None
                   | Some (ok, c) \<Rightarrow> if ok then seekToRelevantOffsets fl api offsets c else Some (False, c)) of
               None \<Rightarrow> None
             | Some (done, c) \<Rightarrow>
                 if done then Some c
                 else reset_loop fl files api rnd consumedOffsets (Suc n) (backoff * 1000 + rnd n mod 1000) (min (backoff * 2) 256)
                        (kc_incr ''kafka_consumer_reset_sleep_ms'' (word_of_int sleep_ms) (kc_incr ''kafka_consumer_resets_in_loop'' 1 c))))"

declare reset_loop.simps [code]

definition resetInstance ::
  "kafka_flags \<Rightarrow> (string \<Rightarrow> string option) \<Rightarrow> 'w rdkafka \<Rightarrow> (nat \<Rightarrow> int) \<Rightarrow> (topic_partition \<times> consumed_offset) list option \<Rightarrow>
   'w kafka_consumer \<Rightarrow> 'w kafka_consumer option" where
  "resetInstance fl files api rnd consumedOffsets c =
    (if \<not> kc_renewable c then Some c
     else reset_loop fl files api rnd consumedOffsets 0 1000 1 (syncPreviousInstance api (kc_incr ''kafka_consumer_resets'' 1 c)))"

definition resetSeekedConsumer ::
  "kafka_flags \<Rightarrow> (string \<Rightarrow> string option) \<Rightarrow> 'w rdkafka \<Rightarrow> (nat \<Rightarrow> int) \<Rightarrow> 'w kafka_consumer \<Rightarrow> 'w kafka_consumer option" where
  "resetSeekedConsumer fl files api rnd c = resetInstance fl files api rnd (Some (last_known_consumed_offsets c)) c"

definition resetUnSeekedConsumer ::
  "kafka_flags \<Rightarrow> (string \<Rightarrow> string option) \<Rightarrow> 'w rdkafka \<Rightarrow> (nat \<Rightarrow> int) \<Rightarrow> 'w kafka_consumer \<Rightarrow> 'w kafka_consumer option" where
  "resetUnSeekedConsumer fl files api rnd c = resetInstance fl files api rnd None c"

section \<open>The reset flag\<close>

type_synonym reset_flag = "bool \<times> bool list"

definition observe :: "reset_flag \<Rightarrow> reset_flag" where
  "observe fs = (case fs of (b, []) \<Rightarrow> (b, []) | (b, x # xs) \<Rightarrow> (b \<or> x, xs))"

definition shouldResetAndExchange :: "bool \<Rightarrow> reset_flag \<Rightarrow> bool \<times> reset_flag" where
  "shouldResetAndExchange isResettable fs = (if isResettable then let (b, xs) = observe fs in (b, (False, xs)) else (False, fs))"

definition shouldResetLoad :: "bool \<Rightarrow> reset_flag \<Rightarrow> bool \<times> reset_flag" where
  "shouldResetLoad isResettable fs = (if isResettable then let (b, xs) = observe fs in (b, (b, xs)) else (False, fs))"

definition flag_measure :: "reset_flag \<Rightarrow> nat" where
  "flag_measure fs = 2 * length (snd fs) + (if fst fs then 1 else 0)"

lemma exchange_measure:
  "shouldResetAndExchange r fs = (True, fs') \<Longrightarrow> flag_measure fs' < flag_measure fs"
  "shouldResetAndExchange r fs = (False, fs') \<Longrightarrow> flag_measure fs' \<le> flag_measure fs \<and> (r \<longrightarrow> \<not> fst fs')"
  by (auto simp: shouldResetAndExchange_def observe_def flag_measure_def Let_def split: if_splits prod.splits list.splits)

lemma load_measure:
  "flag_measure (snd (shouldResetLoad r fs)) \<le> flag_measure fs"
  "shouldResetLoad r fs = (True, fs') \<Longrightarrow> \<not> fst fs \<Longrightarrow> flag_measure fs' < flag_measure fs" "shouldResetLoad r fs = (True, fs') \<Longrightarrow> r"
  by (auto simp: shouldResetLoad_def observe_def flag_measure_def Let_def split: if_splits prod.splits list.splits)

text \<open>\<open>while (shouldResetAndExchange()) reset;\<close>\<close>

function reset_while :: "bool \<Rightarrow> ('w kafka_consumer \<Rightarrow> 'w kafka_consumer option) \<Rightarrow> reset_flag \<Rightarrow> 'w kafka_consumer \<Rightarrow>
    (reset_flag \<times> 'w kafka_consumer) option" where
  "reset_while isResettable reset fs c =
    (case shouldResetAndExchange isResettable fs of
       (True, fs') \<Rightarrow> (case reset c of None \<Rightarrow> None | Some c \<Rightarrow> reset_while isResettable reset fs' c)
     | (False, fs') \<Rightarrow> Some (fs', c))"
  by pat_completeness auto
termination by (relation "measure (\<lambda>(_, _, fs, _). flag_measure fs)") (auto intro: exchange_measure(1) [OF sym])

declare reset_while.simps [simp del]

lemma reset_while_measure:
  "reset_while r reset fs c = Some (fs', c') \<Longrightarrow> flag_measure fs' \<le> flag_measure fs \<and> (r \<longrightarrow> \<not> fst fs')"
proof (induction r reset fs c rule: reset_while.induct)
  case (1 r reset fs c)
  obtain b fs1 where ex: "shouldResetAndExchange r fs = (b, fs1)" by (cases "shouldResetAndExchange r fs")
  show ?case
  proof (cases b)
    case True
    with 1(2) ex obtain c1 where "reset c = Some c1" "reset_while r reset fs1 c1 = Some (fs', c')"
      by (subst (asm) reset_while.simps) (auto split: option.splits)
    with 1(1) [OF ex [symmetric], of c1] True ex exchange_measure(1) [of r fs fs1] show ?thesis by simp
  next
    case False
    with 1(2) ex have "fs' = fs1" by (subst (asm) reset_while.simps) simp
    with exchange_measure(2) [of r fs fs1] ex False show ?thesis by simp
  qed
qed

lemma loop_measure:
  "reset_while r reset fs c = Some x \<Longrightarrow> (fs1, c1) = x \<Longrightarrow> (True, fs2) = shouldResetLoad r fs1 \<Longrightarrow>
    flag_measure (if b then snd (shouldResetLoad r fs2) else fs2) < flag_measure fs"
  using reset_while_measure [of r reset fs c fs1 c1] load_measure(2,3) [of r fs1 fs2] load_measure(1) [of r fs2] by auto

text \<open>
  The \<open>do ... while (shouldResetLoad())\<close> around an operation. The body leaves at once, or asks whether to \<open>continue\<close> and
  leaves otherwise, or gets to the end of the loop; it says what it returns and its states for going on and for leaving.
\<close>

datatype body_exit = Leave | Continue_or_leave | Loop_end

type_synonym ('r, 'w) body = "'w kafka_consumer \<Rightarrow> (body_exit \<times> 'r \<times> 'w kafka_consumer \<times> 'w kafka_consumer) option"

function reset_loop_around ::
  "bool \<Rightarrow> ('w kafka_consumer \<Rightarrow> 'r option) \<Rightarrow> ('w kafka_consumer \<Rightarrow> 'w kafka_consumer option) \<Rightarrow> ('r, 'w) body \<Rightarrow> reset_flag \<Rightarrow>
   'w kafka_consumer \<Rightarrow> ('r \<times> reset_flag \<times> 'w kafka_consumer) option" where
  "reset_loop_around isResettable guard reset body fs c =
    (case guard c of
       Some r \<Rightarrow> Some (r, fs, c)
     | None \<Rightarrow>
    (case reset_while isResettable reset fs c of
       None \<Rightarrow> None
     | Some (fs1, c) \<Rightarrow>
    (case body c of
       None \<Rightarrow> None
     | Some (exit, r, c', c'') \<Rightarrow>
         if exit = Leave then Some (r, fs1, c'')
         else (case shouldResetLoad isResettable fs1 of
                 (True, fs2) \<Rightarrow> reset_loop_around isResettable guard reset body
                   (if exit = Continue_or_leave then snd (shouldResetLoad isResettable fs2) else fs2) c'
               | (False, fs2) \<Rightarrow> Some (r, fs2, c'')))))"
  by pat_completeness auto
termination by (relation "measure (\<lambda>(_, _, _, _, fs, _). flag_measure fs)") (simp, simp only: in_measure prod.case, erule (2) loop_measure)

declare reset_loop_around.simps [simp del]

section \<open>The consumer\<close>

definition error_number :: "rd_error \<Rightarrow> int" where
  "error_number e = (case e of ERR_NO_ERROR \<Rightarrow> 0 | ERR_PARTITION_EOF \<Rightarrow> -191 | ERR_TIMED_OUT \<Rightarrow> -185 | ERR_OTHER i \<Rightarrow> i)"

definition isConsumerAvailable :: "'w kafka_consumer \<Rightarrow> bool" where
  "isConsumerAvailable c = kc_instance c"

definition assign_body :: "kafka_flags \<Rightarrow> 'w rdkafka \<Rightarrow> (unit, 'w) body" where
  "assign_body fl api c =
    (let c = c\<lparr>kc_topic_names_string := kc_topic_names_string c @
                 concat (map (\<lambda>_. concat (map (\<lambda>topic_name. topic_name @ '', '') (kc_topic_names c))) (kc_partition_ids c))\<rparr>
     in case assign_all fl api c of
          None \<Rightarrow> None
        | Some (error_code, c) \<Rightarrow>
            if error_code \<noteq> ERR_NO_ERROR then
              let c = kc_incr (getFullStatsName (consumer_stats_flags fl) ''kafka_consumer_error_assign''
                        [type_tag c, ''error_code='' @ show_int (error_number error_code)]) 1 c
              in Some (Continue_or_leave, (), c, c)
            else let c = c\<lparr>kc_is_healthy := True\<rparr> in Some (Loop_end, (), c, c))"

text \<open>The constructor that the others delegate to, on a consumer that has its holder.\<close>

definition KafkaConsumer_ctor ::
  "kafka_flags \<Rightarrow> (string \<Rightarrow> string option) \<Rightarrow> 'w rdkafka \<Rightarrow> (nat \<Rightarrow> int) \<Rightarrow> reset_flag \<Rightarrow> 'w kafka_consumer \<Rightarrow> (reset_flag \<times> 'w kafka_consumer) option" where
  "KafkaConsumer_ctor fl files api rnd fs c =
    (let c = c\<lparr>kc_is_healthy := False, kc_resettable := False, last_known_consumed_offsets := [], kc_topic_names_string := []\<rparr>
     in if \<not> isConsumerAvailable c then Some (fs, c)
        else
          let c = c\<lparr>last_known_consumed_offsets :=
                concat (map (\<lambda>topic_name. map (\<lambda>partition_id. ((topic_name, sint partition_id), \<lparr>co_offset = -1, co_timestamp = -1\<rparr>))
                  (kc_partition_ids c)) (kc_topic_names c)),
                kc_resettable := kafka_consumer_reset_on_file_change fl \<noteq> []\<rparr>
          in map_option snd (reset_loop_around (kc_resettable c) (\<lambda>_. None) (resetUnSeekedConsumer fl files api rnd) (assign_body fl api) fs c))"

definition new_consumer ::
  "kafka_flags \<Rightarrow> (string \<Rightarrow> string option) \<Rightarrow> 'w rdkafka \<Rightarrow> u32 list \<Rightarrow> string \<Rightarrow> string list \<Rightarrow> string \<Rightarrow> string \<Rightarrow> 'w \<Rightarrow> 'w kafka_consumer" where
  "new_consumer fl files api partition_ids broker_list topic_names group_id kafka_consumer_type w =
    CreateRdKafkaConsumer fl files api
      \<lparr>kc_world = w, kc_instance = False, kc_renewable = True, kc_partition_ids = partition_ids, kc_topic_names = topic_names,
       kc_broker_list = broker_list, kc_group_id = group_id, kc_type = kafka_consumer_type, kc_topic_names_string = [],
       kc_resettable = False, kc_is_healthy = False, last_known_consumed_offsets = [], kc_stats = []\<rparr>"

text \<open>A holder that is given a client keeps it.\<close>

definition cached_consumer :: "bool \<Rightarrow> u32 list \<Rightarrow> string list \<Rightarrow> string \<Rightarrow> 'w \<Rightarrow> 'w kafka_consumer" where
  "cached_consumer given partition_ids topic_names kafka_consumer_type w =
    \<lparr>kc_world = w, kc_instance = given, kc_renewable = False, kc_partition_ids = partition_ids, kc_topic_names = topic_names,
     kc_broker_list = [], kc_group_id = [], kc_type = kafka_consumer_type, kc_topic_names_string = [],
     kc_resettable = False, kc_is_healthy = False, last_known_consumed_offsets = [], kc_stats = []\<rparr>"

definition KafkaConsumer_dtor :: "'w rdkafka \<Rightarrow> 'w kafka_consumer \<Rightarrow> 'w kafka_consumer" where
  "KafkaConsumer_dtor api c = closePreviousInstance api c"

fun seek_offsets :: "kafka_flags \<Rightarrow> 'w rdkafka \<Rightarrow> position list \<Rightarrow> 'w kafka_consumer \<Rightarrow> (bool \<times> 'w kafka_consumer) option" where
  "seek_offsets fl api [] c = Some (True, c)"
| "seek_offsets fl api ((tp, offset) # last_offsets) c =
    (case KafkaSeekWithRetry fl api (tp, offset + 1) c of
       None \<Rightarrow> None
     | Some (ok, c) \<Rightarrow>
         if \<not> ok then Some (False, c)
         else seek_offsets fl api last_offsets
           (if offset \<noteq> -1
            then c\<lparr>last_known_consumed_offsets :=
                   AList.update tp \<lparr>co_offset = offset, co_timestamp = -1\<rparr> (last_known_consumed_offsets c)\<rparr>
            else c))"

definition SeekInternal_offsets :: "kafka_flags \<Rightarrow> 'w rdkafka \<Rightarrow> position list \<Rightarrow> 'w kafka_consumer \<Rightarrow> (bool \<times> 'w kafka_consumer) option" where
  "SeekInternal_offsets fl api last_offsets c =
    (if \<not> isConsumerAvailable c then Some (False, c) else seek_offsets fl api last_offsets c)"

fun seek_found :: "kafka_flags \<Rightarrow> 'w rdkafka \<Rightarrow> int \<Rightarrow> position list \<Rightarrow> 'w kafka_consumer \<Rightarrow> (bool \<times> 'w kafka_consumer) option" where
  "seek_found fl api timestamp_ms [] c = Some (True, c)"
| "seek_found fl api timestamp_ms ((tp, offset) # ps) c =
    (case KafkaSeekWithRetry fl api (tp, offset)
            (kc_incr (getFullStatsName (consumer_stats_flags fl) ''kafka_consumer_seek''
               [type_tag c, ''topic='' @ fst tp, ''partition='' @ show_int (snd tp)]) 1 c) of
       None \<Rightarrow> None
     | Some (ok, c) \<Rightarrow>
         if \<not> ok then Some (False, c)
         else seek_found fl api timestamp_ms ps
           (c\<lparr>last_known_consumed_offsets :=
              AList.update tp \<lparr>co_offset = offset, co_timestamp = timestamp_ms\<rparr> (last_known_consumed_offsets c)\<rparr>))"

definition SeekInternal_time :: "kafka_flags \<Rightarrow> 'w rdkafka \<Rightarrow> string list \<Rightarrow> int \<Rightarrow> 'w kafka_consumer \<Rightarrow> (bool \<times> 'w kafka_consumer) option" where
  "SeekInternal_time fl api topic_names timestamp_ms c =
    (if \<not> isConsumerAvailable c then Some (False, c)
     else case offsets_for_times fl api (all_partitions (kc_partition_ids c) topic_names timestamp_ms) c of
            None \<Rightarrow> None
          | Some ((error_code, ps), c) \<Rightarrow>
              if error_code \<noteq> ERR_NO_ERROR then Some (False, c) else seek_found fl api timestamp_ms ps c)"

definition seek_body :: "kafka_flags \<Rightarrow> string list \<Rightarrow> ('w kafka_consumer \<Rightarrow> (bool \<times> 'w kafka_consumer) option) \<Rightarrow> (bool, 'w) body" where
  "seek_body fl tags seek c =
    (case seek c of
       None \<Rightarrow> None
     | Some (ok, c) \<Rightarrow>
         if ok then Some (Leave, True, c, c)
         else let c = kc_incr (getFullStatsName (consumer_stats_flags fl) ''kafka_consumer_error_seek'' (type_tag c # tags)) 1 c
              in Some (Continue_or_leave, False, c, c))"

definition Seek_time ::
  "kafka_flags \<Rightarrow> (string \<Rightarrow> string option) \<Rightarrow> 'w rdkafka \<Rightarrow> (nat \<Rightarrow> int) \<Rightarrow> int \<Rightarrow> reset_flag \<Rightarrow> 'w kafka_consumer \<Rightarrow>
   (bool \<times> reset_flag \<times> 'w kafka_consumer) option" where
  "Seek_time fl files api rnd timestamp_ms fs c =
    reset_loop_around (kc_resettable c) (\<lambda>_. None) (resetUnSeekedConsumer fl files api rnd)
      (seek_body fl [] (SeekInternal_time fl api (kc_topic_names c) timestamp_ms)) fs c"

definition Seek_topic ::
  "kafka_flags \<Rightarrow> (string \<Rightarrow> string option) \<Rightarrow> 'w rdkafka \<Rightarrow> (nat \<Rightarrow> int) \<Rightarrow> string \<Rightarrow> int \<Rightarrow> reset_flag \<Rightarrow> 'w kafka_consumer \<Rightarrow>
   (bool \<times> reset_flag \<times> 'w kafka_consumer) option" where
  "Seek_topic fl files api rnd topic_name timestamp_ms fs c =
    reset_loop_around (kc_resettable c) (\<lambda>_. None) (resetUnSeekedConsumer fl files api rnd)
      (\<lambda>c. if topic_name \<in> set (kc_topic_names c)
            then seek_body fl [''topic='' @ topic_name] (SeekInternal_time fl api [topic_name] timestamp_ms) c
            else Some (Leave, False, c, c)) fs c"

definition Seek_offsets ::
  "kafka_flags \<Rightarrow> (string \<Rightarrow> string option) \<Rightarrow> 'w rdkafka \<Rightarrow> (nat \<Rightarrow> int) \<Rightarrow> position list \<Rightarrow> reset_flag \<Rightarrow> 'w kafka_consumer \<Rightarrow>
   (bool \<times> reset_flag \<times> 'w kafka_consumer) option" where
  "Seek_offsets fl files api rnd last_offsets fs c =
    reset_loop_around (kc_resettable c) (\<lambda>_. None) (resetUnSeekedConsumer fl files api rnd)
      (seek_body fl [] (SeekInternal_offsets fl api last_offsets)) fs c"

definition consume_body :: "kafka_flags \<Rightarrow> 'w rdkafka \<Rightarrow> int \<Rightarrow> (kafka_message option, 'w) body" where
  "consume_body fl api timeout_ms c =
    (case on_instance (rk_consume api timeout_ms) c of
       None \<Rightarrow> None
     | Some (None, c) \<Rightarrow>
         Some (Continue_or_leave, None, c,
           kc_incr (getFullStatsName (consumer_stats_flags fl) ''kKafkaConsumerMessageNull'' [type_tag c]) 1 c)
     | Some (Some m, c) \<Rightarrow>
         if msg_err m = ERR_NO_ERROR then
           let c = c\<lparr>last_known_consumed_offsets :=
                 AList.update (msg_topic_name m, msg_partition m) \<lparr>co_offset = msg_offset m, co_timestamp = msg_timestamp m\<rparr>
                   (last_known_consumed_offsets c)\<rparr>
           in Some (Leave, Some m, c, c)
         else if msg_err m = ERR_PARTITION_EOF \<or> msg_err m = ERR_TIMED_OUT then Some (Leave, Some m, c, c)
         else let c = kc_incr (getFullStatsName (consumer_stats_flags fl) ''kafka_consumer_error_consume''
                        [type_tag c, ''error_code='' @ show_int (error_number (msg_err m))]) 1 c
              in Some (Continue_or_leave, Some m, c, c))"

definition Consume ::
  "kafka_flags \<Rightarrow> (string \<Rightarrow> string option) \<Rightarrow> 'w rdkafka \<Rightarrow> (nat \<Rightarrow> int) \<Rightarrow> int \<Rightarrow> reset_flag \<Rightarrow> 'w kafka_consumer \<Rightarrow>
   (kafka_message option \<times> reset_flag \<times> 'w kafka_consumer) option" where
  "Consume fl files api rnd timeout_ms fs c =
    reset_loop_around (kc_resettable c) (\<lambda>c. if isConsumerAvailable c then None else Some None)
      (resetSeekedConsumer fl files api rnd) (consume_body fl api timeout_ms) fs c"

definition Commit ::
  "('a \<Rightarrow> 'w \<Rightarrow> rd_error \<times> 'w) \<Rightarrow> ('a \<Rightarrow> 'w \<Rightarrow> rd_error \<times> 'w) \<Rightarrow> 'a \<Rightarrow> bool \<Rightarrow> 'w kafka_consumer \<Rightarrow> (rd_error \<times> 'w kafka_consumer) option" where
  "Commit commitAsync commitSync what is_async = on_instance (if is_async then commitAsync what else commitSync what)"

definition Committed :: "('a \<Rightarrow> int \<Rightarrow> 'w \<Rightarrow> rd_error \<times> 'w) \<Rightarrow> 'a \<Rightarrow> int \<Rightarrow> 'w kafka_consumer \<Rightarrow> (rd_error \<times> 'w kafka_consumer) option" where
  "Committed committed partitions timeout_ms = on_instance (committed partitions timeout_ms)"

fun consume_many ::
  "kafka_flags \<Rightarrow> (string \<Rightarrow> string option) \<Rightarrow> 'w rdkafka \<Rightarrow> (nat \<Rightarrow> int) \<Rightarrow> int list \<Rightarrow> reset_flag \<Rightarrow> 'w kafka_consumer \<Rightarrow>
   (kafka_message option list \<times> reset_flag \<times> 'w kafka_consumer) option" where
  "consume_many fl files api rnd [] fs c = Some ([], fs, c)"
| "consume_many fl files api rnd (timeout_ms # ts) fs c =
    (case Consume fl files api rnd timeout_ms fs c of
       None \<Rightarrow> None
     | Some (m, fs, c) \<Rightarrow> map_option (\<lambda>(ms, r). (m # ms, r)) (consume_many fl files api rnd ts fs c))"

section \<open>The pool\<close>

text \<open>The queue of folly holds a fixed number of consumers; \<open>create\<close> makes a new one.\<close>

record 'c consumer_pool =
  pool_queue :: "'c list"
  pool_size :: nat
  pool_tag :: string

definition KafkaConsumerPool_ctor :: "(nat \<Rightarrow> 'c) \<Rightarrow> u32 \<Rightarrow> string \<Rightarrow> 'c consumer_pool option" where
  "KafkaConsumerPool_ctor create queue_size kafka_consumer_type =
    (if queue_size = 0 then None
     else Some \<lparr>pool_queue = map create [0..<unat queue_size], pool_size = unat queue_size,
       pool_tag = ''kafka_consumer_type='' @ kafka_consumer_type\<rparr>)"

definition KafkaConsumerPool_Get :: "kafka_stats_flags \<Rightarrow> 'c \<Rightarrow> 'c consumer_pool \<Rightarrow> stat_event list \<times> 'c \<times> 'c consumer_pool" where
  "KafkaConsumerPool_Get kf new pool =
    ([AddMetric (getFullStatsName kf ''kafka_consumer_pool_get_queue_size'' [pool_tag pool]) (int (length (pool_queue pool)))],
     case pool_queue pool of [] \<Rightarrow> (new, pool) | c # cs \<Rightarrow> (c, pool\<lparr>pool_queue := cs\<rparr>))"

definition KafkaConsumerPool_Put :: "kafka_stats_flags \<Rightarrow> 'c \<Rightarrow> 'c consumer_pool \<Rightarrow> stat_event list \<times> 'c consumer_pool" where
  "KafkaConsumerPool_Put kf c pool =
    ([AddMetric (getFullStatsName kf ''kafka_consumer_pool_put_queue_size'' [pool_tag pool]) (int (length (pool_queue pool)))],
     if length (pool_queue pool) < pool_size pool then pool\<lparr>pool_queue := pool_queue pool @ [c]\<rparr> else pool)"

section \<open>What librdkafka promises\<close>

text \<open>
  \<open>pos w\<close> gives the positions of the assigned partitions, \<open>avail\<close> the offsets of all messages of a partition. A new client has
  no assignment; a partition has to be assigned to be sought, and a successful seek moves this partition only; a message
  is the first one from the position of its partition on.
\<close>

definition seek_law :: "('w \<Rightarrow> topic_partition \<Rightarrow> int option) \<Rightarrow> topic_partition \<Rightarrow> int \<Rightarrow> 'w \<Rightarrow> rd_error \<Rightarrow> 'w \<Rightarrow> bool" where
  "seek_law pos tp i w e w' \<longleftrightarrow>
    (if e = ERR_NO_ERROR
     then pos w tp \<noteq> None \<and> (0 \<le> i \<longrightarrow> pos w' tp = Some i) \<and> (\<forall>tp'. tp' \<noteq> tp \<longrightarrow> pos w' tp' = pos w tp')
     else pos w' = pos w)"

definition consume_law ::
  "('w \<Rightarrow> topic_partition \<Rightarrow> int option) \<Rightarrow> (topic_partition \<Rightarrow> int set) \<Rightarrow> 'w \<Rightarrow> kafka_message option \<Rightarrow> 'w \<Rightarrow> bool" where
  "consume_law pos avail w m w' \<longleftrightarrow>
    (case m of
       Some m \<Rightarrow>
         let tp = (msg_topic_name m, msg_partition m)
         in if msg_err m = ERR_NO_ERROR
            then (case pos w tp of
                    None \<Rightarrow> False
                  | Some p \<Rightarrow> p \<le> msg_offset m \<and> (\<forall>x \<in> avail tp. p \<le> x \<longrightarrow> msg_offset m \<le> x) \<and> pos w' = (pos w)(tp \<mapsto> msg_offset m + 1))
            else pos w' = pos w
     | None \<Rightarrow> pos w' = pos w)"

definition rd_spec :: "'w rdkafka \<Rightarrow> ('w \<Rightarrow> topic_partition \<Rightarrow> int option) \<Rightarrow> (topic_partition \<Rightarrow> int set) \<Rightarrow> bool" where
  "rd_spec api pos avail \<longleftrightarrow>
    (\<forall>conf w. pos (snd (rk_create api conf w)) = Map.empty) \<and>
    (\<forall>tp i w. seek_law pos tp i w (fst (rk_seek api (tp, i) w)) (snd (rk_seek api (tp, i) w))) \<and>
    (\<forall>ps w. pos (snd (snd (rk_offsetsForTimes api ps w))) = pos w \<and> map fst (fst (snd (rk_offsetsForTimes api ps w))) = map fst ps) \<and>
    (\<forall>t w. consume_law pos avail w (fst (rk_consume api t w)) (snd (rk_consume api t w)))"

lemma rd_specD:
  assumes "rd_spec api pos avail"
  shows "rk_create api conf w = (b, w') \<Longrightarrow> pos w' = Map.empty"
    "rk_seek api (tp, i) w = (e, w') \<Longrightarrow> seek_law pos tp i w e w'"
    "rk_offsetsForTimes api ps w = (e, ps', w') \<Longrightarrow> pos w' = pos w \<and> map fst ps' = map fst ps"
    "rk_consume api t w = (m, w') \<Longrightarrow> consume_law pos avail w m w'"
  using assms unfolding rd_spec_def by (metis fst_conv snd_conv)+

section \<open>Retrying and seeking\<close>

lemma retry_inv:
  assumes "\<And>s e s'. P s \<Longrightarrow> f s = (e, s') \<Longrightarrow> (if e = ERR_NO_ERROR then Q s' else P s')"
    and "if e0 = ERR_NO_ERROR then Q s0 else P s0" "retry n f e0 s0 = (e, s)"
  shows "if e = ERR_NO_ERROR then Q s else P s"
  using assms(2,3)
proof (induction n arbitrary: e0 s0)
  case (Suc n)
  show ?case
  proof (cases "e0 = ERR_NO_ERROR")
    case False
    obtain e1 s1 where f: "f s0 = (e1, s1)" by (cases "f s0")
    with False Suc.prems assms(1) [OF _ f] show ?thesis by (intro Suc.IH [of e1 s1]) auto
  qed (use Suc.prems in auto)
qed simp

lemma execute_inv:
  assumes "\<And>s e s'. P s \<Longrightarrow> f s = (e, s') \<Longrightarrow> (if e = ERR_NO_ERROR then Q s' else P s')"
    and "P s0" "ExecuteKafkaOperationWithRetry n f s0 = (e, s)"
  shows "if e = ERR_NO_ERROR then Q s else P s"
proof -
  obtain e1 s1 where f: "f s0 = (e1, s1)" by (cases "f s0")
  with assms(3) have "retry (unat (word_of_int n :: u64)) f e1 s1 = (e, s)" by (simp add: ExecuteKafkaOperationWithRetry_def)
  then show ?thesis
    by (rule retry_inv [where f = f and P = P and Q = Q, rotated 2]) (use assms(1) assms(1) [OF assms(2) f] in auto)
qed

text \<open>Everything but the state of the client and the statistics is kept.\<close>

definition same_job :: "'w kafka_consumer \<Rightarrow> 'w kafka_consumer \<Rightarrow> bool" where
  "same_job c c' \<longleftrightarrow> kc_partition_ids c' = kc_partition_ids c \<and> kc_topic_names c' = kc_topic_names c \<and>
    kc_renewable c' = kc_renewable c \<and> kc_resettable c' = kc_resettable c \<and>
    last_known_consumed_offsets c' = last_known_consumed_offsets c"

lemma same_job_trans: "same_job c1 c2 \<Longrightarrow> same_job c2 c3 \<Longrightarrow> same_job c1 c3"
  by (simp add: same_job_def)

lemma KafkaSeekWithRetry_spec:
  assumes "rd_spec api pos avail" "KafkaSeekWithRetry fl api (tp, i) c = Some (ok, c')"
  shows "same_job c c' \<and> kc_instance c' \<and>
    (if ok then pos (kc_world c) tp \<noteq> None \<and> (0 \<le> i \<longrightarrow> pos (kc_world c') tp = Some i) \<and>
       (\<forall>tp'. tp' \<noteq> tp \<longrightarrow> pos (kc_world c') tp' = pos (kc_world c) tp')
     else pos (kc_world c') = pos (kc_world c))"
proof -
  let ?f = "rk_seek api (tp, i)" and ?p = "pos (kc_world c)"
  obtain e w where ex: "ExecuteKafkaOperationWithRetry (kafka_consumer_num_retries fl) ?f (kc_world c) = (e, w)"
    by (cases "ExecuteKafkaOperationWithRetry (kafka_consumer_num_retries fl) ?f (kc_world c)")
  with assms(2) have c: "kc_instance c" "ok = (e = ERR_NO_ERROR)" "c' = c\<lparr>kc_world := w\<rparr>"
    by (auto simp: KafkaSeekWithRetry_def on_instance_def split: if_splits)
  have "if e = ERR_NO_ERROR then seek_law pos tp i (kc_world c) ERR_NO_ERROR w else pos w = ?p"
    by (rule execute_inv [OF _ _ ex, where P = "\<lambda>w. pos w = ?p"]) (auto simp: seek_law_def dest: rd_specD(2) [OF assms(1)])
  then show ?thesis by (simp add: c same_job_def seek_law_def split: if_splits)
qed

lemma offsets_for_times_spec:
  assumes "rd_spec api pos avail" "offsets_for_times fl api ps c = Some ((e, ps'), c')"
  shows "same_job c c' \<and> kc_instance c' \<and> pos (kc_world c') = pos (kc_world c) \<and> map fst ps' = map fst ps"
proof -
  let ?f = "\<lambda>(ps, w). rk_offsetsForTimes api ps w" and ?n = "kafka_consumer_num_retries fl"
  let ?P = "\<lambda>(ps', w). pos w = pos (kc_world c) \<and> map fst ps' = map fst ps"
  obtain e1 ps1 w where ex: "ExecuteKafkaOperationWithRetry ?n ?f (ps, kc_world c) = (e1, ps1, w)"
    by (metis prod_cases3)
  with assms(2) have c: "kc_instance c" "ps' = ps1" "c' = c\<lparr>kc_world := w\<rparr>"
    by (auto simp: offsets_for_times_def on_instance_def split: if_splits)
  have "if e1 = ERR_NO_ERROR then ?P (ps1, w) else ?P (ps1, w)"
    by (rule execute_inv [OF _ _ ex, where P = ?P]) (auto dest: rd_specD(3) [OF assms(1)])
  then show ?thesis by (simp add: c same_job_def)
qed

lemma seek_consumed_spec:
  assumes "rd_spec api pos avail" "seek_consumed fl api tp co c = Some (True, c')"
  shows "same_job c c' \<and> kc_instance c' \<and> (0 \<le> co_offset co \<longrightarrow> pos (kc_world c') tp = Some (co_offset co)) \<and>
    (\<forall>tp'. tp' \<noteq> tp \<longrightarrow> pos (kc_world c') tp' = pos (kc_world c) tp')"
proof (cases "co_offset co = -1")
  case True
  with assms(2) obtain e ps c1 where c1: "offsets_for_times fl api [(tp, co_timestamp co)] c = Some ((e, ps), c1)"
    "KafkaSeekWithRetry fl api (hd ps) c1 = Some (True, c')"
    by (auto simp: seek_consumed_def split: if_splits option.splits)
  note off = offsets_for_times_spec [OF assms(1) c1(1)]
  then obtain i where "hd ps = (tp, i)" by (cases ps) auto
  with KafkaSeekWithRetry_spec [OF assms(1), of fl tp i c1 True c'] c1(2) off True show ?thesis
    by (auto intro: same_job_trans)
next
  case False
  with KafkaSeekWithRetry_spec [OF assms(1), of fl tp "co_offset co" c True c'] assms(2) show ?thesis
    by (auto simp: seek_consumed_def)
qed

lemma seekToRelevantOffsets_spec:
  assumes "rd_spec api pos avail" "seekToRelevantOffsets fl api cos c = Some (True, c')" "distinct (map fst cos)" "kc_instance c"
  shows "same_job c c' \<and> kc_instance c' \<and>
    (\<forall>tp. case map_of cos tp of
       None \<Rightarrow> pos (kc_world c') tp = pos (kc_world c) tp
     | Some co \<Rightarrow> 0 \<le> co_offset co \<longrightarrow> pos (kc_world c') tp = Some (co_offset co))"
  using assms(2-4)
proof (induction cos arbitrary: c)
  case (Cons x cos)
  obtain tp co where x: "x = (tp, co)" by (cases x)
  with Cons.prems obtain c1 where c1: "seek_consumed fl api tp co c = Some (True, c1)" "seekToRelevantOffsets fl api cos c1 = Some (True, c')"
    by (auto split: option.splits if_splits)
  note first = seek_consumed_spec [OF assms(1) c1(1)]
  have rest: "same_job c1 c' \<and> kc_instance c' \<and> (\<forall>tp. case map_of cos tp of
       None \<Rightarrow> pos (kc_world c') tp = pos (kc_world c1) tp
     | Some co \<Rightarrow> 0 \<le> co_offset co \<longrightarrow> pos (kc_world c') tp = Some (co_offset co))"
    using Cons.IH [OF c1(2)] Cons.prems(2) first by simp
  have "case map_of (x # cos) tp' of
       None \<Rightarrow> pos (kc_world c') tp' = pos (kc_world c) tp'
     | Some co \<Rightarrow> 0 \<le> co_offset co \<longrightarrow> pos (kc_world c') tp' = Some (co_offset co)" for tp'
  proof (cases "tp' = tp")
    case True
    have "map_of cos tp = None" using Cons.prems(2) x by (simp add: map_of_eq_None_iff)
    with rest [THEN conjunct2, THEN conjunct2, rule_format, of tp] have "pos (kc_world c') tp = pos (kc_world c1) tp" by simp
    with True first x show ?thesis by simp
  next
    case False
    with first have "pos (kc_world c1) tp' = pos (kc_world c) tp'" by blast
    with False rest [THEN conjunct2, THEN conjunct2, rule_format, of tp'] x show ?thesis by (cases "map_of cos tp'") simp_all
  qed
  with first rest show ?case by (auto intro: same_job_trans)
qed (simp add: same_job_def)

section \<open>Resetting\<close>

lemma create_cases:
  obtains (failed) name where "CreateRdKafkaConsumer fl files api c = (kc_incr name 1 c)\<lparr>kc_instance := False\<rparr>"
  | (created) conf where "CreateRdKafkaConsumer fl files api c =
      c\<lparr>kc_instance := fst (rk_create api conf (kc_world c)), kc_world := snd (rk_create api conf (kc_world c))\<rparr>"
proof -
  have config: thesis if "CreateRdKafkaConsumer fl files api c = CreateRdKafkaConsumer_config fl api config c" for config
    using that failed created
    by (cases "set_conf api (sort_key fst config)") (simp_all add: CreateRdKafkaConsumer_config_def case_prod_beta)
  show thesis
  proof (cases "if kafka_client_global_config_file fl = [] then Some [] else read_conf_file files (kafka_client_global_config_file fl)")
    case None
    show thesis by (rule failed) (simp only: CreateRdKafkaConsumer_def Let_def None option.case)
  next
    case (Some configMap)
    show thesis by (rule config) (simp only: CreateRdKafkaConsumer_def Let_def Some option.case)
  qed
qed

lemma create_fields: "same_job c (CreateRdKafkaConsumer fl files api c)"
  by (rule create_cases [where c = c and fl = fl and files = files and api = api]) (simp_all add: kc_incr_def same_job_def)

lemma close_fields: "same_job c (closePreviousInstance api c)"
  by (simp add: closePreviousInstance_def same_job_def)

lemma same_job_kc_incr [simp]: "same_job c (kc_incr name n c') = same_job c c'" "same_job (kc_incr name n c) c' = same_job c c'"
  by (simp_all add: same_job_def kc_incr_def)

lemma assignPartitions_fields: "assignPartitions fl api c = Some (ok, c') \<Longrightarrow> same_job c c' \<and> kc_instance c'"
  by (auto simp: assignPartitions_def assign_all_def on_instance_def same_job_def split: if_splits prod.splits)

lemma seek_consumed_fields: "seek_consumed fl api tp co c = Some (ok, c') \<Longrightarrow> same_job c c'"
  by (auto simp: seek_consumed_def KafkaSeekWithRetry_def offsets_for_times_def on_instance_def same_job_def Let_def
      split: if_splits prod.splits option.splits)

lemma seekToRelevantOffsets_fields: "seekToRelevantOffsets fl api cos c = Some (ok, c') \<Longrightarrow> same_job c c'"
proof (induction cos arbitrary: c)
  case (Cons x cos)
  obtain tp co where x: "x = (tp, co)" by (cases x)
  with Cons.prems obtain ok1 c1 where c1: "seek_consumed fl api tp co c = Some (ok1, c1)"
    "(if ok1 then seekToRelevantOffsets fl api cos c1 else Some (False, c1)) = Some (ok, c')"
    by (auto split: option.splits)
  from seek_consumed_fields [OF c1(1)] Cons.IH [of c1] c1(2) show ?case
    by (auto intro: same_job_trans split: if_splits)
qed (simp add: same_job_def)

text \<open>One round of the loop: it either ends or goes on with a consumer for the same job.\<close>

lemma reset_round:
  assumes "(let c = CreateRdKafkaConsumer fl files api (closePreviousInstance api c)
     in case offs of
          None \<Rightarrow> Some c
        | Some offsets \<Rightarrow>
            (case (case assignPartitions fl api c of
                     None \<Rightarrow> None
                   | Some (ok, c) \<Rightarrow> if ok then seekToRelevantOffsets fl api offsets c else Some (False, c)) of
               None \<Rightarrow> None
             | Some (done, c) \<Rightarrow> if done then Some c else again c)) = Some c'" "offs = Some cos"
  obtains (last_round) c1 where "same_job c c1" "kc_instance c1" "seekToRelevantOffsets fl api cos c1 = Some (True, c')"
  | (another) c1 where "same_job c c1" "again c1 = Some c'"
proof -
  define c0 where "c0 = CreateRdKafkaConsumer fl files api (closePreviousInstance api c)"
  have c0: "same_job c c0" unfolding c0_def by (rule same_job_trans [OF close_fields create_fields])
  from assms(1) assms(2) obtain ok c1 where c1: "assignPartitions fl api c0 = Some (ok, c1)"
    by (fastforce simp: c0_def [symmetric] Let_def split: option.splits)
  have j1: "same_job c c1" "kc_instance c1" using assignPartitions_fields [OF c1] c0 by (auto intro: same_job_trans)
  show thesis
  proof (cases ok)
    case True
    with assms c1 obtain fin c2 where c2: "seekToRelevantOffsets fl api cos c1 = Some (fin, c2)"
      "(if fin then Some c2 else again c2) = Some c'"
      by (fastforce simp: c0_def [symmetric] Let_def split: option.splits)
    then show thesis
      using last_round [OF j1] another [OF same_job_trans [OF j1(1) seekToRelevantOffsets_fields [OF c2(1)]]] by (auto split: if_splits)
  next
    case False
    with assms c1 have "again c1 = Some c'" by (simp add: c0_def [symmetric] Let_def)
    with another j1 show thesis by blast
  qed
qed

lemma reset_loop_spec:
  assumes "reset_loop fl files api rnd offs n sleep_ms backoff c = Some c'" "offs = Some cos" "rd_spec api pos avail" "distinct (map fst cos)"
  shows "same_job c c' \<and> kc_instance c' \<and>
    (\<forall>tp co. map_of cos tp = Some co \<longrightarrow> 0 \<le> co_offset co \<longrightarrow> pos (kc_world c') tp = Some (co_offset co))"
  using assms
proof (induction fl files api rnd offs n sleep_ms backoff c c' rule: reset_loop.raw_induct [rotated, consumes 1, case_names round])
  case (round loop fl files api rnd offs n sleep_ms backoff c c')
  show ?case
  proof (rule reset_round [OF round(2,3)], goal_cases last_round another)
    case (last_round c1)
    note sought = seekToRelevantOffsets_spec [OF round(4) last_round(3) round(5) last_round(2)]
    have "pos (kc_world c') tp = Some (co_offset co)" if "map_of cos tp = Some co" "0 \<le> co_offset co" for tp co
      using sought [THEN conjunct2, THEN conjunct2, rule_format, of tp] that by simp
    with sought same_job_trans [OF last_round(1)] show ?thesis by blast
  next
    case (another c1)
    with round(1) [OF another(2) round(3,4,5)] show ?thesis by (auto intro: same_job_trans)
  qed
qed

lemma reset_loop_never:
  assumes "reset_loop fl files api rnd offs n sleep_ms backoff c = Some c'" "offs = Some cos"
    "(tp, co) \<in> set cos" "co_offset co = -1" "co_timestamp co = -1"
  shows False
  using assms
proof (induction fl files api rnd offs n sleep_ms backoff c c' rule: reset_loop.raw_induct [rotated, consumes 1, case_names round])
  case (round loop fl files api rnd offs n sleep_ms backoff c c')
  have never: "seekToRelevantOffsets fl api cs c1 \<noteq> Some (True, c')" if "(tp, co) \<in> set cs" for cs c1
    using that round(5,6) by (induction cs arbitrary: c1) (auto simp: seek_consumed_def split: option.splits if_splits)
  show ?case
  proof (rule reset_round [OF round(2,3)], goal_cases last_round another)
    case (last_round c1)
    with never [OF round(4)] show ?thesis by blast
  next
    case (another c1)
    from round(1) [OF another(2) round(3,4,5,6)] show ?thesis .
  qed
qed

section \<open>Invariants of the loops\<close>

lemma reset_while_inv:
  assumes "\<And>c c'. I c \<Longrightarrow> reset c = Some c' \<Longrightarrow> I c'" "I c" "reset_while r reset fs c = Some (fs', c')"
  shows "I c'"
  using assms(2,3)
proof (induction "flag_measure fs" arbitrary: fs c rule: less_induct)
  case less
  obtain b fs1 where ex: "shouldResetAndExchange r fs = (b, fs1)" by (cases "shouldResetAndExchange r fs")
  show ?case
  proof (cases b)
    case True
    with less.prems ex obtain c1 where c1: "reset c = Some c1" "reset_while r reset fs1 c1 = Some (fs', c')"
      by (subst (asm) reset_while.simps) (auto split: option.splits)
    show ?thesis
      using less.hyps [OF _ assms(1) [OF less.prems(1) c1(1)] c1(2)] exchange_measure(1) [of r fs fs1] ex True by simp
  next
    case False
    with less.prems ex show ?thesis by (simp add: reset_while.simps [of r reset fs c])
  qed
qed

lemma reset_loop_around_inv:
  assumes reset: "\<And>c c'. I c \<Longrightarrow> reset c = Some c' \<Longrightarrow> I c'"
    and body: "\<And>c exit x c1 c2. I c \<Longrightarrow> body c = Some (exit, x, c1, c2) \<Longrightarrow> Q x c2 \<and> (exit \<noteq> Leave \<longrightarrow> I c1)"
    and guard: "\<And>c x. I c \<Longrightarrow> guard c = Some x \<Longrightarrow> Q x c"
    and run: "I c" "reset_loop_around r guard reset body fs c = Some (x, fs', c')"
  shows "Q x c'"
  using run
proof (induction "flag_measure fs" arbitrary: fs c rule: less_induct)
  case less
  note unfolded = less.prems(2) [unfolded reset_loop_around.simps [of r guard reset body fs c]]
  show ?case
  proof (cases "guard c")
    case None
    with unfolded obtain fs1 c1 exit y c2 c3 where c1: "reset_while r reset fs c = Some (fs1, c1)"
      and c2: "body c1 = Some (exit, y, c2, c3)"
      by (fastforce split: option.splits)
    have "I c1" by (rule reset_while_inv [where I = I, OF _ less.prems(1) c1]) (erule (1) reset)
    note b = body [OF this c2]
    obtain z fs2 where z: "shouldResetLoad r fs1 = (z, fs2)" by (cases "shouldResetLoad r fs1")
    show ?thesis
    proof (cases "exit = Leave \<or> \<not> z")
      case True
      with unfolded None c1 c2 z b show ?thesis by (auto split: if_splits)
    next
      case False
      let ?fs = "if exit = Continue_or_leave then snd (shouldResetLoad r fs2) else fs2"
      from False unfolded None c1 c2 z have "reset_loop_around r guard reset body ?fs c2 = Some (x, fs', c')" by simp
      moreover have "flag_measure ?fs < flag_measure fs" using loop_measure [OF c1 refl, of fs2] z False by simp
      ultimately show ?thesis using less.hyps b False by blast
    qed
  qed (use less.prems unfolded guard in auto)
qed

section \<open>Nothing is lost\<close>

definition delivered :: "topic_partition \<Rightarrow> kafka_message option list \<Rightarrow> int list" where
  "delivered tp ms = map msg_offset (filter (\<lambda>m. msg_err m = ERR_NO_ERROR \<and> (msg_topic_name m, msg_partition m) = tp)
     (concat (map (\<lambda>m. case m of None \<Rightarrow> [] | Some m \<Rightarrow> [m]) ms)))"

lemma delivered_append: "delivered tp (ms @ ms') = delivered tp ms @ delivered tp ms'"
  by (simp add: delivered_def)

text \<open>
  What is true of a partition that was sought to \<open>start\<close>, after the messages \<open>ms\<close>: the remembered offset is not after the
  position, it is not before any message handed out, and what lies between \<open>start\<close> and the position was handed out.
\<close>

definition tracks ::
  "('w \<Rightarrow> topic_partition \<Rightarrow> int option) \<Rightarrow> (topic_partition \<Rightarrow> int set) \<Rightarrow> topic_partition \<Rightarrow> int \<Rightarrow> kafka_message option list \<Rightarrow>
   'w kafka_consumer \<Rightarrow> bool" where
  "tracks pos avail tp start ms c \<longleftrightarrow>
    distinct (map fst (last_known_consumed_offsets c)) \<and>
    (\<exists>co p. map_of (last_known_consumed_offsets c) tp = Some co \<and> pos (kc_world c) tp = Some p \<and> 0 \<le> co_offset co \<and> co_offset co \<le> p \<and>
      sorted (delivered tp ms) \<and> (\<forall>i \<in> set (delivered tp ms). i \<le> co_offset co) \<and>
      (\<forall>x \<in> avail tp. start \<le> x \<and> x < p \<longrightarrow> x \<in> set (delivered tp ms)))"

lemma tracksE:
  assumes "tracks pos avail tp start ms c"
  obtains co p where "distinct (map fst (last_known_consumed_offsets c))"
    "map_of (last_known_consumed_offsets c) tp = Some co" "pos (kc_world c) tp = Some p" "0 \<le> co_offset co" "co_offset co \<le> p"
    "sorted (delivered tp ms)" "\<forall>i \<in> set (delivered tp ms). i \<le> co_offset co"
    "\<forall>x \<in> avail tp. start \<le> x \<and> x < p \<longrightarrow> x \<in> set (delivered tp ms)"
  using assms unfolding tracks_def by blast

lemma resetInstance_tracks:
  assumes "rd_spec api pos avail" "tracks pos avail tp start ms c" "resetSeekedConsumer fl files api rnd c = Some c'"
  shows "tracks pos avail tp start ms c'"
proof (cases "kc_renewable c")
  case True
  let ?c = "syncPreviousInstance api (kc_incr ''kafka_consumer_resets'' 1 c)"
  have sync: "same_job c ?c" by (simp add: syncPreviousInstance_def kc_incr_def same_job_def)
  from True assms(3) have run: "reset_loop fl files api rnd (Some (last_known_consumed_offsets c)) 0 1000 1 ?c = Some c'"
    by (simp add: resetSeekedConsumer_def resetInstance_def)
  from assms(2) obtain co p where co: "distinct (map fst (last_known_consumed_offsets c))"
    "map_of (last_known_consumed_offsets c) tp = Some co" "pos (kc_world c) tp = Some p" "0 \<le> co_offset co" "co_offset co \<le> p"
    "sorted (delivered tp ms)" "\<forall>i \<in> set (delivered tp ms). i \<le> co_offset co"
    "\<forall>x \<in> avail tp. start \<le> x \<and> x < p \<longrightarrow> x \<in> set (delivered tp ms)" by (rule tracksE)
  from reset_loop_spec [OF run refl assms(1) co(1)] co(2,4)
  have "same_job ?c c'" "pos (kc_world c') tp = Some (co_offset co)" by blast+
  with co same_job_trans [OF sync] show ?thesis
    unfolding tracks_def by (intro conjI exI [of _ co] exI [of _ "co_offset co"]) (auto simp: same_job_def)
qed (use assms(2,3) in \<open>simp add: resetSeekedConsumer_def resetInstance_def\<close>)

lemma tracks_same:
  assumes "tracks pos avail tp start ms c" "same_job c c'" "pos (kc_world c') = pos (kc_world c)" "delivered tp ms' = delivered tp ms"
  shows "tracks pos avail tp start ms' c'"
proof -
  have "last_known_consumed_offsets c' = last_known_consumed_offsets c" using assms(2) by (simp add: same_job_def)
  with assms(1) show ?thesis unfolding tracks_def assms(3,4) by (simp only:)
qed

lemma consume_message_tracks:
  assumes "tracks pos avail tp start ms c" "consume_law pos avail (kc_world c) (Some m) w'" "msg_err m = ERR_NO_ERROR"
  shows "tracks pos avail tp start (ms @ [Some m])
    (c\<lparr>kc_world := w', last_known_consumed_offsets :=
        AList.update (msg_topic_name m, msg_partition m) \<lparr>co_offset = msg_offset m, co_timestamp = msg_timestamp m\<rparr>
          (last_known_consumed_offsets c)\<rparr>)"
proof (cases "(msg_topic_name m, msg_partition m) = tp")
  case True
  from assms(1) obtain co p where co: "distinct (map fst (last_known_consumed_offsets c))"
    "map_of (last_known_consumed_offsets c) tp = Some co" "pos (kc_world c) tp = Some p" "0 \<le> co_offset co" "co_offset co \<le> p"
    "sorted (delivered tp ms)" "\<forall>i \<in> set (delivered tp ms). i \<le> co_offset co"
    "\<forall>x \<in> avail tp. start \<le> x \<and> x < p \<longrightarrow> x \<in> set (delivered tp ms)" by (rule tracksE)
  have m: "p \<le> msg_offset m" "\<forall>x \<in> avail tp. p \<le> x \<longrightarrow> msg_offset m \<le> x" "pos w' tp = Some (msg_offset m + 1)"
    using assms(2,3) True co(3) by (auto simp: consume_law_def Let_def)
  have d: "delivered tp (ms @ [Some m]) = delivered tp ms @ [msg_offset m]"
    using True assms(3) by (simp add: delivered_append) (simp add: delivered_def)
  have "x \<in> set (delivered tp (ms @ [Some m]))" if "x \<in> avail tp" "start \<le> x" "x < msg_offset m + 1" for x
  proof (cases "x < p")
    case False
    with that(3) m(2) [rule_format, OF that(1)] have "x = msg_offset m" by simp
    then show ?thesis by (simp add: d)
  qed (use co(8) that d in simp)
  moreover have "\<forall>i \<in> set (delivered tp ms). i \<le> msg_offset m" using co(5,7) m(1) by force
  ultimately show ?thesis
    using co(1,4,5,6) m True unfolding tracks_def
    by (intro conjI exI [of _ "\<lparr>co_offset = msg_offset m, co_timestamp = msg_timestamp m\<rparr>"] exI [of _ "msg_offset m + 1"])
      (auto simp: d sorted_append distinct_update update_conv')
next
  case False
  then have "pos w' tp = pos (kc_world c) tp" using assms(2,3)
    by (cases "pos (kc_world c) (msg_topic_name m, msg_partition m)") (auto simp: consume_law_def Let_def)
  moreover have "delivered tp (ms @ [Some m]) = delivered tp ms" using False by (simp add: delivered_append) (simp add: delivered_def)
  moreover have "map_of (AList.update (msg_topic_name m, msg_partition m) \<lparr>co_offset = msg_offset m, co_timestamp = msg_timestamp m\<rparr>
      (last_known_consumed_offsets c)) tp = map_of (last_known_consumed_offsets c) tp" using False by (simp add: update_conv')
  ultimately show ?thesis using assms(1) unfolding tracks_def by (simp add: distinct_update del: map_of_eq_Some_iff)
qed

lemma consume_body_tracks:
  assumes "rd_spec api pos avail" "tracks pos avail tp start ms c" "consume_body fl api timeout_ms c = Some (exit, m, c1, c2)"
  shows "tracks pos avail tp start (ms @ [m]) c2 \<and> (exit \<noteq> Leave \<longrightarrow> tracks pos avail tp start ms c1)"
proof -
  from assms(3) obtain m' w where w: "rk_consume api timeout_ms (kc_world c) = (m', w)" "kc_instance c"
    by (cases "rk_consume api timeout_ms (kc_world c)") (auto simp: consume_body_def on_instance_def split: if_splits)
  note law = rd_specD(4) [OF assms(1) w(1)]
  show ?thesis
  proof (cases "\<exists>msg. m' = Some msg \<and> msg_err msg = ERR_NO_ERROR")
    case True
    then obtain msg where msg: "m' = Some msg" "msg_err msg = ERR_NO_ERROR" by blast
    from consume_message_tracks [OF assms(2) law [unfolded msg(1)] msg(2)] show ?thesis
      using assms(3) w msg by (auto simp: consume_body_def on_instance_def Let_def)
  next
    case False
    then have pos: "pos w = pos (kc_world c)" using law by (cases m') (simp_all add: consume_law_def Let_def)
    have "delivered tp (ms @ [m']) = delivered tp ms" using False
      by (cases m') (simp_all add: delivered_append, simp_all add: delivered_def)
    then show ?thesis
      using assms(3) w False pos tracks_same [OF assms(2), of c1 ms] tracks_same [OF assms(2), of c2 "ms @ [m]"]
      by (cases m') (auto simp: consume_body_def on_instance_def same_job_def kc_incr_def Let_def split: if_splits)
  qed
qed

lemma Consume_tracks:
  assumes "rd_spec api pos avail" "tracks pos avail tp start ms c" "Consume fl files api rnd timeout_ms fs c = Some (m, fs', c')"
  shows "tracks pos avail tp start (ms @ [m]) c'"
proof (rule reset_loop_around_inv [where Q = "\<lambda>m. tracks pos avail tp start (ms @ [m])" and I = "tracks pos avail tp start ms"])
  show "reset_loop_around (kc_resettable c) (\<lambda>c. if isConsumerAvailable c then None else Some None)
      (resetSeekedConsumer fl files api rnd) (consume_body fl api timeout_ms) fs c = Some (m, fs', c')"
    using assms(3) by (simp add: Consume_def)
next
  fix c :: "'a kafka_consumer" and x :: "kafka_message option"
  assume tracked: "tracks pos avail tp start ms c" and "(if isConsumerAvailable c then None else Some None) = Some x"
  then have "delivered tp (ms @ [x]) = delivered tp ms" by (auto simp: delivered_def split: if_splits)
  then show "tracks pos avail tp start (ms @ [x]) c" by (intro tracks_same [OF tracked]) (simp_all add: same_job_def)
next
  fix c c' assume "tracks pos avail tp start ms c" "resetSeekedConsumer fl files api rnd c = Some c'"
  then show "tracks pos avail tp start ms c'" by (rule resetInstance_tracks [OF assms(1)])
next
  fix c exit x c1 c2 assume "tracks pos avail tp start ms c" "consume_body fl api timeout_ms c = Some (exit, x, c1, c2)"
  then show "tracks pos avail tp start (ms @ [x]) c2 \<and> (exit \<noteq> Leave \<longrightarrow> tracks pos avail tp start ms c1)"
    by (rule consume_body_tracks [OF assms(1)])
qed (rule assms(2))

lemma consume_many_tracks:
  assumes "rd_spec api pos avail" "tracks pos avail tp start ms c" "consume_many fl files api rnd ts fs c = Some (ms', fs', c')"
  shows "tracks pos avail tp start (ms @ ms') c'"
  using assms(2,3)
proof (induction ts arbitrary: fs c ms ms')
  case (Cons t ts)
  from Cons.prems(2) obtain m fs1 c1 ms1 where m: "Consume fl files api rnd t fs c = Some (m, fs1, c1)"
    "consume_many fl files api rnd ts fs1 c1 = Some (ms1, fs', c')" "ms' = m # ms1"
    by (auto split: option.splits)
  from Cons.IH [OF Consume_tracks [OF assms(1) Cons.prems(1) m(1)] m(2)] m(3) show ?case by simp
qed simp

section \<open>Seeking starts the tracking\<close>

lemma seek_offsets_spec:
  assumes "rd_spec api pos avail" "seek_offsets fl api los c = Some (True, c')" "distinct (map fst los)"
    "distinct (map fst (last_known_consumed_offsets c))"
  shows "distinct (map fst (last_known_consumed_offsets c')) \<and>
    (\<forall>tp. case map_of los tp of
       None \<Rightarrow> pos (kc_world c') tp = pos (kc_world c) tp \<and> map_of (last_known_consumed_offsets c') tp = map_of (last_known_consumed_offsets c) tp
     | Some i \<Rightarrow> 0 \<le> i \<longrightarrow> pos (kc_world c') tp = Some (i + 1) \<and>
         map_of (last_known_consumed_offsets c') tp = Some \<lparr>co_offset = i, co_timestamp = -1\<rparr>)"
  using assms(2-4)
proof (induction los arbitrary: c)
  case (Cons x los)
  obtain tp i where x: "x = (tp, i)" by (cases x)
  let ?upd = "\<lambda>c. if i \<noteq> -1 then c\<lparr>last_known_consumed_offsets :=
    AList.update tp \<lparr>co_offset = i, co_timestamp = -1\<rparr> (last_known_consumed_offsets c)\<rparr> else c"
  from Cons.prems(1) x obtain c1 where c1: "KafkaSeekWithRetry fl api (tp, i + 1) c = Some (True, c1)"
    "seek_offsets fl api los (?upd c1) = Some (True, c')"
    by (auto split: option.splits if_splits)
  note first = KafkaSeekWithRetry_spec [OF assms(1) c1(1), unfolded if_True]
  have lk: "last_known_consumed_offsets c1 = last_known_consumed_offsets c" using first by (simp add: same_job_def)
  have "distinct (map fst (last_known_consumed_offsets (?upd c1)))" using Cons.prems(3) by (simp add: lk distinct_update)
  note rest = Cons.IH [OF c1(2) _ this]
  have absent: "map_of los tp = None" "distinct (map fst los)" using Cons.prems(2) x by (simp_all add: map_of_eq_None_iff)
  have "case map_of (x # los) tp' of
       None \<Rightarrow> pos (kc_world c') tp' = pos (kc_world c) tp' \<and> map_of (last_known_consumed_offsets c') tp' = map_of (last_known_consumed_offsets c) tp'
     | Some i \<Rightarrow> 0 \<le> i \<longrightarrow> pos (kc_world c') tp' = Some (i + 1) \<and>
         map_of (last_known_consumed_offsets c') tp' = Some \<lparr>co_offset = i, co_timestamp = -1\<rparr>" for tp'
  proof (cases "tp' = tp")
    case True
    have "pos (kc_world c') tp = pos (kc_world c1) tp \<and>
        map_of (last_known_consumed_offsets c') tp = map_of (last_known_consumed_offsets (?upd c1)) tp"
      using rest [THEN conjunct2, rule_format, of tp] absent by (simp split: if_splits)
    with True first x show ?thesis by (simp add: update_conv' lk)
  next
    case False
    with first have "pos (kc_world c1) tp' = pos (kc_world c) tp'" by blast
    with False rest [THEN conjunct2, rule_format, of tp'] absent x show ?thesis
      by (cases "map_of los tp'") (simp_all add: update_conv' lk split: if_splits)
  qed
  with rest absent(2) show ?case by blast
qed simp

lemma seek_offsets_distinct:
  "distinct (map fst (last_known_consumed_offsets c)) \<Longrightarrow> seek_offsets fl api los c = Some (ok, c') \<Longrightarrow>
    distinct (map fst (last_known_consumed_offsets c'))"
proof (induction los arbitrary: c)
  case (Cons x los)
  obtain tp i where x: "x = (tp, i)" by (cases x)
  with Cons.prems(2) obtain ok1 w where w: "KafkaSeekWithRetry fl api (tp, i + 1) c = Some (ok1, c\<lparr>kc_world := w\<rparr>)"
    by (auto simp: KafkaSeekWithRetry_def on_instance_def split: option.splits if_splits prod.splits)
  let ?c1 = "if i \<noteq> -1 then c\<lparr>kc_world := w, last_known_consumed_offsets :=
    AList.update tp \<lparr>co_offset = i, co_timestamp = -1\<rparr> (last_known_consumed_offsets c)\<rparr> else c\<lparr>kc_world := w\<rparr>"
  have "distinct (map fst (last_known_consumed_offsets ?c1))" using Cons.prems(1) by (simp add: distinct_update)
  note rest = Cons.IH [OF this]
  show ?case
  proof (cases ok1)
    case True
    with Cons.prems(2) x w have "seek_offsets fl api los ?c1 = Some (ok, c')" by (simp split: if_splits)
    then show ?thesis by (rule rest)
  qed (use Cons.prems x w in auto)
qed simp

lemma resetUnSeekedConsumer_fields:
  assumes "resetUnSeekedConsumer fl files api rnd c = Some c'"
  shows "same_job c c'"
proof (cases "kc_renewable c")
  case True
  let ?c = "syncPreviousInstance api (kc_incr ''kafka_consumer_resets'' 1 c)"
  have "same_job c ?c" by (simp add: syncPreviousInstance_def kc_incr_def same_job_def)
  moreover have "c' = CreateRdKafkaConsumer fl files api (closePreviousInstance api ?c)"
    using True assms by (simp add: resetUnSeekedConsumer_def resetInstance_def reset_loop.simps Let_def)
  ultimately show ?thesis using same_job_trans [OF _ same_job_trans [OF close_fields create_fields]] by blast
qed (use assms in \<open>simp add: resetUnSeekedConsumer_def resetInstance_def same_job_def\<close>)

lemma Seek_offsets_tracks:
  assumes "rd_spec api pos avail" "Seek_offsets fl files api rnd los fs c = Some (True, fs', c')" "distinct (map fst los)"
    "distinct (map fst (last_known_consumed_offsets c))" "map_of los tp = Some i" "0 \<le> i"
  shows "tracks pos avail tp (i + 1) [] c'"
proof -
  let ?I = "\<lambda>c. distinct (map fst (last_known_consumed_offsets c))"
  let ?Q = "\<lambda>ok c'. ok \<longrightarrow> tracks pos avail tp (i + 1) [] c'"
  have sought: "tracks pos avail tp (i + 1) [] d'" if "?I d" "seek_offsets fl api los d = Some (True, d')" for d d'
    using seek_offsets_spec [OF assms(1) that(2) assms(3) that(1), THEN conjunct2, rule_format, of tp] assms(5,6)
      seek_offsets_spec [OF assms(1) that(2) assms(3) that(1), THEN conjunct1]
    by (simp add: tracks_def delivered_def del: map_of_eq_Some_iff)
  have distinct_kept: "?I d'" if "?I d" "seek_offsets fl api los d = Some (ok, d')" for ok d d'
    using that by (rule seek_offsets_distinct)
  have "?Q True c'"
  proof (rule reset_loop_around_inv [where I = ?I and Q = ?Q])
    fix c c' assume "?I c" and reset: "resetUnSeekedConsumer fl files api rnd c = Some c'"
    then show "?I c'" using resetUnSeekedConsumer_fields [OF reset] by (simp add: same_job_def)
  next
    fix c exit x c1 c2 assume "?I c" "seek_body fl [] (SeekInternal_offsets fl api los) c = Some (exit, x, c1, c2)"
    then show "?Q x c2 \<and> (exit \<noteq> Leave \<longrightarrow> ?I c1)"
      using sought [of c] distinct_kept [of c]
      by (fastforce simp: seek_body_def Let_def kc_incr_def SeekInternal_offsets_def split: option.splits if_splits)
  qed (use assms(2,4) in \<open>auto simp: Seek_offsets_def\<close>)
  then show ?thesis by simp
qed

section \<open>Properties\<close>

text \<open>
  (C7) After a successful seek to the offsets after the given ones, whatever messages, errors and time-outs the calls of
  \<open>Consume\<close> return and however often a watched file changes and the client is created again: for every partition sought,
  the messages handed out have ascending offsets, and every message of the partition from the one sought up to any one
  handed out has been handed out. Nothing is lost; a message may be handed out again after a reset.
\<close>

theorem kafka_at_least_once:
  assumes "rd_spec api pos avail" "Seek_offsets fl files api rnd los fs c = Some (True, fs1, c1)" "distinct (map fst los)"
    "distinct (map fst (last_known_consumed_offsets c))" "map_of los tp = Some i" "0 \<le> i"
    "consume_many fl files api rnd ts fs1 c1 = Some (ms, fs2, c2)"
  shows "sorted (delivered tp ms) \<and>
    (\<forall>n \<in> set (delivered tp ms). \<forall>x \<in> avail tp. i < x \<and> x \<le> n \<longrightarrow> x \<in> set (delivered tp ms))"
proof -
  have "tracks pos avail tp (i + 1) ([] @ ms) c2"
    by (rule consume_many_tracks [OF assms(1) Seek_offsets_tracks [OF assms(1-6)] assms(7)])
  then obtain co p where co: "co_offset co \<le> p" "sorted (delivered tp ms)" "\<forall>n \<in> set (delivered tp ms). n \<le> co_offset (co :: consumed_offset)"
    "\<forall>x \<in> avail tp. i + 1 \<le> x \<and> x < p \<longrightarrow> x \<in> set (delivered tp ms)"
    unfolding append_Nil by (rule tracksE)
  have "x \<in> set (delivered tp ms)" if n: "n \<in> set (delivered tp ms)" "x \<in> avail tp" "i < x" "x \<le> n" for n x
  proof (cases "x < p")
    case False
    with co(1) co(3) [rule_format, OF n(1)] n(4) have "x = n" by linarith
    with n(1) show ?thesis by simp
  qed (use co(4) n in simp)
  with co(2) show ?thesis by blast
qed

text \<open>One partition with a message at every offset from 0 on.\<close>

definition demo_partition :: topic_partition where
  "demo_partition = (''events'', 0)"

definition demo_message :: "int \<Rightarrow> kafka_message" where
  "demo_message i = \<lparr>msg_err = ERR_NO_ERROR, msg_topic_name = ''events'', msg_partition = 0, msg_offset = i, msg_create_time = True,
    msg_timestamp = 1000 + i, msg_key = ''k'', msg_payload = ''v''\<rparr>"

definition demo_rdkafka :: "int option rdkafka" where
  "demo_rdkafka = \<lparr>conf_set = (\<lambda>_ _. True), rk_create = (\<lambda>_ _. (True, None)), rk_assign = (\<lambda>_ _. (ERR_NO_ERROR, Some 0)),
    rk_seek = (\<lambda>(tp, i) w. if tp = demo_partition \<and> w \<noteq> None \<and> 0 \<le> i then (ERR_NO_ERROR, Some i) else (ERR_OTHER (-172), w)),
    rk_offsetsForTimes = (\<lambda>ps w. (ERR_NO_ERROR, ps, w)),
    rk_consume = (\<lambda>_ w. case w of None \<Rightarrow> (None, w) | Some p \<Rightarrow> (Some (demo_message p), Some (p + 1))),
    rk_close = id, rk_commitSync = id\<rparr>"

definition demo_pos :: "int option \<Rightarrow> topic_partition \<Rightarrow> int option" where
  "demo_pos w tp = (if tp = demo_partition then w else None)"

definition demo_kafka_flags :: kafka_flags where
  "demo_kafka_flags = \<lparr>kafka_consumer_num_retries = 1, kafka_consumer_reset_on_file_change = ''/etc/brokers'',
    enable_kafka_auto_offset_store = ''false'', kafka_client_global_config_file = [],
    consumer_stats_flags = \<lparr>kafka_stats_prefix = [], kafka_stats_suffix = [], kafka_cluster_name = []\<rparr>\<rparr>"

definition demo_consumer :: "int option kafka_consumer" where
  "demo_consumer = (case KafkaConsumer_ctor demo_kafka_flags (\<lambda>_. None) demo_rdkafka (\<lambda>_. 0) (False, [])
      (new_consumer demo_kafka_flags (\<lambda>_. None) demo_rdkafka [0] ''broker'' [''events''] ''g'' ''t'' None) of Some (_, c) \<Rightarrow> c)"

text \<open>The files change before the second of three calls.\<close>

definition demo_reset_flag :: reset_flag where
  "demo_reset_flag = (False, [False, False, True, False, False])"

lemma demo_rd_spec: "rd_spec demo_rdkafka demo_pos (\<lambda>_. {0..})"
  by (auto simp: rd_spec_def demo_rdkafka_def demo_pos_def demo_message_def seek_law_def consume_law_def demo_partition_def fun_eq_iff
      split: option.splits)

lemma demo_run:
  "map_option (\<lambda>(ok, fs, c). (ok, map_option fst (consume_many demo_kafka_flags (\<lambda>_. None) demo_rdkafka (\<lambda>_. 0) [50, 50, 50] fs c)))
     (Seek_offsets demo_kafka_flags (\<lambda>_. None) demo_rdkafka (\<lambda>_. 0) [(demo_partition, 4)] demo_reset_flag demo_consumer) =
   Some (True, Some [Some (demo_message 5), Some (demo_message 5), Some (demo_message 6)])"
  by code_simp

theorem kafka_at_least_once_witness:
  "\<exists>fs1 c1 ms fs2 c2.
     Seek_offsets demo_kafka_flags (\<lambda>_. None) demo_rdkafka (\<lambda>_. 0) [(demo_partition, 4)] demo_reset_flag demo_consumer = Some (True, fs1, c1) \<and>
     consume_many demo_kafka_flags (\<lambda>_. None) demo_rdkafka (\<lambda>_. 0) [50, 50, 50] fs1 c1 = Some (ms, fs2, c2) \<and>
     ms = [Some (demo_message 5), Some (demo_message 5), Some (demo_message 6)] \<and>
     sorted (delivered demo_partition ms) \<and>
     (\<forall>n \<in> set (delivered demo_partition ms). \<forall>x \<in> {0..}. 4 < x \<and> x \<le> n \<longrightarrow> x \<in> set (delivered demo_partition ms))"
proof -
  obtain fs1 c1 ms fs2 c2 where run:
    "Seek_offsets demo_kafka_flags (\<lambda>_. None) demo_rdkafka (\<lambda>_. 0) [(demo_partition, 4)] demo_reset_flag demo_consumer = Some (True, fs1, c1)"
    "consume_many demo_kafka_flags (\<lambda>_. None) demo_rdkafka (\<lambda>_. 0) [50, 50, 50] fs1 c1 = Some (ms, fs2, c2)"
    "ms = [Some (demo_message 5), Some (demo_message 5), Some (demo_message 6)]"
    using demo_run by fastforce
  have "distinct (map fst (last_known_consumed_offsets demo_consumer))" by code_simp
  then show ?thesis
    using kafka_at_least_once [OF demo_rd_spec run(1) _ _ _ _ run(2), of demo_partition 4] run by auto
qed

section \<open>Resets of partitions without a position\<close>

text \<open>
  When the files have changed and a partition has not been sought nor delivered a message, \<open>Consume\<close> does not return: the
  entry that the constructor makes for the partition is refused in every round of the loop of \<open>resetInstance\<close>.
\<close>

lemma Consume_never_returns:
  assumes "kc_resettable c" "kc_renewable c" "kc_instance c"
    "(tp, \<lparr>co_offset = -1, co_timestamp = -1\<rparr>) \<in> set (last_known_consumed_offsets c)"
  shows "Consume fl files api rnd timeout_ms (True, xs) c = None"
proof -
  have "resetSeekedConsumer fl files api rnd c = None"
    using assms(2,4) reset_loop_never [where cos = "last_known_consumed_offsets c"]
    by (cases "resetSeekedConsumer fl files api rnd c") (fastforce simp: resetSeekedConsumer_def resetInstance_def)+
  moreover obtain fs where "shouldResetAndExchange True (True, xs) = (True, fs)"
    by (cases xs) (auto simp: shouldResetAndExchange_def observe_def)
  ultimately show ?thesis
    using assms(1,3) by (simp add: Consume_def reset_loop_around.simps reset_while.simps isConsumerAvailable_def)
qed

text \<open>
  A seek that finds the files changed fails: the client is created again and no partition is assigned to it.
\<close>

lemma Seek_after_reset_fails:
  assumes "rd_spec api pos avail" "kc_resettable c" "kc_renewable c"
    "Seek_offsets fl files api rnd (p # last_offsets) (True, []) c = Some (ok, fs', c')"
  shows "\<not> ok"
proof -
  define c1 where "c1 = CreateRdKafkaConsumer fl files api (closePreviousInstance api (syncPreviousInstance api (kc_incr ''kafka_consumer_resets'' 1 c)))"
  have reset: "resetUnSeekedConsumer fl files api rnd c = Some c1"
    using assms(3) by (simp add: c1_def resetUnSeekedConsumer_def resetInstance_def reset_loop.simps Let_def)
  have while: "reset_while True (resetUnSeekedConsumer fl files api rnd) (True, []) c = Some ((False, []), c1)"
    by (simp add: reset_while.simps shouldResetAndExchange_def observe_def reset)
  have unassigned: "kc_instance c1 \<Longrightarrow> pos (kc_world c1) = Map.empty"
    unfolding c1_def
    by (rule create_cases [of fl files api "closePreviousInstance api (syncPreviousInstance api (kc_incr ''kafka_consumer_resets'' 1 c))"])
      (simp_all add: rd_specD(1) [OF assms(1) prod.collapse [symmetric]])
  have "\<not> ok" if "SeekInternal_offsets fl api (p # last_offsets) c1 = Some (ok, d)" for ok d
    using that unassigned KafkaSeekWithRetry_spec [OF assms(1), of fl "fst p" "snd p + 1" c1 ]
    by (cases p) (fastforce simp: SeekInternal_offsets_def isConsumerAvailable_def split: if_splits option.splits)
  then show ?thesis
    using assms(2,4) while
    by (auto simp: Seek_offsets_def reset_loop_around.simps seek_body_def Let_def shouldResetLoad_def observe_def split: option.splits if_splits)
qed

end
