(* ===== verification/Helix_Utils.thy ===== *)
theory Helix_Utils
  imports Admin_Utils
begin

text \<open>
  \<open>cluster_management/.../Utils.java\<close>: what the Helix participant of a service, a Java program, does with the admin services of
  the cluster. Helix, ZooKeeper, Curator's \<open>Locker\<close>, the clock and the network are parameters, collected in \<open>helix_env\<close>; they act
  on a world of type \<open>'w\<close>. What is sent to the admin services is kept in \<open>hx_calls\<close> with its outcome, and so are the views
  of the cluster that Helix returns.
\<close>

section \<open>Strings and numbers of Java\<close>

text \<open>\<open>String.split\<close> at a character: trailing empty strings are removed.\<close>

definition java_split :: "char \<Rightarrow> string \<Rightarrow> string list" where
  "java_split c s = (if c \<in> set s then rev (dropWhile (\<lambda>t. t = []) (rev (split_at c s))) else [s])"

text \<open>\<open>Integer.parseInt\<close>; \<open>None\<close> is a \<open>NumberFormatException\<close>.\<close>

definition parseInt :: "string \<Rightarrow> int option" where
  "parseInt s =
    (let (negative, digits) = (case s of
           [] \<Rightarrow> (False, [])
         | c # cs \<Rightarrow> if c = CHR ''-'' then (True, cs) else if c = CHR ''+'' then (False, cs) else (False, s));
         v = (if negative then - int (digits_value digits) else int (digits_value digits))
     in if digits = [] \<or> \<not> list_all is_digit digits \<or> v < - (2 ^ 31) \<or> 2 ^ 31 \<le> v then None else Some v)"

definition to_lower :: "char \<Rightarrow> char" where
  "to_lower c = (let n = (of_char c :: nat) in if 65 \<le> n \<and> n \<le> 90 then char_of (n + 32) else c)"

definition equalsIgnoreCase :: "string \<Rightarrow> string \<Rightarrow> bool" where
  "equalsIgnoreCase a b \<longleftrightarrow> map to_lower a = map to_lower b"

text \<open>The cast to \<open>short\<close>.\<close>

definition to_short :: "int \<Rightarrow> int" where
  "to_short i = signed_take_bit 15 i"

text \<open>\<open>None\<close>: an exception that is a \<open>RuntimeException\<close>.\<close>

definition getDbName :: "string \<Rightarrow> string option" where
  "getDbName partitionName =
    (if CHR ''_'' \<notin> set partitionName then None
     else let number = rev (takeWhile (\<lambda>c. c \<noteq> CHR ''_'') (rev partitionName))
          in map_option (\<lambda>n. take (length partitionName - length number - 1) partitionName @ show_padded 5 n) (parseInt number))"

definition getS3PartPrefix :: "string \<Rightarrow> string option" where
  "getS3PartPrefix partitionName =
    (let parts = java_split CHR ''_'' partitionName
     in if parts = [] then None else map_option (\<lambda>n. ''part-'' @ show_padded 5 n @ ''-'') (parseInt (last parts)))"

definition getMetaLocation :: "string \<Rightarrow> string \<Rightarrow> string" where
  "getMetaLocation cluster resourceName = ''/metadata/'' @ cluster @ ''/'' @ resourceName @ ''/resource_meta''"

section \<open>The environment\<close>

datatype java_exn = RuntimeExn | CheckedExn

datatype admin_code = E_DB_EXIST | E_DB_ERROR | E_OTHER

datatype thrift_exn = AdminExn admin_code | TTransportExn | TOtherExn

record db_status =
  st_seq_num :: int
  st_wal_ttl_seconds :: int
  st_last_update_timestamp_ms :: int
  st_is_master :: bool

datatype admin_call =
    ChangeDBRoleAndUpStream string string string int
  | AddDB string string string bool
  | BackupDB string string "int option"
  | BackupDBToS3 string string string "int option"
  | RestoreDB string string string int
  | RestoreDBFromS3 string string string string int
  | CloseDB string
  | ClearDB string bool
  | CompactDB string
  | AddS3SstFilesToDB string string string int
  | StartMessageIngestion string string string int bool
  | StopMessageIngestion string

datatype admin_event =
    Asked string int string "thrift_exn + int"
  | Checked string int string "thrift_exn + db_status"
  | Called string int admin_call "thrift_exn option"
  | Viewed "(string \<times> string) list"

record 'w helix_env =
  rpc_getSequenceNumber :: "string \<Rightarrow> int \<Rightarrow> string \<Rightarrow> 'w \<Rightarrow> (thrift_exn + int) \<times> 'w"
  rpc_checkDB :: "string \<Rightarrow> int \<Rightarrow> string \<Rightarrow> 'w \<Rightarrow> (thrift_exn + db_status) \<times> 'w"
  rpc_call :: "string \<Rightarrow> int \<Rightarrow> admin_call \<Rightarrow> 'w \<Rightarrow> thrift_exn option \<times> 'w"
  env_stateMap :: "string \<Rightarrow> string \<Rightarrow> string \<Rightarrow> 'w \<Rightarrow> (java_exn + (string \<times> string) list) \<times> 'w"
  env_acquire :: "string \<Rightarrow> 'w \<Rightarrow> java_exn option \<times> 'w"
  env_release :: "string \<Rightarrow> 'w \<Rightarrow> java_exn option \<times> 'w"
  env_sleep :: "'w \<Rightarrow> java_exn option \<times> 'w"
  env_currentTimeMillis :: "'w \<Rightarrow> int \<times> 'w"

record 'w hx =
  hx_world :: 'w
  hx_calls :: "admin_event list"

text \<open>Computations of Java: they return a value or throw.\<close>

type_synonym ('a, 'w) java = "'w hx \<Rightarrow> (java_exn + 'a) \<times> 'w hx"

definition jreturn :: "'a \<Rightarrow> ('a, 'w) java" where
  "jreturn x s = (Inr x, s)"

definition jthrow :: "java_exn \<Rightarrow> ('a, 'w) java" where
  "jthrow e s = (Inl e, s)"

definition jbind :: "('a, 'w) java \<Rightarrow> ('a \<Rightarrow> ('b, 'w) java) \<Rightarrow> ('b, 'w) java" where
  "jbind m f s = (case m s of (Inl e, s) \<Rightarrow> (Inl e, s) | (Inr x, s) \<Rightarrow> f x s)"

definition jthen :: "(unit, 'w) java \<Rightarrow> ('b, 'w) java \<Rightarrow> ('b, 'w) java" where
  "jthen m k = jbind m (\<lambda>_. k)"

definition or_throw :: "'a option \<Rightarrow> ('a, 'w) java" where
  "or_throw x = (case x of None \<Rightarrow> jthrow RuntimeExn | Some x \<Rightarrow> jreturn x)"

text \<open>A call of a library that may throw.\<close>

definition lib :: "('w \<Rightarrow> (java_exn + 'a) \<times> 'w) \<Rightarrow> ('a, 'w) java" where
  "lib f s = (let (r, w) = f (hx_world s) in (r, s\<lparr>hx_world := w\<rparr>))"

definition lib_unit :: "('w \<Rightarrow> java_exn option \<times> 'w) \<Rightarrow> (unit, 'w) java" where
  "lib_unit f = lib (\<lambda>w. let (e, w) = f w in (case e of None \<Rightarrow> Inr () | Some e \<Rightarrow> Inl e, w))"

section \<open>Calls of the admin services\<close>

definition call_seq :: "'w helix_env \<Rightarrow> string \<Rightarrow> int \<Rightarrow> string \<Rightarrow> 'w hx \<Rightarrow> (thrift_exn + int) \<times> 'w hx" where
  "call_seq env host port db s =
    (let (r, w) = rpc_getSequenceNumber env host port db (hx_world s) in (r, \<lparr>hx_world = w, hx_calls = hx_calls s @ [Asked host port db r]\<rparr>))"

definition call_check :: "'w helix_env \<Rightarrow> string \<Rightarrow> int \<Rightarrow> string \<Rightarrow> 'w hx \<Rightarrow> (thrift_exn + db_status) \<times> 'w hx" where
  "call_check env host port db s =
    (let (r, w) = rpc_checkDB env host port db (hx_world s) in (r, \<lparr>hx_world = w, hx_calls = hx_calls s @ [Checked host port db r]\<rparr>))"

definition call_admin :: "'w helix_env \<Rightarrow> string \<Rightarrow> int \<Rightarrow> admin_call \<Rightarrow> 'w hx \<Rightarrow> thrift_exn option \<times> 'w hx" where
  "call_admin env host port call s =
    (let (r, w) = rpc_call env host port call (hx_world s) in (r, \<lparr>hx_world = w, hx_calls = hx_calls s @ [Called host port call r]\<rparr>))"

text \<open>A failed call is logged and forgotten, or becomes a \<open>RuntimeException\<close>.\<close>

definition call_quietly :: "'w helix_env \<Rightarrow> string \<Rightarrow> int \<Rightarrow> admin_call \<Rightarrow> (unit, 'w) java" where
  "call_quietly env host port call s = (let (_, s) = call_admin env host port call s in (Inr (), s))"

definition call_or_throw :: "'w helix_env \<Rightarrow> string \<Rightarrow> int \<Rightarrow> admin_call \<Rightarrow> (unit, 'w) java" where
  "call_or_throw env host port call s =
    (case call_admin env host port call s of (None, s) \<Rightarrow> (Inr (), s) | (Some _, s) \<Rightarrow> (Inl RuntimeExn, s))"

definition clearDB :: "'w helix_env \<Rightarrow> string \<Rightarrow> int \<Rightarrow> (unit, 'w) java" where
  "clearDB env dbName adminPort = call_quietly env ''localhost'' adminPort (ClearDB dbName False)"

definition closeDB :: "'w helix_env \<Rightarrow> string \<Rightarrow> int \<Rightarrow> (unit, 'w) java" where
  "closeDB env dbName adminPort = call_quietly env ''localhost'' adminPort (CloseDB dbName)"

definition addDB_role :: "'w helix_env \<Rightarrow> string \<Rightarrow> int \<Rightarrow> string \<Rightarrow> (unit, 'w) java" where
  "addDB_role env dbName adminPort dbRole s =
    (if dbRole \<noteq> ''SLAVE'' \<and> dbRole \<noteq> ''NOOP'' then (Inl RuntimeExn, s)
     else case call_admin env ''localhost'' adminPort (AddDB dbName ''127.0.0.1'' dbRole False) s of
            (Some (AdminExn E_DB_ERROR), s) \<Rightarrow> call_quietly env ''localhost'' adminPort (AddDB dbName ''127.0.0.1'' dbRole True) s
          | (_, s) \<Rightarrow> (Inr (), s))"

definition addDB_slave :: "'w helix_env \<Rightarrow> string \<Rightarrow> int \<Rightarrow> (unit, 'w) java" where
  "addDB_slave env dbName adminPort = addDB_role env dbName adminPort ''SLAVE''"

definition getLatestSequenceNumber :: "'w helix_env \<Rightarrow> string \<Rightarrow> string \<Rightarrow> int \<Rightarrow> (int, 'w) java" where
  "getLatestSequenceNumber env dbName host adminPort s =
    (case call_seq env host adminPort dbName s of (Inl _, s) \<Rightarrow> (Inr (-1), s) | (Inr n, s) \<Rightarrow> (Inr n, s))"

definition getLocalLatestSequenceNumber :: "'w helix_env \<Rightarrow> string \<Rightarrow> int \<Rightarrow> (int, 'w) java" where
  "getLocalLatestSequenceNumber env dbName adminPort =
    jbind (getLatestSequenceNumber env dbName ''localhost'' adminPort) (\<lambda>seqNum. if seqNum = -1 then jthrow RuntimeExn else jreturn seqNum)"

definition changeDBRoleAndUpStream :: "'w helix_env \<Rightarrow> string \<Rightarrow> int \<Rightarrow> string \<Rightarrow> string \<Rightarrow> string \<Rightarrow> int \<Rightarrow> (unit, 'w) java" where
  "changeDBRoleAndUpStream env host adminPort dbName role upstreamIP upstreamPort =
    call_or_throw env host adminPort (ChangeDBRoleAndUpStream dbName role upstreamIP (to_short upstreamPort))"

definition checkLocalDB :: "'w helix_env \<Rightarrow> string \<Rightarrow> int \<Rightarrow> (db_status, 'w) java" where
  "checkLocalDB env dbName adminPort s =
    (case call_check env ''localhost'' adminPort dbName s of (Inl _, s) \<Rightarrow> (Inl RuntimeExn, s) | (Inr st, s) \<Rightarrow> (Inr st, s))"

definition isMasterReplica :: "'w helix_env \<Rightarrow> string \<Rightarrow> int \<Rightarrow> string \<Rightarrow> (bool, 'w) java" where
  "isMasterReplica env host adminPort dbName s =
    (case call_check env host adminPort dbName s of (Inl _, s) \<Rightarrow> (Inr False, s) | (Inr st, s) \<Rightarrow> (Inr (st_is_master st), s))"

definition backupDB :: "'w helix_env \<Rightarrow> string \<Rightarrow> int \<Rightarrow> string \<Rightarrow> string \<Rightarrow> (unit, 'w) java" where
  "backupDB env host adminPort dbName hdfsPath = call_or_throw env host adminPort (BackupDB dbName hdfsPath None)"

definition backupDBWithLimit :: "'w helix_env \<Rightarrow> string \<Rightarrow> int \<Rightarrow> string \<Rightarrow> string \<Rightarrow> int \<Rightarrow> (unit, 'w) java" where
  "backupDBWithLimit env host adminPort dbName hdfsPath limitMbs =
    call_or_throw env host adminPort (BackupDB dbName hdfsPath (Some limitMbs))"

definition restoreLocalDB :: "'w helix_env \<Rightarrow> int \<Rightarrow> string \<Rightarrow> string \<Rightarrow> string \<Rightarrow> int \<Rightarrow> (unit, 'w) java" where
  "restoreLocalDB env adminPort dbName hdfsPath upstreamHost upstreamPort =
    call_or_throw env ''localhost'' adminPort (RestoreDB dbName hdfsPath upstreamHost (to_short upstreamPort))"

definition backupDBToS3 :: "'w helix_env \<Rightarrow> string \<Rightarrow> int \<Rightarrow> string \<Rightarrow> string \<Rightarrow> string \<Rightarrow> (unit, 'w) java" where
  "backupDBToS3 env host adminPort dbName s3Bucket s3Path = call_or_throw env host adminPort (BackupDBToS3 dbName s3Bucket s3Path None)"

definition backupDBToS3WithLimit :: "'w helix_env \<Rightarrow> string \<Rightarrow> int \<Rightarrow> string \<Rightarrow> int \<Rightarrow> string \<Rightarrow> string \<Rightarrow> (unit, 'w) java" where
  "backupDBToS3WithLimit env host adminPort dbName limitMbs s3Bucket s3Path =
    call_or_throw env host adminPort (BackupDBToS3 dbName s3Bucket s3Path (Some limitMbs))"

definition restoreLocalDBFromS3 :: "'w helix_env \<Rightarrow> int \<Rightarrow> string \<Rightarrow> string \<Rightarrow> string \<Rightarrow> string \<Rightarrow> int \<Rightarrow> (unit, 'w) java" where
  "restoreLocalDBFromS3 env adminPort dbName s3Bucket s3Path upstreamHost upstreamPort =
    call_or_throw env ''localhost'' adminPort (RestoreDBFromS3 dbName s3Bucket s3Path upstreamHost (to_short upstreamPort))"

definition compactDB :: "'w helix_env \<Rightarrow> int \<Rightarrow> string \<Rightarrow> (unit, 'w) java" where
  "compactDB env adminPort dbName = call_or_throw env ''localhost'' adminPort (CompactDB dbName)"

definition getStateMap :: "'w helix_env \<Rightarrow> string \<Rightarrow> string \<Rightarrow> string \<Rightarrow> ((string \<times> string) list, 'w) java" where
  "getStateMap env cluster resourceName partitionName s =
    (case env_stateMap env cluster resourceName partitionName (hx_world s) of
       (Inl e, w) \<Rightarrow> (Inl e, s\<lparr>hx_world := w\<rparr>)
     | (Inr view, w) \<Rightarrow> (Inr view, \<lparr>hx_world = w, hx_calls = hx_calls s @ [Viewed view]\<rparr>))"

section \<open>Reasoning about runs\<close>

text \<open>Whatever a run returns and whatever it appends to the trace, \<open>P\<close> holds of them.\<close>

definition runs :: "('a, 'w) java \<Rightarrow> (java_exn + 'a \<Rightarrow> admin_event list \<Rightarrow> bool) \<Rightarrow> bool" where
  "runs m P \<longleftrightarrow> (\<forall>s r s'. m s = (r, s') \<longrightarrow> (\<exists>tr. hx_calls s' = hx_calls s @ tr \<and> P r tr))"

lemma runsI: "(\<And>s r s'. m s = (r, s') \<Longrightarrow> \<exists>tr. hx_calls s' = hx_calls s @ tr \<and> P r tr) \<Longrightarrow> runs m P"
  by (simp add: runs_def)

lemma runsD: "runs m P \<Longrightarrow> m s = (r, s') \<Longrightarrow> \<exists>tr. hx_calls s' = hx_calls s @ tr \<and> P r tr"
  by (simp add: runs_def)

lemma runs_mono: "runs m P \<Longrightarrow> (\<And>r tr. P r tr \<Longrightarrow> Q r tr) \<Longrightarrow> runs m Q"
  unfolding runs_def by blast

lemma runs_return: "P (Inr x) [] \<Longrightarrow> runs (jreturn x) P"
  by (auto simp: runs_def jreturn_def)

lemma runs_throw: "P (Inl e) [] \<Longrightarrow> runs (jthrow e) P"
  by (auto simp: runs_def jthrow_def)

lemma runs_bind:
  assumes "runs m (\<lambda>r tr. case r of Inl e \<Rightarrow> R (Inl e) tr | Inr x \<Rightarrow> runs (f x) (\<lambda>r tr'. R r (tr @ tr')))"
  shows "runs (jbind m f) R"
proof (rule runsI)
  fix s r s' assume run: "jbind m f s = (r, s')"
  obtain r1 s1 where m: "m s = (r1, s1)" by (cases "m s")
  with runsD [OF assms] obtain tr where tr: "hx_calls s1 = hx_calls s @ tr"
    "case r1 of Inl e \<Rightarrow> R (Inl e) tr | Inr x \<Rightarrow> runs (f x) (\<lambda>r tr'. R r (tr @ tr'))" by blast
  show "\<exists>tr. hx_calls s' = hx_calls s @ tr \<and> R r tr"
  proof (cases r1)
    case (Inl e)
    with run m tr show ?thesis by (auto simp: jbind_def)
  next
    case (Inr x)
    with run m have "f x s1 = (r, s')" by (simp add: jbind_def)
    with runsD [of "f x"] tr Inr obtain tr' where "hx_calls s' = hx_calls s1 @ tr'" "R r (tr @ tr')" by fastforce
    with tr show ?thesis by (intro exI [of _ "tr @ tr'"]) simp
  qed
qed

lemma runs_then:
  "runs m (\<lambda>r tr. case r of Inl e \<Rightarrow> R (Inl e) tr | Inr _ \<Rightarrow> runs k (\<lambda>r tr'. R r (tr @ tr'))) \<Longrightarrow> runs (jthen m k) R"
  unfolding jthen_def by (rule runs_bind)

lemma runs_or_throw: "(\<And>y. x = Some y \<Longrightarrow> P (Inr y) []) \<Longrightarrow> (x = None \<Longrightarrow> P (Inl RuntimeExn) []) \<Longrightarrow> runs (or_throw x) P"
  by (cases x) (auto simp: or_throw_def intro: runs_return runs_throw)

lemma runs_lib: "(\<And>r. P r []) \<Longrightarrow> runs (lib f) P"
  by (auto simp: runs_def lib_def split: prod.splits)

lemma runs_lib_unit: "(\<And>r. P r []) \<Longrightarrow> runs (lib_unit f) P"
  by (simp add: lib_unit_def runs_lib)

lemma runs_call_or_throw:
  "P (Inr ()) [Called host port call None] \<Longrightarrow> (\<And>e. P (Inl RuntimeExn) [Called host port call (Some e)]) \<Longrightarrow>
   runs (call_or_throw env host port call) P"
  by (auto simp: runs_def call_or_throw_def call_admin_def split: prod.splits option.splits)

lemma runs_call_quietly: "(\<And>res. P (Inr ()) [Called host port call res]) \<Longrightarrow> runs (call_quietly env host port call) P"
  by (auto simp: runs_def call_quietly_def call_admin_def split: prod.splits)

lemma runs_getLatestSequenceNumber:
  "(\<And>n. P (Inr n) [Asked host port db (Inr n)]) \<Longrightarrow> (\<And>e. P (Inr (-1)) [Asked host port db (Inl e)]) \<Longrightarrow>
   runs (getLatestSequenceNumber env db host port) P"
  by (auto simp: runs_def getLatestSequenceNumber_def call_seq_def split: prod.splits sum.splits)

lemma runs_getLocalLatestSequenceNumber:
  assumes "\<And>n. n \<noteq> -1 \<Longrightarrow> P (Inr n) [Asked ''localhost'' port db (Inr n)]" "\<And>a. P (Inl RuntimeExn) [Asked ''localhost'' port db a]"
  shows "runs (getLocalLatestSequenceNumber env db port) P"
  unfolding getLocalLatestSequenceNumber_def
  by (rule runs_bind, rule runs_getLatestSequenceNumber) (auto intro!: runs_return runs_throw simp: assms)

lemma runs_getStateMap:
  "(\<And>view. P (Inr view) [Viewed view]) \<Longrightarrow> (\<And>e. P (Inl e) []) \<Longrightarrow> runs (getStateMap env cluster resource part) P"
  by (auto simp: runs_def getStateMap_def split: prod.splits sum.splits)

lemmas runs_intros = runs_return runs_throw runs_bind runs_then runs_or_throw runs_lib runs_lib_unit runs_call_or_throw runs_call_quietly
  runs_getLatestSequenceNumber runs_getLocalLatestSequenceNumber runs_getStateMap

lemmas java_defs = jbind_def jthen_def jreturn_def jthrow_def or_throw_def lib_def lib_unit_def call_or_throw_def call_quietly_def call_admin_def
  call_seq_def call_check_def getLatestSequenceNumber_def getLocalLatestSequenceNumber_def getStateMap_def changeDBRoleAndUpStream_def

end
