(* ===== verification/State_Models.thy ===== *)
theory State_Models
  imports Helix_Utils
begin

text \<open>
  The state models of the Helix participant, \<open>cluster_management/.../MasterSlaveStateModelFactory.java\<close> and its siblings for
  caches, for databases that are loaded and for those that in addition follow a Kafka topic: what a replica does when
  the controller moves it from one state to another. A handler that returns makes Helix record the new state; one that
  throws makes it record an error.
\<close>

section \<open>The state model\<close>

record state_model =
  sm_resourceName :: string
  sm_partitionName :: string
  sm_host :: string
  sm_adminPort :: int
  sm_cluster :: string
  sm_useS3Backup :: bool
  sm_s3Bucket :: string

definition getLockPath :: "string \<Rightarrow> string \<Rightarrow> string \<Rightarrow> string" where
  "getLockPath cluster resourceName partitionName =
    ''/rocksplicator/'' @ cluster @ ''/'' @ resourceName @ ''/'' @ partitionName @ ''/lock''"

definition sm_lock :: "state_model \<Rightarrow> string" where
  "sm_lock sm = getLockPath (sm_cluster sm) (sm_resourceName sm) (sm_partitionName sm)"

text \<open>\<open>try (Locker locker = new Locker(partitionMutex)) { body }\<close>: an exception of the body wins over one of the release.\<close>

definition with_lock :: "'w helix_env \<Rightarrow> state_model \<Rightarrow> ('a, 'w) java \<Rightarrow> ('a, 'w) java" where
  "with_lock env sm body =
    jthen (lib_unit (env_acquire env (sm_lock sm)))
      (\<lambda>s. case body s of
         (Inl e, s) \<Rightarrow> let (_, s) = lib_unit (env_release env (sm_lock sm)) s in (Inl e, s)
       | (Inr x, s) \<Rightarrow> jthen (lib_unit (env_release env (sm_lock sm))) (jreturn x) s)"

text \<open>\<open>catch (RuntimeException e) { throw e; } catch (Exception e) { ... }\<close>, and \<open>catch (Exception e) { ... }\<close>.\<close>

definition catch_checked :: "(unit, 'w) java \<Rightarrow> (unit, 'w) java" where
  "catch_checked m s = (case m s of (Inl CheckedExn, s) \<Rightarrow> (Inr (), s) | r \<Rightarrow> r)"

definition catch_all :: "(unit, 'w) java \<Rightarrow> (unit, 'w) java" where
  "catch_all m s = (case m s of (Inl _, s) \<Rightarrow> (Inr (), s) | r \<Rightarrow> r)"

definition catch_runtime :: "(unit, 'w) java \<Rightarrow> (unit, 'w) java" where
  "catch_runtime m s = (case m s of (Inl RuntimeExn, s) \<Rightarrow> (Inr (), s) | r \<Rightarrow> r)"

definition stateMap :: "'w helix_env \<Rightarrow> state_model \<Rightarrow> ((string \<times> string) list, 'w) java" where
  "stateMap env sm = getStateMap env (sm_cluster sm) (sm_resourceName sm) (sm_partitionName sm)"

text \<open>\<open>split("_")[0]\<close> and \<open>Integer.parseInt(split("_")[1])\<close> of the name of an instance.\<close>

definition instance_host :: "string \<Rightarrow> string option" where
  "instance_host instanceName = (case java_split CHR ''_'' instanceName of [] \<Rightarrow> None | h # _ \<Rightarrow> Some h)"

definition instance_port :: "string \<Rightarrow> int option" where
  "instance_port instanceName = (case java_split CHR ''_'' instanceName of _ # p # _ \<Rightarrow> parseInt p | _ \<Rightarrow> None)"

definition host_and_port :: "string \<Rightarrow> (string \<times> int, 'w) java" where
  "host_and_port instanceName =
    jbind (or_throw (instance_host instanceName)) (\<lambda>host. jbind (or_throw (instance_port instanceName)) (\<lambda>port. jreturn (host, port)))"

section \<open>Slave to master\<close>

primrec wait_for_no_master :: "'w helix_env \<Rightarrow> state_model \<Rightarrow> nat \<Rightarrow> ((string \<times> string) list, 'w) java" where
  "wait_for_no_master env sm 0 = jthrow RuntimeExn"
| "wait_for_no_master env sm (Suc rounds) =
    jbind (stateMap env sm) (\<lambda>view.
      if ''MASTER'' \<notin> set (map snd view) then jreturn view
      else if rounds = 0 then jthrow RuntimeExn
      else jthen (lib_unit (env_sleep env)) (wait_for_no_master env sm rounds))"

fun find_highest :: "'w helix_env \<Rightarrow> state_model \<Rightarrow> string \<Rightarrow> string list \<Rightarrow> string option \<Rightarrow> int \<Rightarrow> (string option \<times> int, 'w) java" where
  "find_highest env sm dbName [] hostWithHighestSeq highestSeq = jreturn (hostWithHighestSeq, highestSeq)"
| "find_highest env sm dbName (instanceName # names) hostWithHighestSeq highestSeq =
    jbind (host_and_port instanceName) (\<lambda>(hostName, port).
      if sm_host sm = hostName then find_highest env sm dbName names hostWithHighestSeq highestSeq
      else jbind (getLatestSequenceNumber env dbName hostName port) (\<lambda>seq.
        if seq = -1 then find_highest env sm dbName names hostWithHighestSeq highestSeq
        else if highestSeq < seq then find_highest env sm dbName names (Some hostName) seq
        else find_highest env sm dbName names hostWithHighestSeq highestSeq))"

text \<open>The rounds of waiting; the result is the last local sequence number.\<close>

primrec catch_up :: "'w helix_env \<Rightarrow> state_model \<Rightarrow> string \<Rightarrow> int \<Rightarrow> nat \<Rightarrow> int \<Rightarrow> (int, 'w) java" where
  "catch_up env sm dbName highestSeq 0 localSeq = jreturn localSeq"
| "catch_up env sm dbName highestSeq (Suc rounds) localSeq =
    jthen (lib_unit (env_sleep env)) (jbind (getLocalLatestSequenceNumber env dbName (sm_adminPort sm)) (\<lambda>localSeq.
      if highestSeq \<le> localSeq then jreturn localSeq else catch_up env sm dbName highestSeq rounds localSeq))"

definition is_slave_or_offline :: "string \<Rightarrow> bool" where
  "is_slave_or_offline role \<longleftrightarrow> equalsIgnoreCase role ''SLAVE'' \<or> equalsIgnoreCase role ''OFFLINE''"

text \<open>
  Setting the upstream of all instances but those on the hosts \<open>excluded\<close>; the exceptions of the calls are logged only.
\<close>

fun redirect :: "'w helix_env \<Rightarrow> string \<Rightarrow> string list \<Rightarrow> string \<Rightarrow> int \<Rightarrow> (string \<times> string) list \<Rightarrow> (unit, 'w) java" where
  "redirect env dbName excluded upstream upstreamPort [] = jreturn ()"
| "redirect env dbName excluded upstream upstreamPort ((instanceName, role) # view) =
    jbind (host_and_port instanceName) (\<lambda>(hostName, port).
      if hostName \<in> set excluded then redirect env dbName excluded upstream upstreamPort view
      else jthen
        (catch_runtime (if is_slave_or_offline role
           then changeDBRoleAndUpStream env hostName port dbName ''SLAVE'' upstream upstreamPort else jreturn ()))
        (redirect env dbName excluded upstream upstreamPort view))"

definition follow_highest :: "'w helix_env \<Rightarrow> state_model \<Rightarrow> string \<Rightarrow> int \<Rightarrow> string option \<times> int \<Rightarrow> (unit, 'w) java" where
  "follow_highest env sm dbName localSeq found =
    (case found of
       (None, _) \<Rightarrow> jreturn ()
     | (Some hostWithHighestSeq, highestSeq) \<Rightarrow>
         jthen (changeDBRoleAndUpStream env ''localhost'' (sm_adminPort sm) dbName ''SLAVE'' hostWithHighestSeq (sm_adminPort sm))
           (jbind (catch_up env sm dbName highestSeq 600 localSeq) (\<lambda>localSeq.
             if highestSeq > localSeq then jthrow RuntimeExn else jreturn ())))"

definition become_master :: "'w helix_env \<Rightarrow> state_model \<Rightarrow> (unit, 'w) java" where
  "become_master env sm =
    jbind (wait_for_no_master env sm 60) (\<lambda>view.
    jbind (or_throw (getDbName (sm_partitionName sm))) (\<lambda>dbName.
    jbind (getLocalLatestSequenceNumber env dbName (sm_adminPort sm)) (\<lambda>localSeq.
    jbind (find_highest env sm dbName (map fst view) None localSeq) (\<lambda>found.
    jthen (follow_highest env sm dbName localSeq found)
   (jthen (changeDBRoleAndUpStream env ''localhost'' (sm_adminPort sm) dbName ''MASTER'' [] (sm_adminPort sm))
          (redirect env dbName [sm_host sm] (sm_host sm) (sm_adminPort sm) view))))))"

definition onBecomeMasterFromSlave :: "'w helix_env \<Rightarrow> state_model \<Rightarrow> (unit, 'w) java" where
  "onBecomeMasterFromSlave env sm = catch_checked (with_lock env sm (become_master env sm))"

definition onBecomeSlaveFromMaster :: "'w helix_env \<Rightarrow> state_model \<Rightarrow> (unit, 'w) java" where
  "onBecomeSlaveFromMaster env sm = catch_checked (with_lock env sm
    (jbind (or_throw (getDbName (sm_partitionName sm))) (\<lambda>dbName.
      changeDBRoleAndUpStream env ''localhost'' (sm_adminPort sm) dbName ''SLAVE'' ''127.0.0.1'' (sm_adminPort sm))))"

section \<open>Offline to slave\<close>

definition is_live_role :: "string \<Rightarrow> bool" where
  "is_live_role role \<longleftrightarrow> equalsIgnoreCase role ''MASTER'' \<or> equalsIgnoreCase role ''SLAVE'' \<or> equalsIgnoreCase role ''OFFLINE''"

fun live_replicas :: "'w helix_env \<Rightarrow> state_model \<Rightarrow> string \<Rightarrow> (string \<times> string) list \<Rightarrow> ((string \<times> string) list, 'w) java" where
  "live_replicas env sm dbName [] = jreturn []"
| "live_replicas env sm dbName ((hostPort, role) # view) =
    (if \<not> is_live_role role then live_replicas env sm dbName view
     else jbind (host_and_port hostPort) (\<lambda>(host, port).
       if sm_host sm = host then live_replicas env sm dbName view
       else jbind (getLatestSequenceNumber env dbName host port) (\<lambda>seq.
         if seq \<noteq> -1 then jbind (live_replicas env sm dbName view) (\<lambda>live. jreturn ((hostPort, role) # live))
         else live_replicas env sm dbName view)))"

text \<open>The first master, or else the last of all; \<open>liveHostAndRole\<close> is listed in the order of its iteration.\<close>

fun choose_upstream :: "(string \<times> string) list \<Rightarrow> string option \<Rightarrow> string option" where
  "choose_upstream [] upstream = upstream"
| "choose_upstream ((hostPort, role) # live) upstream =
    (if equalsIgnoreCase role ''MASTER'' then Some hostPort else choose_upstream live (Some hostPort))"

definition upstream_address :: "state_model \<Rightarrow> string option \<Rightarrow> (string \<times> int, 'w) java" where
  "upstream_address sm upstream =
    (case upstream of None \<Rightarrow> jreturn (''127.0.0.1'', sm_adminPort sm) | Some hostPort \<Rightarrow> host_and_port hostPort)"

definition need_rebuild :: "'w helix_env \<Rightarrow> string \<Rightarrow> (string \<times> string) list \<Rightarrow> db_status \<Rightarrow> string \<Rightarrow> int \<Rightarrow> (bool, 'w) java" where
  "need_rebuild env dbName live localStatus upstreamHost upstreamPort =
    (if live = [] then jreturn False
     else jbind (lib (\<lambda>w. let (t, w) = env_currentTimeMillis env w in (Inr t, w))) (\<lambda>now.
       if now < st_last_update_timestamp_ms localStatus + st_wal_ttl_seconds localStatus * 1000 then jreturn False
       else jbind (getLatestSequenceNumber env dbName upstreamHost upstreamPort) (\<lambda>seq. jreturn (st_seq_num localStatus \<noteq> seq))))"

text \<open>
  One round under the lock: \<open>None\<close> if the replica has become a slave, or the host and port to rebuild from. \<open>iteration\<close> is the
  order in which the hash map of live replicas is iterated.
\<close>

definition slave_round ::
  "'w helix_env \<Rightarrow> ((string \<times> string) list \<Rightarrow> (string \<times> string) list) \<Rightarrow> state_model \<Rightarrow> string \<Rightarrow> ((string \<times> int) option, 'w) java" where
  "slave_round env iteration sm dbName =
    jthen (addDB_slave env dbName (sm_adminPort sm))
   (jbind (stateMap env sm) (\<lambda>view.
    jbind (live_replicas env sm dbName view) (\<lambda>live.
    jbind (upstream_address sm (choose_upstream (iteration live) None)) (\<lambda>(upstreamHost, upstreamPort).
    jbind (checkLocalDB env dbName (sm_adminPort sm)) (\<lambda>localStatus.
    jbind (need_rebuild env dbName live localStatus upstreamHost upstreamPort) (\<lambda>needRebuild.
      if \<not> needRebuild
      then jthen (changeDBRoleAndUpStream env ''localhost'' (sm_adminPort sm) dbName ''SLAVE'' upstreamHost upstreamPort) (jreturn None)
      else jreturn (Some (upstreamHost, upstreamPort))))))))"

text \<open>Every exception becomes a \<open>RuntimeException\<close>.\<close>

definition as_runtime :: "('a, 'w) java \<Rightarrow> ('a, 'w) java" where
  "as_runtime m s = (case m s of (Inl _, s) \<Rightarrow> (Inl RuntimeExn, s) | r \<Rightarrow> r)"

definition rebuild :: "'w helix_env \<Rightarrow> state_model \<Rightarrow> string \<Rightarrow> string \<Rightarrow> int \<Rightarrow> (unit, 'w) java" where
  "rebuild env sm dbName snapshotHost snapshotPort =
    jbind (lib (\<lambda>w. let (t, w) = env_currentTimeMillis env w in (Inr t, w))) (\<lambda>now.
      let path = sm_cluster sm @ ''/'' @ dbName @ ''/'' @ snapshotHost @ ''_'' @ show_int snapshotPort @ ''/'' @ show_int now
      in if \<not> sm_useS3Backup sm
         then jthen (backupDB env snapshotHost snapshotPort dbName (''/rocksplicator/'' @ path))
             (jthen (closeDB env dbName (sm_adminPort sm))
               (restoreLocalDB env (sm_adminPort sm) dbName (''/rocksplicator/'' @ path) snapshotHost snapshotPort))
         else jthen (backupDBToS3 env snapshotHost snapshotPort dbName (sm_s3Bucket sm) (''backup/'' @ path))
             (jthen (closeDB env dbName (sm_adminPort sm))
               (restoreLocalDBFromS3 env (sm_adminPort sm) dbName (sm_s3Bucket sm) (''backup/'' @ path) snapshotHost snapshotPort)))"

text \<open>The first \<open>rounds\<close> rounds of the loop; the result tells whether it has been left.\<close>

primrec slave_loop ::
  "'w helix_env \<Rightarrow> ((string \<times> string) list \<Rightarrow> (string \<times> string) list) \<Rightarrow> state_model \<Rightarrow> string \<Rightarrow> nat \<Rightarrow> (bool, 'w) java" where
  "slave_loop env iteration sm dbName 0 = jreturn False"
| "slave_loop env iteration sm dbName (Suc rounds) =
    jbind (as_runtime (with_lock env sm (slave_round env iteration sm dbName))) (\<lambda>snapshot.
      case snapshot of
        None \<Rightarrow> jreturn True
      | Some (snapshotHost, snapshotPort) \<Rightarrow>
          jthen (rebuild env sm dbName snapshotHost snapshotPort) (slave_loop env iteration sm dbName rounds))"

definition onBecomeSlaveFromOffline ::
  "'w helix_env \<Rightarrow> ((string \<times> string) list \<Rightarrow> (string \<times> string) list) \<Rightarrow> nat \<Rightarrow> state_model \<Rightarrow> (bool, 'w) java" where
  "onBecomeSlaveFromOffline env iteration rounds sm =
    jbind (or_throw (getDbName (sm_partitionName sm))) (\<lambda>dbName. slave_loop env iteration sm dbName rounds)"

section \<open>The other transitions\<close>

fun offline_upstream ::
  "'w helix_env \<Rightarrow> state_model \<Rightarrow> string \<Rightarrow> (string \<times> string) list \<Rightarrow> string option \<Rightarrow> (string option, 'w) java" where
  "offline_upstream env sm dbName [] upstream = jreturn upstream"
| "offline_upstream env sm dbName ((hostPort, role) # view) upstream =
    jbind (host_and_port hostPort) (\<lambda>(hostName, port).
      if sm_host sm = hostName then offline_upstream env sm dbName view upstream
      else jbind (getLatestSequenceNumber env dbName hostName port) (\<lambda>seq.
        if seq = -1 then offline_upstream env sm dbName view upstream
        else if equalsIgnoreCase role ''MASTER'' then jreturn (Some hostPort)
        else if equalsIgnoreCase role ''SLAVE''
        then jbind (isMasterReplica env hostName port dbName) (\<lambda>master.
               if master then jreturn (Some hostPort) else offline_upstream env sm dbName view (Some hostPort))
        else offline_upstream env sm dbName view upstream))"

definition become_offline :: "'w helix_env \<Rightarrow> state_model \<Rightarrow> (unit, 'w) java" where
  "become_offline env sm =
    jbind (stateMap env sm) (\<lambda>view.
    jbind (or_throw (getDbName (sm_partitionName sm))) (\<lambda>dbName.
    jbind (offline_upstream env sm dbName view None) (\<lambda>upstream.
    jthen (case upstream of
             None \<Rightarrow> jreturn ()
           | Some hostPort \<Rightarrow> jbind (host_and_port hostPort) (\<lambda>(upstreamName, upstreamPort).
               redirect env dbName [sm_host sm, upstreamName] upstreamName upstreamPort view))
          (closeDB env dbName (sm_adminPort sm)))))"

definition onBecomeOfflineFromSlave :: "'w helix_env \<Rightarrow> state_model \<Rightarrow> (unit, 'w) java" where
  "onBecomeOfflineFromSlave env sm = catch_all (with_lock env sm (become_offline env sm))"

definition onBecomeDroppedFromOffline :: "'w helix_env \<Rightarrow> state_model \<Rightarrow> (unit, 'w) java" where
  "onBecomeDroppedFromOffline env sm = catch_all (with_lock env sm
    (jbind (or_throw (getDbName (sm_partitionName sm))) (\<lambda>dbName. clearDB env dbName (sm_adminPort sm))))"

definition onBecomeOfflineFromError :: "'w helix_env \<Rightarrow> state_model \<Rightarrow> (unit, 'w) java" where
  "onBecomeOfflineFromError env sm = catch_all (with_lock env sm
    (jbind (or_throw (getDbName (sm_partitionName sm))) (\<lambda>dbName. closeDB env dbName (sm_adminPort sm))))"

definition onBecomeDroppedFromError :: "'w helix_env \<Rightarrow> state_model \<Rightarrow> (unit, 'w) java" where
  "onBecomeDroppedFromError = onBecomeDroppedFromOffline"

section \<open>Databases that are loaded\<close>

text \<open>
  The metadata of a resource in ZooKeeper, as Gson gives access to it. \<open>None\<close> is an exception; for the limit, \<open>Some None\<close> is a
  missing member.
\<close>

record resource_meta =
  meta_string :: "string \<Rightarrow> string option"
  meta_long :: "string \<Rightarrow> int option"
  meta_boolean :: "string \<Rightarrow> bool option"
  meta_limit :: "int option option"

record 'w zookeeper =
  zk_sync :: "string \<Rightarrow> 'w \<Rightarrow> java_exn option \<times> 'w"
  zk_getData :: "string \<Rightarrow> 'w \<Rightarrow> (java_exn + resource_meta) \<times> 'w"

definition download_limit :: "resource_meta \<Rightarrow> int" where
  "download_limit meta = (case meta_limit meta of Some (Some n) \<Rightarrow> n | _ \<Rightarrow> 64)"

definition load_sst_files :: "'w helix_env \<Rightarrow> 'w zookeeper \<Rightarrow> state_model \<Rightarrow> string \<Rightarrow> (unit, 'w) java" where
  "load_sst_files env zk sm dbName =
    (let location = getMetaLocation (sm_cluster sm) (sm_resourceName sm)
     in jthen (lib_unit (zk_sync zk location))
       (jbind (lib (zk_getData zk location)) (\<lambda>meta.
        jbind (or_throw (meta_string meta ''s3_path'')) (\<lambda>s3Path.
        jbind (or_throw (meta_string meta ''s3_bucket'')) (\<lambda>s3Bucket.
        jbind (or_throw (getS3PartPrefix (sm_partitionName sm))) (\<lambda>prefix.
          call_or_throw env ''localhost'' (sm_adminPort sm) (AddS3SstFilesToDB dbName s3Bucket (s3Path @ prefix) (download_limit meta))))))))"

definition load_transition :: "'w helix_env \<Rightarrow> 'w zookeeper \<Rightarrow> string \<Rightarrow> state_model \<Rightarrow> (unit, 'w) java" where
  "load_transition env zk role sm =
    jbind (or_throw (getDbName (sm_partitionName sm))) (\<lambda>dbName.
      jthen (addDB_role env dbName (sm_adminPort sm) role) (as_runtime (load_sst_files env zk sm dbName)))"

definition onBecomeBootstrapFromOffline :: "'w helix_env \<Rightarrow> 'w zookeeper \<Rightarrow> state_model \<Rightarrow> (unit, 'w) java" where
  "onBecomeBootstrapFromOffline env zk = load_transition env zk ''NOOP''"

definition onBecomeOnlineFromOffline :: "'w helix_env \<Rightarrow> 'w zookeeper \<Rightarrow> state_model \<Rightarrow> (unit, 'w) java" where
  "onBecomeOnlineFromOffline env zk = load_transition env zk ''SLAVE''"

definition stop_ingestion :: "'w helix_env \<Rightarrow> state_model \<Rightarrow> (unit, 'w) java" where
  "stop_ingestion env sm =
    jbind (or_throw (getDbName (sm_partitionName sm))) (\<lambda>dbName.
      jthen (call_or_throw env ''localhost'' (sm_adminPort sm) (StopMessageIngestion dbName)) (closeDB env dbName (sm_adminPort sm)))"

definition Bootstrap_onBecomeOfflineFromOnline :: "'w helix_env \<Rightarrow> state_model \<Rightarrow> (unit, 'w) java" where
  "Bootstrap_onBecomeOfflineFromOnline = stop_ingestion"

definition onBecomeOfflineFromBootstrap :: "'w helix_env \<Rightarrow> state_model \<Rightarrow> (unit, 'w) java" where
  "onBecomeOfflineFromBootstrap = stop_ingestion"

definition onBecomeOnlineFromBootstrap :: "'w helix_env \<Rightarrow> 'w zookeeper \<Rightarrow> state_model \<Rightarrow> (unit, 'w) java" where
  "onBecomeOnlineFromBootstrap env zk sm = as_runtime
    (jbind (lib (zk_getData zk (getMetaLocation (sm_cluster sm) (sm_resourceName sm)))) (\<lambda>meta.
     jbind (or_throw (meta_long meta ''replay_timestamp_ms'')) (\<lambda>replay_timestamp_ms.
     jbind (or_throw (meta_string meta ''kafka_broker_serverset_path'')) (\<lambda>kafkaBrokerServersetPath.
     jbind (or_throw (meta_string meta ''topic_name'')) (\<lambda>topicName.
     jbind (or_throw (meta_boolean meta ''is_kafka_payload_serialized'')) (\<lambda>isKafkaPayloadSerialized.
     jbind (or_throw (getDbName (sm_partitionName sm))) (\<lambda>dbName.
       call_or_throw env ''localhost'' (sm_adminPort sm)
         (StartMessageIngestion dbName topicName kafkaBrokerServersetPath replay_timestamp_ms isKafkaPayloadSerialized))))))))"

definition OnlineOffline_onBecomeOfflineFromOnline :: "'w helix_env \<Rightarrow> state_model \<Rightarrow> (unit, 'w) java" where
  "OnlineOffline_onBecomeOfflineFromOnline env sm =
    jbind (or_throw (getDbName (sm_partitionName sm))) (\<lambda>dbName. closeDB env dbName (sm_adminPort sm))"

text \<open>Dropping, in both of these models and from both states.\<close>

definition loaded_onBecomeDropped :: "'w helix_env \<Rightarrow> state_model \<Rightarrow> (unit, 'w) java" where
  "loaded_onBecomeDropped env sm =
    jbind (or_throw (getDbName (sm_partitionName sm))) (\<lambda>dbName. clearDB env dbName (sm_adminPort sm))"

text \<open>Recovering from an error, and all transitions of a cache: nothing but logging.\<close>

definition idle_transition :: "(unit, 'w) java" where
  "idle_transition = jreturn ()"

section \<open>Tasks\<close>

record shard_task =
  tk_partitionName :: string
  tk_srcStorePathPrefix :: string
  tk_destStorePathPrefix :: string
  tk_resourceVersion :: int
  tk_backupLimitMbs :: int
  tk_adminPort :: int
  tk_useS3Store :: bool
  tk_s3Bucket :: string

datatype task_status = COMPLETED | CANCELED | FAILED

definition as_status :: "(unit, 'w) java \<Rightarrow> (task_status, 'w) java" where
  "as_status m s = (case m s of (Inr (), s) \<Rightarrow> (Inr COMPLETED, s) | (Inl _, s) \<Rightarrow> (Inr FAILED, s))"

definition store_path :: "string \<Rightarrow> shard_task \<Rightarrow> string \<Rightarrow> string" where
  "store_path pathPrefix tk dbName = pathPrefix @ ''/'' @ show_int (tk_resourceVersion tk) @ ''/'' @ dbName"

definition executeBackup :: "'w helix_env \<Rightarrow> shard_task \<Rightarrow> string \<Rightarrow> string \<Rightarrow> (unit, 'w) java" where
  "executeBackup env tk dbName storePath =
    (if tk_useS3Store tk then backupDBToS3WithLimit env ''127.0.0.1'' (tk_adminPort tk) dbName (tk_backupLimitMbs tk) (tk_s3Bucket tk) storePath
     else backupDBWithLimit env ''127.0.0.1'' (tk_adminPort tk) dbName storePath (tk_backupLimitMbs tk))"

definition BackupTask_run :: "'w helix_env \<Rightarrow> shard_task \<Rightarrow> (task_status, 'w) java" where
  "BackupTask_run env tk =
    jbind (or_throw (getDbName (tk_partitionName tk))) (\<lambda>dbName.
      if tk_destStorePathPrefix tk = [] then jreturn CANCELED
      else as_status (executeBackup env tk dbName (store_path (tk_destStorePathPrefix tk) tk dbName)))"

definition executeDedup :: "'w helix_env \<Rightarrow> shard_task \<Rightarrow> string \<Rightarrow> string \<Rightarrow> string \<Rightarrow> (unit, 'w) java" where
  "executeDedup env tk dbName srcStorePath destStorePath =
    (let port = tk_adminPort tk
     in jthen (addDB_slave env dbName port)
       (jthen (closeDB env dbName port)
       (jthen (if tk_useS3Store tk then restoreLocalDBFromS3 env port dbName (tk_s3Bucket tk) srcStorePath ''127.0.0.1'' port
               else restoreLocalDB env port dbName srcStorePath ''127.0.0.1'' port)
       (jthen (compactDB env port dbName)
       (jthen (if tk_useS3Store tk then backupDBToS3 env ''127.0.0.1'' port dbName (tk_s3Bucket tk) destStorePath
               else backupDB env ''127.0.0.1'' port dbName destStorePath)
         (clearDB env dbName port))))))"

definition DedupTask_run :: "'w helix_env \<Rightarrow> shard_task \<Rightarrow> (task_status, 'w) java" where
  "DedupTask_run env tk =
    (if tk_srcStorePathPrefix tk = [] \<or> tk_resourceVersion tk = -1 \<or> tk_destStorePathPrefix tk = [] then jreturn CANCELED
     else jbind (or_throw (getDbName (tk_partitionName tk))) (\<lambda>dbName.
       as_status (executeDedup env tk dbName (store_path (tk_srcStorePathPrefix tk) tk dbName) (store_path (tk_destStorePathPrefix tk) tk dbName))))"

definition DedupTask_cancel :: "'w helix_env \<Rightarrow> shard_task \<Rightarrow> (unit, 'w) java" where
  "DedupTask_cancel env tk = jbind (or_throw (getDbName (tk_partitionName tk))) (\<lambda>dbName. clearDB env dbName (tk_adminPort tk))"

section \<open>Traces of the promotion\<close>

fun is_promotion :: "admin_event \<Rightarrow> bool" where
  "is_promotion (Called h p (ChangeDBRoleAndUpStream db role up port) res) \<longleftrightarrow> role = ''MASTER''"
| "is_promotion e \<longleftrightarrow> False"

fun event_below :: "string \<Rightarrow> int \<Rightarrow> admin_event \<Rightarrow> bool" where
  "event_below db l (Asked h p d (Inr n)) \<longleftrightarrow> d \<noteq> db \<or> n = -1 \<or> n \<le> l"
| "event_below db l e \<longleftrightarrow> True"

definition answered_below :: "string \<Rightarrow> int \<Rightarrow> admin_event list \<Rightarrow> bool" where
  "answered_below db l = list_all (event_below db l)"

definition asked_at :: "string \<Rightarrow> int \<Rightarrow> string \<Rightarrow> admin_event \<Rightarrow> bool" where
  "asked_at h p db e = (case e of Asked h' p' d _ \<Rightarrow> h' = h \<and> p' = p \<and> d = db | _ \<Rightarrow> False)"

definition called_at :: "string \<Rightarrow> int \<Rightarrow> admin_call \<Rightarrow> admin_event \<Rightarrow> bool" where
  "called_at h p call e = (case e of Called h' p' c _ \<Rightarrow> h' = h \<and> p' = p \<and> c = call | _ \<Rightarrow> False)"

text \<open>Something holds for the address of every instance that is not on one of the hosts \<open>excluded\<close>.\<close>

definition at_others :: "string list \<Rightarrow> (string \<Rightarrow> int \<Rightarrow> bool) \<Rightarrow> string \<Rightarrow> bool" where
  "at_others excluded P instanceName =
    (case (instance_host instanceName, instance_port instanceName) of (Some h, Some p) \<Rightarrow> h \<in> set excluded \<or> P h p | _ \<Rightarrow> False)"

definition asked_others :: "string \<Rightarrow> string \<Rightarrow> string list \<Rightarrow> admin_event list \<Rightarrow> bool" where
  "asked_others me db names tr = list_all (at_others [me] (\<lambda>h p. list_ex (asked_at h p db) tr)) names"

definition told_others :: "string list \<Rightarrow> string \<Rightarrow> int \<Rightarrow> string \<Rightarrow> (string \<times> string) list \<Rightarrow> admin_event list \<Rightarrow> bool" where
  "told_others excluded upstream port db view tr = list_all (\<lambda>(i, role).
     at_others excluded (\<lambda>h p. is_slave_or_offline role \<longrightarrow>
       list_ex (called_at h p (ChangeDBRoleAndUpStream db ''SLAVE'' upstream (to_short port))) tr) i) view"

lemma answered_below_simps [simp]:
  "answered_below db l []" "answered_below db l (x # tr) \<longleftrightarrow> event_below db l x \<and> answered_below db l tr"
  "answered_below db l (tr @ tr') \<longleftrightarrow> answered_below db l tr \<and> answered_below db l tr'"
  by (simp_all add: answered_below_def)

lemma answered_below_mono: "answered_below db l tr \<Longrightarrow> l \<le> m \<Longrightarrow> answered_below db m tr"
  by (auto simp: answered_below_def list_all_iff elim!: event_below.elims)

lemma asked_others_append: "asked_others me db names tr \<Longrightarrow> asked_others me db names (a @ tr @ b)"
  by (auto simp: asked_others_def at_others_def list_all_iff split: option.splits)

section \<open>Runs of the parts\<close>

lemma runs_host_and_port:
  assumes "\<And>h p. instance_host i = Some h \<Longrightarrow> instance_port i = Some p \<Longrightarrow> P (Inr (h, p)) []" "P (Inl RuntimeExn) []"
  shows "runs (host_and_port i) P"
  unfolding host_and_port_def by (auto intro!: runs_intros simp: assms)

lemma runs_wait_for_no_master:
  "runs (wait_for_no_master env sm n) (\<lambda>r tr. list_all (\<lambda>e. \<exists>v. e = Viewed v) tr \<and>
     (\<forall>view. r = Inr view \<longrightarrow> Viewed view \<in> set tr \<and> ''MASTER'' \<notin> set (map snd view)))"
proof (induction n)
  case (Suc n)
  show ?case unfolding wait_for_no_master.simps stateMap_def
    by (auto intro!: runs_intros runs_mono [OF Suc] split: sum.split) force
qed (simp add: runs_throw)

definition highest_found :: "string \<Rightarrow> string \<Rightarrow> string list \<Rightarrow> int \<Rightarrow> java_exn + string option \<times> int \<Rightarrow> admin_event list \<Rightarrow> bool" where
  "highest_found me db names hi r tr \<longleftrightarrow> list_all (\<lambda>e. \<exists>h p a. e = Asked h p db a) tr \<and>
    (\<forall>who' hi'. r = Inr (who', hi') \<longrightarrow> hi \<le> hi' \<and> answered_below db hi' tr \<and> asked_others me db names tr \<and> (who' = None \<longrightarrow> hi' = hi))"

lemma highest_found_Cons:
  assumes "highest_found me db names hi r tr" "instance_host i = Some h" "instance_port i = Some p"
  shows "h = me \<Longrightarrow> highest_found me db (i # names) hi r tr"
    "event_below db hi (Asked h p db a) \<Longrightarrow> hi0 \<le> hi \<Longrightarrow> (hi0 < hi \<Longrightarrow> \<forall>hi'. r \<noteq> Inr (None, hi')) \<Longrightarrow>
     highest_found me db (i # names) hi0 r (Asked h p db a # tr)"
  using assms answered_below_mono [of db hi "[Asked h p db a]"]
  by (fastforce simp: highest_found_def asked_others_def at_others_def asked_at_def list_all_iff split: option.splits)+

lemma runs_find_highest:
  "runs (find_highest env sm db names who hi) (\<lambda>r tr. highest_found (sm_host sm) db names hi r tr \<and> (who = None \<or> (\<forall>hi'. r \<noteq> Inr (None, hi'))))"
proof (induction names arbitrary: who hi)
  case (Cons i names)
  show ?case unfolding find_highest.simps
  proof (rule runs_bind, rule runs_host_and_port, goal_cases)
    case (1 h p)
    show ?case
    proof (cases "sm_host sm = h")
      case True
      show ?thesis by (simp add: True, rule runs_mono, rule Cons) (use highest_found_Cons(1) [OF _ 1] True in blast)
    next
      case False
      have step: "runs (find_highest env sm db names who' hi')
          (\<lambda>r tr. highest_found (sm_host sm) db (i # names) hi r (Asked h p db a # tr) \<and> (who = None \<or> (\<forall>hi'. r \<noteq> Inr (None, hi'))))"
        if "event_below db hi' (Asked h p db a)" "hi \<le> hi'" "hi < hi' \<or> who \<noteq> None \<Longrightarrow> who' \<noteq> None" for who' hi' a
        by (rule runs_mono, rule Cons) (use highest_found_Cons(2) [OF _ 1 that(1,2)] that(3) in blast)
      show ?thesis
        using False by (auto intro!: runs_bind runs_getLatestSequenceNumber step)
    qed
  next
    case 2
    then show ?case by (simp add: highest_found_def)
  qed
qed (auto intro!: runs_return simp: asked_others_def highest_found_def)

lemma runs_catch_up:
  "runs (catch_up env sm db hi n l0) (\<lambda>r tr. list_all (\<lambda>e. \<exists>a. e = Asked ''localhost'' (sm_adminPort sm) db a) tr \<and>
     (\<forall>l. r = Inr l \<longrightarrow> hi \<le> l \<longrightarrow> l = l0 \<and> tr = [] \<or> Asked ''localhost'' (sm_adminPort sm) db (Inr l) \<in> set tr \<and> answered_below db l tr))"
proof (induction n arbitrary: l0)
  case (Suc n)
  show ?case unfolding catch_up.simps
    by (auto intro!: runs_intros runs_mono [OF Suc] split: sum.split)
qed (auto intro!: runs_return)

lemma runs_catch:
  "runs m (\<lambda>r tr. if r = Inl RuntimeExn then P (Inr ()) tr else P r tr) \<Longrightarrow> runs (catch_runtime m) P"
  "runs m (\<lambda>r tr. if r = Inl CheckedExn then P (Inr ()) tr else P r tr) \<Longrightarrow> runs (catch_checked m) P"
  "runs m (\<lambda>r tr. P (Inr ()) tr) \<Longrightarrow> runs (catch_all m) P"
  unfolding runs_def catch_runtime_def catch_checked_def catch_all_def
  by (fastforce split: prod.splits sum.splits java_exn.splits if_splits)+

lemma told_others_simps [simp]:
  "told_others excluded up port db [] tr"
  "told_others excluded up port db ((i, role) # view) tr \<longleftrightarrow>
     at_others excluded (\<lambda>h p. is_slave_or_offline role \<longrightarrow>
       list_ex (called_at h p (ChangeDBRoleAndUpStream db ''SLAVE'' up (to_short port))) tr) i \<and> told_others excluded up port db view tr"
  by (simp_all add: told_others_def)

lemma told_others_more: "told_others excluded up port db view tr \<Longrightarrow> told_others excluded up port db view (e # tr)"
  by (auto simp: told_others_def at_others_def list_all_iff split: option.splits)

lemma runs_redirect:
  "runs (redirect env db excluded up port view) (\<lambda>r tr. list_all (\<lambda>e. \<exists>h p a. e = Called h p (ChangeDBRoleAndUpStream db ''SLAVE'' up (to_short port)) a) tr \<and>
     (case r of Inl e \<Rightarrow> e = RuntimeExn | Inr _ \<Rightarrow> told_others excluded up port db view tr))"
proof (induction view)
  case (Cons iv view)
  obtain i role where iv: "iv = (i, role)" by (cases iv)
  show ?case unfolding iv redirect.simps changeDBRoleAndUpStream_def
    by (auto intro!: runs_intros runs_host_and_port runs_catch runs_mono [OF Cons] told_others_more
        simp: at_others_def called_at_def split: sum.splits)
qed (auto intro!: runs_return)

lemma runs_follow_highest:
  assumes "highest_found me db names l0 (Inr found) tr0"
  shows "runs (follow_highest env sm db l0 found) (\<lambda>r tr. list_all (\<lambda>e. \<not> is_promotion e) tr \<and>
    (r = Inr () \<longrightarrow> (\<exists>l. (l = l0 \<or> Asked ''localhost'' (sm_adminPort sm) db (Inr l) \<in> set tr) \<and> l0 \<le> l \<and> answered_below db l (tr0 @ tr))))"
proof (cases found)
  case (Pair who hi)
  with assms have hi: "l0 \<le> hi" "answered_below db hi tr0" "who = None \<Longrightarrow> hi = l0" by (auto simp: highest_found_def)
  have no_promotion: "list_all (\<lambda>e. \<not> is_promotion e) tr" if "list_all (\<lambda>e. \<exists>a. e = Asked ''localhost'' (sm_adminPort sm) db a) tr" for tr
    using that by (auto simp: list_all_iff)
  have known: "answered_below db l tr0" if "hi \<le> l" for l using hi(2) that by (rule answered_below_mono)
  show ?thesis
  proof (cases who)
    case None
    with Pair hi show ?thesis by (auto intro!: runs_return simp: follow_highest_def)
  next
    case (Some w)
    show ?thesis unfolding Pair Some follow_highest_def changeDBRoleAndUpStream_def
      by (auto intro!: runs_then runs_bind runs_call_or_throw runs_mono [OF runs_catch_up] runs_return runs_throw no_promotion
          split: sum.split)
        (use hi(1) known in fastforce)+
  qed
qed

definition promotion ::
  "state_model \<Rightarrow> string \<Rightarrow> (string \<times> string) list \<Rightarrow> int \<Rightarrow> java_exn + unit \<Rightarrow> admin_event list \<Rightarrow> thrift_exn option \<Rightarrow> admin_event list \<Rightarrow> bool" where
  "promotion sm db view l r pre res post \<longleftrightarrow>
    list_all (\<lambda>e. \<not> is_promotion e) pre \<and> list_all (\<lambda>e. \<not> is_promotion e) post \<and>
    Viewed view \<in> set pre \<and> ''MASTER'' \<notin> set (map snd view) \<and>
    Asked ''localhost'' (sm_adminPort sm) db (Inr l) \<in> set pre \<and> answered_below db l pre \<and> asked_others (sm_host sm) db (map fst view) pre \<and>
    (r = Inr () \<longrightarrow> res = None \<and> told_others [sm_host sm] (sm_host sm) (sm_adminPort sm) db view post)"

definition promotion_outcome :: "state_model \<Rightarrow> java_exn + unit \<Rightarrow> admin_event list \<Rightarrow> bool" where
  "promotion_outcome sm r tr \<longleftrightarrow> list_all (\<lambda>e. \<not> is_promotion e) tr \<and> r \<noteq> Inr () \<or>
     r \<noteq> Inl CheckedExn \<and> (\<exists>db view l pre res post. getDbName (sm_partitionName sm) = Some db \<and>
       tr = pre @ Called ''localhost'' (sm_adminPort sm) (ChangeDBRoleAndUpStream db ''MASTER'' [] (to_short (sm_adminPort sm))) res # post \<and>
       promotion sm db view l r pre res post)"

lemma promotion_outcome_failed: "list_all (\<lambda>e. \<not> is_promotion e) tr \<Longrightarrow> promotion_outcome sm (Inl e) tr"
  by (simp add: promotion_outcome_def)

lemma runs_promote:
  assumes "getDbName (sm_partitionName sm) = Some db" "list_all (\<lambda>e. \<not> is_promotion e) pre" "Viewed view \<in> set pre" "''MASTER'' \<notin> set (map snd view)"
    "Asked ''localhost'' (sm_adminPort sm) db (Inr l) \<in> set pre" "answered_below db l pre" "asked_others (sm_host sm) db (map fst view) pre"
  shows "runs (jthen (changeDBRoleAndUpStream env ''localhost'' (sm_adminPort sm) db ''MASTER'' [] (sm_adminPort sm))
      (redirect env db [sm_host sm] (sm_host sm) (sm_adminPort sm) view)) (\<lambda>r tr. promotion_outcome sm r (pre @ tr))"
proof -
  have outcome: "promotion_outcome sm r (pre @ Called ''localhost'' (sm_adminPort sm) (ChangeDBRoleAndUpStream db ''MASTER'' [] (to_short (sm_adminPort sm))) res # post)"
    if "list_all (\<lambda>e. \<not> is_promotion e) post" "r \<noteq> Inl CheckedExn"
      "r = Inr () \<Longrightarrow> res = None \<and> told_others [sm_host sm] (sm_host sm) (sm_adminPort sm) db view post" for r res post
    unfolding promotion_outcome_def promotion_def using that assms by blast
  have slaves: "list_all (\<lambda>e. \<not> is_promotion e) tr"
    if "list_all (\<lambda>e. \<exists>h p a. e = Called h p (ChangeDBRoleAndUpStream db ''SLAVE'' (sm_host sm) (to_short (sm_adminPort sm))) a) tr" for tr
    using that by (auto simp: list_all_iff)
  show ?thesis unfolding changeDBRoleAndUpStream_def
    by (auto intro!: runs_then runs_call_or_throw runs_mono [OF runs_redirect] outcome slaves split: sum.splits)
qed

lemma runs_become_master: "runs (become_master env sm) (promotion_outcome sm)"
proof -
  have views: "list_all (\<lambda>e. \<not> is_promotion e) tr" if "list_all (\<lambda>e. \<exists>v. e = Viewed v) tr" for tr
    using that by (auto simp: list_all_iff)
  have asked: "list_all (\<lambda>e. \<not> is_promotion e) tr" if "highest_found me db names l r tr" for me db names l r tr
    using that by (auto simp: list_all_iff highest_found_def)
  have finish: "runs (jthen (follow_highest env sm db l0 found)
       (jthen (changeDBRoleAndUpStream env ''localhost'' (sm_adminPort sm) db ''MASTER'' [] (sm_adminPort sm))
          (redirect env db [sm_host sm] (sm_host sm) (sm_adminPort sm) view)))
       (\<lambda>r tr. promotion_outcome sm r (tr1 @ Asked ''localhost'' (sm_adminPort sm) db (Inr l0) # tr3 @ tr))"
    if db: "getDbName (sm_partitionName sm) = Some db" and v: "list_all (\<lambda>e. \<exists>v. e = Viewed v) tr1" "Viewed view \<in> set tr1" "''MASTER'' \<notin> set (map snd view)"
      and h: "highest_found (sm_host sm) db (map fst view) l0 (Inr found) tr3" for db view tr1 l0 found tr3
  proof -
    have v1: "answered_below db l tr1" for l using v(1) by (auto simp: answered_below_def list_all_iff)
    have a3: "asked_others (sm_host sm) db (map fst view) tr3" using h by (cases found) (auto simp: highest_found_def)
    have no: "list_all (\<lambda>e. \<not> is_promotion e) (tr1 @ Asked ''localhost'' (sm_adminPort sm) db (Inr l0) # tr3)"
      using views [OF v(1)] asked [OF h] by simp
    show ?thesis
    proof (rule runs_then, rule runs_mono [OF runs_follow_highest [OF h]], goal_cases)
      case (1 r tr4)
      show ?case
      proof (cases r)
        case (Inl e)
        with 1 no show ?thesis by (auto intro!: promotion_outcome_failed)
      next
        case (Inr u)
        with 1 obtain l where l: "l = l0 \<or> Asked ''localhost'' (sm_adminPort sm) db (Inr l) \<in> set tr4" "l0 \<le> l" "answered_below db l (tr3 @ tr4)"
          by auto
        let ?pre = "tr1 @ Asked ''localhost'' (sm_adminPort sm) db (Inr l0) # tr3 @ tr4"
        have "asked_others (sm_host sm) db (map fst view) ?pre"
          using asked_others_append [OF a3, of "tr1 @ [Asked ''localhost'' (sm_adminPort sm) db (Inr l0)]" tr4] by simp
        with runs_promote [OF db, of ?pre view l env] 1 no v(2,3) v1 l Inr show ?thesis by auto
      qed
    qed
  qed
  show ?thesis unfolding become_master_def
    by (auto intro!: runs_bind runs_mono [OF runs_wait_for_no_master] runs_or_throw runs_getLocalLatestSequenceNumber
        runs_mono [OF runs_find_highest] promotion_outcome_failed finish split: sum.split simp: views asked)
qed

lemma runs_with_lock:
  assumes "runs body P" "\<And>e. Q (Inl e) []" "\<And>r tr. P r tr \<Longrightarrow> Q r tr" "\<And>x e tr. P (Inr x) tr \<Longrightarrow> Q (Inl e) tr"
  shows "runs (with_lock env sm body) Q"
proof -
  let ?release = "lib_unit (env_release env (sm_lock sm))"
  have "runs (\<lambda>s. case body s of
         (Inl e, s) \<Rightarrow> let (_, s) = ?release s in (Inl e, s) | (Inr x, s) \<Rightarrow> jthen ?release (jreturn x) s) Q"
  proof (rule runsI)
    fix s r s'
    assume run: "(case body s of
         (Inl e, s) \<Rightarrow> let (_, s) = ?release s in (Inl e, s) | (Inr x, s) \<Rightarrow> jthen ?release (jreturn x) s) = (r, s')"
    obtain r1 s1 where body: "body s = (r1, s1)" by (cases "body s")
    with runsD [OF assms(1)] obtain tr where tr: "hx_calls s1 = hx_calls s @ tr" "P r1 tr" by blast
    obtain r2 s2 where rel: "?release s1 = (r2, s2)" by (cases "?release s1")
    have calls: "hx_calls s2 = hx_calls s1" using runsD [OF runs_lib_unit [where P = "\<lambda>_ tr. tr = []"] rel] by auto
    have "s' = s2 \<and> Q r tr" using run body rel tr assms(3,4)
      by (cases r1; cases r2) (auto simp: jthen_def jbind_def jreturn_def)
    with tr calls show "\<exists>tr. hx_calls s' = hx_calls s @ tr \<and> Q r tr" by auto
  qed
  then show ?thesis unfolding with_lock_def by (auto intro!: runs_then runs_lib_unit assms(2) split: sum.split)
qed

section \<open>Runs of the transition to slave\<close>

fun answered_at :: "bool \<Rightarrow> string \<Rightarrow> int \<Rightarrow> string \<Rightarrow> admin_event \<Rightarrow> bool" where
  "answered_at ok h p db (Asked h' p' d (Inr n)) \<longleftrightarrow> h' = h \<and> p' = p \<and> d = db \<and> (n \<noteq> -1) = ok"
| "answered_at ok h p db (Asked h' p' d (Inl _)) \<longleftrightarrow> h' = h \<and> p' = p \<and> d = db \<and> \<not> ok"
| "answered_at ok h p db _ \<longleftrightarrow> False"

text \<open>The replicas of the view that are not on the own host, in one of the three states, and have answered.\<close>

definition is_live :: "string \<Rightarrow> string \<Rightarrow> admin_event list \<Rightarrow> string \<times> string \<Rightarrow> bool" where
  "is_live me db tr iv \<longleftrightarrow> is_live_role (snd iv) \<and> (case (instance_host (fst iv), instance_port (fst iv)) of
     (Some h, Some p) \<Rightarrow> h \<noteq> me \<and> list_ex (answered_at True h p db) tr | _ \<Rightarrow> False)"

definition is_dead :: "string \<Rightarrow> string \<Rightarrow> admin_event list \<Rightarrow> string \<times> string \<Rightarrow> bool" where
  "is_dead me db tr iv \<longleftrightarrow> \<not> is_live_role (snd iv) \<or> at_others [me] (\<lambda>h p. list_ex (answered_at False h p db) tr) (fst iv)"

definition live_in :: "string \<Rightarrow> string \<Rightarrow> (string \<times> string) list \<Rightarrow> (string \<times> string) list \<Rightarrow> admin_event list \<Rightarrow> bool" where
  "live_in me db view live tr \<longleftrightarrow> set live \<subseteq> set view \<and> list_all (is_live me db tr) live \<and>
    list_all (\<lambda>iv. iv \<in> set live \<or> is_dead me db tr iv) view"

definition upstream_chosen :: "state_model \<Rightarrow> (string \<times> string) list \<Rightarrow> string \<Rightarrow> int \<Rightarrow> bool" where
  "upstream_chosen sm live up port \<longleftrightarrow>
    (if live = [] then up = ''127.0.0.1'' \<and> port = sm_adminPort sm
     else list_ex (\<lambda>(i, role). instance_host i = Some up \<and> instance_port i = Some port \<and>
            (list_ex (\<lambda>(_, role'). equalsIgnoreCase role' ''MASTER'') live \<longrightarrow> equalsIgnoreCase role ''MASTER'')) live)"

definition slaved :: "state_model \<Rightarrow> string \<Rightarrow> admin_event list \<Rightarrow> bool" where
  "slaved sm db tr \<longleftrightarrow> (\<exists>view live up port pre. Viewed view \<in> set pre \<and> live_in (sm_host sm) db view live pre \<and> upstream_chosen sm live up port \<and>
     tr = pre @ [Called ''localhost'' (sm_adminPort sm) (ChangeDBRoleAndUpStream db ''SLAVE'' up (to_short port)) None])"

text \<open>The snapshot a successful backup makes and the one a restore reads: host, port, database, bucket and path.\<close>

definition backup_of :: "admin_event \<Rightarrow> (string \<times> int \<times> string \<times> string \<times> string) option" where
  "backup_of e = (case e of
     Called h p (BackupDB db path _) None \<Rightarrow> Some (h, to_short p, db, [], path)
   | Called h p (BackupDBToS3 db bucket path _) None \<Rightarrow> Some (h, to_short p, db, bucket, path)
   | _ \<Rightarrow> None)"

definition restore_of :: "admin_event \<Rightarrow> (string \<times> int \<times> string \<times> string \<times> string) option" where
  "restore_of e = (case e of
     Called _ _ (RestoreDB db path h p) _ \<Rightarrow> Some (h, p, db, [], path)
   | Called _ _ (RestoreDBFromS3 db bucket path h p) _ \<Rightarrow> Some (h, p, db, bucket, path)
   | _ \<Rightarrow> None)"

definition is_restore :: "admin_event \<Rightarrow> bool" where
  "is_restore e \<longleftrightarrow> restore_of e \<noteq> None"

text \<open>A restore of the snapshot that has just been made on the upstream, after closing the database.\<close>

definition restore_after :: "admin_event \<Rightarrow> admin_event \<Rightarrow> admin_event \<Rightarrow> bool" where
  "restore_after b c e \<longleftrightarrow> is_restore e \<and> backup_of b = restore_of e \<and> (\<exists>l q res res' call. c = Called l q (CloseDB (fst (snd (snd (the (backup_of b)))))) res \<and> e = Called l q call res')"

definition restores_backed_up :: "admin_event list \<Rightarrow> bool" where
  "restores_backed_up tr \<longleftrightarrow>
    (\<forall>i < length tr. is_restore (tr ! i) \<longrightarrow> 2 \<le> i \<and> restore_after (tr ! (i - 2)) (tr ! (i - 1)) (tr ! i))"

lemma not_restore [simp]: "\<not> is_restore (Asked h p db a)" "\<not> is_restore (Checked h p db st)" "\<not> is_restore (Viewed view)"
  "\<not> is_restore (Called h p (ChangeDBRoleAndUpStream db role up q) res)" "\<not> is_restore (Called h p (AddDB db up role overwrite) res)"
  by (simp_all add: is_restore_def restore_of_def)

lemma restores_append: "restores_backed_up tr \<Longrightarrow> restores_backed_up tr' \<Longrightarrow> restores_backed_up (tr @ tr')"
  unfolding restores_backed_up_def
proof (intro allI impI, goal_cases)
  case (1 i)
  show ?case
  proof (cases "i < length tr")
    case True
    with 1 show ?thesis by (auto simp: nth_append)
  next
    case False
    with 1 have *: "i - length tr < length tr'" "is_restore (tr' ! (i - length tr))" by (auto simp: nth_append)
    with 1(2) have "2 \<le> i - length tr" "restore_after (tr' ! (i - length tr - 2)) (tr' ! (i - length tr - 1)) (tr' ! (i - length tr))" by auto
    then show ?thesis using False by (auto simp: nth_append diff_right_commute)
  qed
qed

lemma no_restores: "list_all (\<lambda>e. \<not> is_restore e) tr \<Longrightarrow> restores_backed_up tr"
  by (auto simp: restores_backed_up_def list_all_length)

lemma runs_rebuild: "runs (rebuild env sm db h p) (\<lambda>r tr. restores_backed_up tr)"
proof -
  have triple: "restores_backed_up [a, b, c]" if "restore_after a b c" for a b c
  proof -
    have "\<not> is_restore a" "\<not> is_restore b"
      using that by (auto simp: restore_after_def is_restore_def backup_of_def restore_of_def split: admin_event.splits admin_call.splits option.splits)
    with that show ?thesis by (auto simp: restores_backed_up_def less_Suc_eq numeral_2_eq_2)
  qed
  show ?thesis unfolding rebuild_def Let_def
    by (auto intro!: runs_intros simp: triple no_restores restore_after_def is_restore_def backup_of_def restore_of_def backupDB_def backupDBToS3_def closeDB_def restoreLocalDB_def restoreLocalDBFromS3_def
        split: sum.split)
qed

lemma live_in_Cons:
  assumes "live_in me db view live tr"
  shows "\<not> is_live_role role \<or> at_others [me] (\<lambda>h p. False) i \<Longrightarrow> live_in me db ((i, role) # view) live tr"
    "at_others [me] (\<lambda>h p. answered_at False h p db e) i \<Longrightarrow> live_in me db ((i, role) # view) live (e # tr)"
    "is_live me db [e] (i, role) \<Longrightarrow> live_in me db ((i, role) # view) ((i, role) # live) (e # tr)"
proof -
  have more: "is_live me db tr iv \<Longrightarrow> is_live me db (e # tr) iv" "is_dead me db tr iv \<Longrightarrow> is_dead me db (e # tr) iv"
    "is_live me db [e] iv \<Longrightarrow> is_live me db (e # tr) iv" for iv
    by (auto simp: is_live_def is_dead_def at_others_def split: option.splits)
  show "\<not> is_live_role role \<or> at_others [me] (\<lambda>h p. False) i \<Longrightarrow> live_in me db ((i, role) # view) live tr"
    using assms by (auto simp: live_in_def is_dead_def at_others_def split: option.splits)
  show "at_others [me] (\<lambda>h p. answered_at False h p db e) i \<Longrightarrow> live_in me db ((i, role) # view) live (e # tr)"
    using assms more by (fastforce simp: live_in_def list_all_iff is_dead_def at_others_def split: option.splits)
  show "is_live me db [e] (i, role) \<Longrightarrow> live_in me db ((i, role) # view) ((i, role) # live) (e # tr)"
    using assms more by (auto simp: live_in_def list_all_iff)
qed

lemma runs_live_replicas:
  "runs (live_replicas env sm db view) (\<lambda>r tr. list_all (\<lambda>e. \<not> is_restore e) tr \<and> (\<forall>live. r = Inr live \<longrightarrow> live_in (sm_host sm) db view live tr))"
proof (induction view)
  case (Cons iv view)
  obtain i role where iv: "iv = (i, role)" by (cases iv)
  show ?case unfolding iv live_replicas.simps
    by (auto intro!: runs_intros runs_host_and_port runs_mono [OF Cons] live_in_Cons(1) live_in_Cons(2) live_in_Cons(3)
        simp: at_others_def is_live_def split: sum.split)
qed (auto intro!: runs_return simp: live_in_def)

lemma choose_upstream_None: "choose_upstream live u = None \<longleftrightarrow> live = [] \<and> u = None"
  by (induction live u rule: choose_upstream.induct) auto

lemma choose_upstream_Some:
  "choose_upstream live u = Some hp \<Longrightarrow> live = [] \<and> u = Some hp \<or>
    (\<exists>role. (hp, role) \<in> set live \<and> ((\<exists>(_, role') \<in> set live. equalsIgnoreCase role' ''MASTER'') \<longrightarrow> equalsIgnoreCase role ''MASTER''))"
  by (induction live u rule: choose_upstream.induct) (auto split: if_splits)

lemma runs_upstream:
  assumes "\<And>up port. upstream_chosen sm live up port \<Longrightarrow> P (Inr (up, port)) []" "\<And>e. P (Inl e) []" "set (iteration live) = set live"
  shows "runs (upstream_address sm (choose_upstream (iteration live) None)) P"
proof (cases "choose_upstream (iteration live) None")
  case None
  with assms(3) have "live = []" by (auto simp: choose_upstream_None)
  with None assms(1) show ?thesis by (simp add: upstream_address_def upstream_chosen_def runs_return)
next
  case (Some hp)
  with choose_upstream_Some assms(3) obtain role where role: "(hp, role) \<in> set live"
    "(\<exists>(_, role') \<in> set live. equalsIgnoreCase role' ''MASTER'') \<longrightarrow> equalsIgnoreCase role ''MASTER''" by fastforce
  then have "upstream_chosen sm live up port" if "instance_host hp = Some up" "instance_port hp = Some port" for up port
    using that by (fastforce simp: upstream_chosen_def list_ex_iff)
  with Some assms(1,2) show ?thesis by (auto simp: upstream_address_def intro!: runs_host_and_port)
qed

lemma runs_addDB_slave: "(\<And>tr. list_all (\<lambda>e. \<not> is_restore e) tr \<Longrightarrow> P (Inr ()) tr) \<Longrightarrow> runs (addDB_slave env db port) P"
  by (rule runsI) (fastforce simp: addDB_slave_def addDB_role_def call_admin_def call_quietly_def split: prod.splits option.splits thrift_exn.splits admin_code.splits)

lemma runs_checkLocalDB: "(\<And>r st. P r [Checked ''localhost'' port db st]) \<Longrightarrow> runs (checkLocalDB env db port) P"
  by (auto simp: runs_def checkLocalDB_def call_check_def split: prod.splits sum.splits)

lemma runs_need_rebuild:
  "(\<And>r tr. list_all (\<lambda>e. \<not> is_restore e) tr \<Longrightarrow> P r tr) \<Longrightarrow> runs (need_rebuild env db live st h p) P"
  unfolding need_rebuild_def by (auto intro!: runs_intros split: sum.split)

lemma live_in_more: "live_in me db view live tr \<Longrightarrow> live_in me db view live (a @ tr @ b)"
  unfolding live_in_def list_all_iff is_live_def is_dead_def at_others_def by (fastforce split: option.splits)

lemma runs_slave_round:
  assumes "\<And>live. set (iteration live) = set live"
  shows "runs (slave_round env iteration sm db) (\<lambda>r tr. list_all (\<lambda>e. \<not> is_restore e) tr \<and> (r = Inr None \<longrightarrow> slaved sm db tr))"
proof -
  have slaved: "slaved sm db (tr0 @ Viewed view # tr1 @ Checked ''localhost'' (sm_adminPort sm) db st # tr2 @
      [Called ''localhost'' (sm_adminPort sm) (ChangeDBRoleAndUpStream db ''SLAVE'' up (to_short port)) None])"
    if "live_in (sm_host sm) db view live tr1" "upstream_chosen sm live up port" for tr0 view tr1 live st tr2 up port
  proof -
    let ?pre = "(tr0 @ [Viewed view]) @ tr1 @ (Checked ''localhost'' (sm_adminPort sm) db st # tr2)"
    from live_in_more [OF that(1), of "tr0 @ [Viewed view]" "Checked ''localhost'' (sm_adminPort sm) db st # tr2"]
    have "live_in (sm_host sm) db view live ?pre" by simp
    with that(2) show ?thesis unfolding slaved_def
      by (intro exI [of _ view] exI [of _ live] exI [of _ up] exI [of _ port] exI [of _ ?pre]) simp
  qed
  show ?thesis unfolding slave_round_def stateMap_def changeDBRoleAndUpStream_def
    by (auto intro!: runs_then runs_addDB_slave runs_bind runs_getStateMap runs_mono [OF runs_live_replicas] runs_upstream [OF _ _ assms]
        runs_checkLocalDB runs_need_rebuild runs_call_or_throw runs_return slaved split: sum.split)
qed

lemma runs_as_runtime:
  "runs m P \<Longrightarrow> (\<And>r tr. P r tr \<Longrightarrow> Q r tr) \<Longrightarrow> (\<And>e tr. P (Inl e) tr \<Longrightarrow> Q (Inl RuntimeExn) tr) \<Longrightarrow> runs (as_runtime m) Q"
  unfolding runs_def as_runtime_def by (fastforce split: prod.splits sum.splits)

lemma runs_slave_loop:
  assumes "\<And>live. set (iteration live) = set live"
  shows "runs (slave_loop env iteration sm db n) (\<lambda>r tr. restores_backed_up tr \<and> (r = Inr True \<longrightarrow> (\<exists>tr0 tr1. tr = tr0 @ tr1 \<and> slaved sm db tr1)))"
proof (induction n)
  case (Suc n)
  let ?P = "\<lambda>r tr. list_all (\<lambda>e. \<not> is_restore e) tr \<and> (r = Inr None \<longrightarrow> slaved sm db tr)"
  have "runs (with_lock env sm (slave_round env iteration sm db)) ?P"
    by (rule runs_with_lock [OF runs_slave_round [OF assms]]) auto
  then have round: "runs (as_runtime (with_lock env sm (slave_round env iteration sm db))) ?P" by (rule runs_as_runtime) auto
  show ?case unfolding slave_loop.simps
  proof (rule runs_bind, rule runs_mono [OF round], goal_cases)
    case (1 r tr)
    then have restores: "restores_backed_up tr" by (simp add: no_restores)
    have goon: "runs (jthen (rebuild env sm db h p) (slave_loop env iteration sm db n))
       (\<lambda>r tr'. restores_backed_up (tr @ tr') \<and> (r = Inr True \<longrightarrow> (\<exists>tr0 tr1. tr @ tr' = tr0 @ tr1 \<and> slaved sm db tr1)))" for h p
      using 1 restores by (auto intro!: runs_then runs_mono [OF runs_rebuild] runs_mono [OF Suc] restores_append split: sum.split) (metis append_assoc)+
    show ?case using 1 restores goon
      by (auto intro!: runs_return split: sum.split option.split) (metis append_Nil)
  qed
qed (simp add: runs_return restores_backed_up_def)

section \<open>Properties\<close>

text \<open>
  (C12) The transition from offline to slave, up to any number of rounds of its loop: the database is restored only from a
  snapshot that the chosen upstream has just made successfully, and is closed in between. When the loop is left normally, the
  last thing done was to follow an upstream successfully: a replica of the view that answered, a master if there
  is one among those, or itself if no other replica answered.
\<close>

theorem slave_follows_live_upstream:
  assumes "\<forall>live. set (iteration live) = set live" "onBecomeSlaveFromOffline env iteration rounds sm s = (r, s')"
  shows "\<exists>tr. hx_calls s' = hx_calls s @ tr \<and> restores_backed_up tr \<and>
    (r = Inr True \<longrightarrow> (\<exists>db tr0 tr1. getDbName (sm_partitionName sm) = Some db \<and> tr = tr0 @ tr1 \<and> slaved sm db tr1))"
proof -
  let ?R = "\<lambda>r tr. restores_backed_up tr \<and>
    (r = Inr True \<longrightarrow> (\<exists>db tr0 tr1. getDbName (sm_partitionName sm) = Some db \<and> tr = tr0 @ tr1 \<and> slaved sm db tr1))"
  have "runs (onBecomeSlaveFromOffline env iteration rounds sm) ?R" unfolding onBecomeSlaveFromOffline_def
    using assms(1) by (auto intro!: runs_bind runs_or_throw runs_mono [OF runs_slave_loop] simp: no_restores)
  from runsD [OF this assms(2)] show ?thesis .
qed

text \<open>
  (C5) Whatever the admin services and Helix answer, a replica is made a master at most once by the transition from slave to
  master, and only after a view of the partition without a master was seen, every other instance in this view was asked for
  its sequence number, and the own sequence number was read as at least as high as every answer. When the
  transition returns after that, all slaves and offline replicas in the view were told to follow this one.
\<close>

theorem promotion_takes_highest:
  assumes "onBecomeMasterFromSlave env sm s = (r, s')"
  shows "\<exists>tr. hx_calls s' = hx_calls s @ tr \<and> (list_all (\<lambda>e. \<not> is_promotion e) tr \<or>
     (\<exists>db view l pre res post. getDbName (sm_partitionName sm) = Some db \<and>
       tr = pre @ Called ''localhost'' (sm_adminPort sm) (ChangeDBRoleAndUpStream db ''MASTER'' [] (to_short (sm_adminPort sm))) res # post \<and>
       promotion sm db view l r pre res post))"
proof -
  let ?R = "\<lambda>r tr. list_all (\<lambda>e. \<not> is_promotion e) tr \<or>
     (\<exists>db view l pre res post. getDbName (sm_partitionName sm) = Some db \<and>
       tr = pre @ Called ''localhost'' (sm_adminPort sm) (ChangeDBRoleAndUpStream db ''MASTER'' [] (to_short (sm_adminPort sm))) res # post \<and>
       promotion sm db view l r pre res post)"
  have "runs (onBecomeMasterFromSlave env sm) ?R" unfolding onBecomeMasterFromSlave_def
  proof (rule runs_catch(2), rule runs_with_lock [OF runs_become_master], goal_cases)
    case (2 r tr)
    then show ?case by (auto simp: promotion_outcome_def)
  next
    case (3 x e tr)
    then show ?case by (fastforce simp: promotion_outcome_def promotion_def)
  qed simp
  from runsD [OF this assms] show ?thesis .
qed

text \<open>Three replicas; the local sequence number, the state of the world, grows while the process sleeps.\<close>

definition ex_cluster :: "int helix_env" where
  "ex_cluster = \<lparr>rpc_getSequenceNumber = (\<lambda>host _ _ w. (if host = ''localhost'' then Inr w else if host = ''b'' then Inr 7 else Inl TTransportExn, w)),
    rpc_checkDB = (\<lambda>_ _ _ w. (Inl TTransportExn, w)), rpc_call = (\<lambda>host _ _ w. (if host = ''c'' then Some TTransportExn else None, w)),
    env_stateMap = (\<lambda>_ _ _ w. (Inr [(''a_9090'', ''SLAVE''), (''b_9090'', ''SLAVE''), (''c_9090'', ''OFFLINE'')], w)),
    env_acquire = (\<lambda>_ w. (None, w)), env_release = (\<lambda>_ w. (None, w)), env_sleep = (\<lambda>w. (None, w + 1)),
    env_currentTimeMillis = (\<lambda>w. (w, w))\<rparr>"

definition ex_state_model :: state_model where
  "ex_state_model = \<lparr>sm_resourceName = ''seg'', sm_partitionName = ''seg_1'', sm_host = ''a'', sm_adminPort = 9090, sm_cluster = ''c'',
    sm_useS3Backup = False, sm_s3Bucket = []\<rparr>"

lemma wait_for_no_master_unfold:
  "wait_for_no_master env sm n s = (if n = 0 then jthrow RuntimeExn s else
    jbind (stateMap env sm) (\<lambda>view.
      if ''MASTER'' \<notin> set (map snd view) then jreturn view
      else if n = 1 then jthrow RuntimeExn
      else jthen (lib_unit (env_sleep env)) (wait_for_no_master env sm (n - 1))) s)"
  by (cases n) (simp_all cong: if_cong)

lemma catch_up_unfold:
  "catch_up env sm dbName highestSeq n localSeq s = (if n = 0 then jreturn localSeq s else
    jthen (lib_unit (env_sleep env)) (jbind (getLocalLatestSequenceNumber env dbName (sm_adminPort sm)) (\<lambda>localSeq.
      if highestSeq \<le> localSeq then jreturn localSeq else catch_up env sm dbName highestSeq (n - 1) localSeq)) s)"
  by (cases n) (simp_all cong: if_cong)

lemma ex_names:
  "getDbName ''seg_1'' = Some ''seg00001''" "instance_host ''a_9090'' = Some ''a''" "instance_port ''a_9090'' = Some 9090"
  "instance_host ''b_9090'' = Some ''b''" "instance_port ''b_9090'' = Some 9090" "instance_host ''c_9090'' = Some ''c''"
  "instance_port ''c_9090'' = Some 9090" "to_short 9090 = 9090" "is_slave_or_offline ''SLAVE''" "is_slave_or_offline ''OFFLINE''"
proof -
  have "show_nat 1 = ''1''" by (subst show_nat.simps) (simp add: digit_char_def char_of_def bit_0)
  moreover have "replicate 4 x = [x, x, x, x]" for x :: char by (simp add: numeral_eq_Suc)
  ultimately show "getDbName ''seg_1'' = Some ''seg00001''"
    by (simp add: getDbName_def parseInt_def digits_value_def is_digit_def show_padded_def Let_def)
qed (simp_all add: instance_host_def instance_port_def java_split_def parseInt_def digits_value_def is_digit_def to_short_def
    is_slave_or_offline_def equalsIgnoreCase_def to_lower_def Let_def signed_take_bit_int_eq_self)

lemma ex_promotion:
  "onBecomeMasterFromSlave ex_cluster ex_state_model \<lparr>hx_world = 5, hx_calls = []\<rparr> =
   (Inr (), \<lparr>hx_world = 7, hx_calls =
     [Viewed [(''a_9090'', ''SLAVE''), (''b_9090'', ''SLAVE''), (''c_9090'', ''OFFLINE'')],
      Asked ''localhost'' 9090 ''seg00001'' (Inr 5), Asked ''b'' 9090 ''seg00001'' (Inr 7), Asked ''c'' 9090 ''seg00001'' (Inl TTransportExn),
      Called ''localhost'' 9090 (ChangeDBRoleAndUpStream ''seg00001'' ''SLAVE'' ''b'' 9090) None,
      Asked ''localhost'' 9090 ''seg00001'' (Inr 6), Asked ''localhost'' 9090 ''seg00001'' (Inr 7),
      Called ''localhost'' 9090 (ChangeDBRoleAndUpStream ''seg00001'' ''MASTER'' [] 9090) None,
      Called ''b'' 9090 (ChangeDBRoleAndUpStream ''seg00001'' ''SLAVE'' ''a'' 9090) None,
      Called ''c'' 9090 (ChangeDBRoleAndUpStream ''seg00001'' ''SLAVE'' ''a'' 9090) (Some TTransportExn)]\<rparr>)"
  by (simp add: onBecomeMasterFromSlave_def with_lock_def catch_checked_def become_master_def java_defs ex_names ex_cluster_def ex_state_model_def
      wait_for_no_master_unfold catch_up_unfold stateMap_def host_and_port_def follow_highest_def catch_runtime_def)

theorem promotion_takes_highest_witness:
  "\<exists>s' db view l pre res post.
     onBecomeMasterFromSlave ex_cluster ex_state_model \<lparr>hx_world = 5, hx_calls = []\<rparr> = (Inr (), s') \<and>
     hx_calls s' = pre @ Called ''localhost'' 9090 (ChangeDBRoleAndUpStream db ''MASTER'' [] 9090) res # post \<and>
     promotion ex_state_model db view l (Inr ()) pre res post"
  using promotion_takes_highest [OF ex_promotion] ex_promotion ex_names by (auto simp: ex_state_model_def) blast

text \<open>A replica whose data is too old: it is rebuilt from the other one, and then follows it.\<close>

definition ex_old_replica :: "int helix_env" where
  "ex_old_replica = ex_cluster\<lparr>rpc_checkDB := (\<lambda>_ _ _ w. (Inr \<lparr>st_seq_num = w, st_wal_ttl_seconds = 0, st_last_update_timestamp_ms = 0, st_is_master = False\<rparr>, w)),
    rpc_call := (\<lambda>_ _ call w. (None, case call of RestoreDB _ _ _ _ \<Rightarrow> 7 | _ \<Rightarrow> w))\<rparr>"

lemma ex_slave:
  "\<exists>tr. onBecomeSlaveFromOffline ex_old_replica id 2 ex_state_model \<lparr>hx_world = 5, hx_calls = []\<rparr> = (Inr True, \<lparr>hx_world = 7, hx_calls = tr\<rparr>) \<and>
     list_ex is_restore tr"
proof -
  have roles: "is_live_role ''SLAVE''" "is_live_role ''OFFLINE''" "\<not> equalsIgnoreCase ''SLAVE'' ''MASTER''"
    by (simp_all add: is_live_role_def equalsIgnoreCase_def to_lower_def Let_def)
  show ?thesis
    by (simp add: onBecomeSlaveFromOffline_def numeral_2_eq_2 with_lock_def as_runtime_def slave_round_def java_defs ex_names roles ex_old_replica_def
        ex_cluster_def ex_state_model_def stateMap_def host_and_port_def addDB_slave_def addDB_role_def upstream_address_def checkLocalDB_def
        need_rebuild_def rebuild_def backupDB_def closeDB_def restoreLocalDB_def Let_def is_restore_def restore_of_def)
qed

theorem slave_follows_live_upstream_witness:
  "\<exists>s' tr db tr0 tr1.
     onBecomeSlaveFromOffline ex_old_replica id 2 ex_state_model \<lparr>hx_world = 5, hx_calls = []\<rparr> = (Inr True, s') \<and>
     hx_calls s' = tr \<and> list_ex is_restore tr \<and> restores_backed_up tr \<and> tr = tr0 @ tr1 \<and> slaved ex_state_model db tr1"
proof -
  obtain tr where run: "onBecomeSlaveFromOffline ex_old_replica id 2 ex_state_model \<lparr>hx_world = 5, hx_calls = []\<rparr> = (Inr True, \<lparr>hx_world = 7, hx_calls = tr\<rparr>)"
    "list_ex is_restore tr"
    using ex_slave by blast
  from slave_follows_live_upstream [OF _ run(1)] run show ?thesis by auto
qed

text \<open>
  When the lock cannot be acquired, the transition returns without having done anything, and Helix records a master.
\<close>

lemma promotion_skipped:
  "env_acquire env (sm_lock sm) (hx_world s) = (Some CheckedExn, w) \<Longrightarrow> onBecomeMasterFromSlave env sm s = (Inr (), s\<lparr>hx_world := w\<rparr>)"
  by (simp add: onBecomeMasterFromSlave_def with_lock_def catch_checked_def java_defs)

end
