(* ===== verification/Shard_Map.thy ===== *)
theory Shard_Map
  imports Cluster_Layout Helix_Utils "HOL-Library.AList"
begin

text \<open>
  \<open>cluster_management/.../ConfigGenerator.java\<close>: the shard map is generated from Helix's external views and published for the
  routers. What \<open>HelixAdmin\<close> returns is a record of values. JSON objects and hash maps are association lists with distinct keys;
  \<open>print\<close> is the \<open>toString\<close> of the JSON library. The theorem connects the generator with the parser of the routers,
  \<open>Cluster_Layout\<close>.
\<close>

section \<open>Helix\<close>

text \<open>An external view: the field for the number of partitions, and the partitions with the states of their instances.\<close>

record external_view =
  ev_num_partitions :: "string option"
  ev_partitions :: "(string \<times> (string \<times> string) list) list"

text \<open>
  \<open>ha_stateModel\<close>: \<open>None\<close> if there is no ideal state, \<open>Some None\<close> if it names no state model. \<open>ha_view\<close> and \<open>ha_domain\<close> are \<open>None\<close> if the
  call yields null or throws.
\<close>

record helix_admin =
  ha_resources :: "string list"
  ha_stateModel :: "string \<Rightarrow> string option option"
  ha_view :: "string \<Rightarrow> external_view option"
  ha_domain :: "string \<Rightarrow> string option"
  ha_disabled :: "string list"

record config_generator =
  hostToHostWithDomain :: "(string \<times> string) list"
  lastPostedContent :: "string option"
  disabledHosts :: "string list"

definition ConfigGenerator_ctor :: config_generator where
  "ConfigGenerator_ctor = \<lparr>hostToHostWithDomain = [], lastPostedContent = None, disabledHosts = []\<rparr>"

definition filterOutTaskResources :: "helix_admin \<Rightarrow> string list \<Rightarrow> string list" where
  "filterOutTaskResources admin = filter (\<lambda>res. ha_stateModel admin res \<noteq> Some (Some ''Task''))"

text \<open>The value after the first \<open>=\<close> in a component of the domain.\<close>

definition domain_value :: "string list \<Rightarrow> nat \<Rightarrow> string option" where
  "domain_value parts i =
    (if i < length parts
     then let kv = java_split CHR ''='' (parts ! i) in if 1 < length kv then Some (kv ! 1) else None
     else None)"

definition host_with_domain :: "helix_admin \<Rightarrow> string \<Rightarrow> string option" where
  "host_with_domain admin host =
    (case ha_domain admin host of
       None \<Rightarrow> None
     | Some domain \<Rightarrow>
         let parts = java_split CHR '','' domain
         in case (domain_value parts 0, domain_value parts 1) of
              (Some az, Some pg) \<Rightarrow> Some (map (\<lambda>c. if c = CHR ''_'' then CHR '':'' else c) host @ '':'' @ az @ ''_'' @ pg)
            | _ \<Rightarrow> None)"

definition getHostWithDomain :: "helix_admin \<Rightarrow> string \<Rightarrow> (string \<times> string) list \<Rightarrow> (string \<times> (string \<times> string) list) option" where
  "getHostWithDomain admin host cache =
    (case map_of cache host of
       Some hostWithDomain \<Rightarrow> Some (hostWithDomain, cache)
     | None \<Rightarrow> map_option (\<lambda>hostWithDomain. (hostWithDomain, AList.update host hostWithDomain cache)) (host_with_domain admin host))"

section \<open>Generating the map\<close>

definition serving :: "string \<Rightarrow> bool" where
  "serving state \<longleftrightarrow> equalsIgnoreCase state ''ONLINE'' \<or> equalsIgnoreCase state ''MASTER'' \<or> equalsIgnoreCase state ''SLAVE''"

definition partition_entry :: "string \<Rightarrow> string \<Rightarrow> string" where
  "partition_entry partitionNumber state =
    (if equalsIgnoreCase state ''SLAVE'' then partitionNumber @ '':S''
     else if equalsIgnoreCase state ''MASTER'' then partitionNumber @ '':M'' else partitionNumber)"

text \<open>
  The loops thread the hosts seen, the lists of the current resource and the cache of host names. An exception leaves them
  with the cache as it is then.
\<close>

type_synonym host_lists = "(string \<times> string list) list"

fun place_hosts ::
  "helix_admin \<Rightarrow> string list \<Rightarrow> string \<Rightarrow> (string \<times> string) list \<Rightarrow> string list \<Rightarrow> host_lists \<Rightarrow> (string \<times> string) list \<Rightarrow>
   (string \<times> string) list + string list \<times> host_lists \<times> (string \<times> string) list" where
  "place_hosts admin disabled partitionNumber [] existing hostLists cache = Inr (existing, hostLists, cache)"
| "place_hosts admin disabled partitionNumber ((host, state) # hostToState) existing hostLists cache =
    (let existing = List.insert host existing
     in if host \<in> set disabled \<or> \<not> serving state then place_hosts admin disabled partitionNumber hostToState existing hostLists cache
        else case getHostWithDomain admin host cache of
               None \<Rightarrow> Inl cache
             | Some (hostWithDomain, cache) \<Rightarrow>
                 let partitionList = (case map_of hostLists hostWithDomain of None \<Rightarrow> [] | Some l \<Rightarrow> l)
                 in place_hosts admin disabled partitionNumber hostToState existing
                      (AList.update hostWithDomain (partitionList @ [partition_entry partitionNumber state]) hostLists) cache)"

definition partition_number :: "string \<Rightarrow> int option" where
  "partition_number part = (let parts = java_split CHR ''_'' part in if parts = [] then None else parseInt (last parts))"

fun place_partitions ::
  "helix_admin \<Rightarrow> string list \<Rightarrow> (string \<times> (string \<times> string) list) list \<Rightarrow> string list \<Rightarrow> host_lists \<Rightarrow> (string \<times> string) list \<Rightarrow>
   (string \<times> string) list + string list \<times> host_lists \<times> (string \<times> string) list" where
  "place_partitions admin disabled [] existing hostLists cache = Inr (existing, hostLists, cache)"
| "place_partitions admin disabled ((part, hostToState) # partitions) existing hostLists cache =
    (case partition_number part of
       None \<Rightarrow> Inl cache
     | Some n \<Rightarrow>
         (case place_hosts admin disabled (show_padded 5 n) hostToState existing hostLists cache of
            Inl cache \<Rightarrow> Inl cache
          | Inr (existing, hostLists, cache) \<Rightarrow> place_partitions admin disabled partitions existing hostLists cache))"

definition resource_config :: "int \<Rightarrow> host_lists \<Rightarrow> json" where
  "resource_config num_shards hostLists =
    JObject ((''num_shards'', JInt num_shards) # map (\<lambda>(host, l). (host, JArray (map JString l))) hostLists)"

definition is_participant_leader :: "string \<Rightarrow> bool" where
  "is_participant_leader resource \<longleftrightarrow> take 18 resource = ''PARTICIPANT_LEADER''"

fun place_resources ::
  "helix_admin \<Rightarrow> string list \<Rightarrow> string list \<Rightarrow> string list \<Rightarrow> (string \<times> json) list \<Rightarrow> (string \<times> string) list \<Rightarrow>
   (string \<times> string) list + string list \<times> (string \<times> json) list \<times> (string \<times> string) list" where
  "place_resources admin disabled [] existing config cache = Inr (existing, config, cache)"
| "place_resources admin disabled (resource # resources) existing config cache =
    (if is_participant_leader resource then place_resources admin disabled resources existing config cache
     else case ha_view admin resource of
            None \<Rightarrow> Inl cache
          | Some view \<Rightarrow>
              (case (case ev_num_partitions view of None \<Rightarrow> None | Some s \<Rightarrow> parseInt s) of
                 None \<Rightarrow> Inl cache
               | Some num_shards \<Rightarrow>
                   (case place_partitions admin disabled (ev_partitions view) existing [] cache of
                      Inl cache \<Rightarrow> Inl cache
                    | Inr (existing, hostLists, cache) \<Rightarrow>
                        place_resources admin disabled resources existing
                          (AList.update resource (resource_config num_shards hostLists) config) cache)))"

text \<open>\<open>post\<close> tells whether the content was accepted. The result tells whether an exception was thrown.\<close>

definition generateShardConfig :: "helix_admin \<Rightarrow> (json \<Rightarrow> string) \<Rightarrow> (string \<Rightarrow> bool) \<Rightarrow> config_generator \<Rightarrow> bool \<times> config_generator" where
  "generateShardConfig admin print post cg =
    (case place_resources admin (disabledHosts cg) (filterOutTaskResources admin (ha_resources admin)) [] [] (hostToHostWithDomain cg) of
       Inl cache \<Rightarrow> (True, cg\<lparr>hostToHostWithDomain := cache\<rparr>)
     | Inr (existing, config, cache) \<Rightarrow>
         let cg = cg\<lparr>hostToHostWithDomain := filter (\<lambda>(host, _). host \<in> set existing) cache\<rparr>;
             newContent = print (JObject config)
         in if lastPostedContent cg = Some newContent then (False, cg)
            else if post newContent then (False, cg\<lparr>lastPostedContent := Some newContent\<rparr>) else (False, cg))"

definition updateDisabledHosts :: "helix_admin \<Rightarrow> config_generator \<Rightarrow> bool \<times> config_generator" where
  "updateDisabledHosts admin cg =
    (if set (disabledHosts cg) = set (ha_disabled admin) then (False, cg) else (True, cg\<lparr>disabledHosts := ha_disabled admin\<rparr>))"

datatype change_type = EXTERNAL_VIEW | INSTANCE_CONFIG | OTHER_CHANGE

definition onConfigChange :: "helix_admin \<Rightarrow> (json \<Rightarrow> string) \<Rightarrow> (string \<Rightarrow> bool) \<Rightarrow> config_generator \<Rightarrow> bool \<times> config_generator" where
  "onConfigChange admin print post cg =
    (case updateDisabledHosts admin cg of (True, cg) \<Rightarrow> generateShardConfig admin print post cg | (False, cg) \<Rightarrow> (False, cg))"

definition onExternalViewChange :: "helix_admin \<Rightarrow> (json \<Rightarrow> string) \<Rightarrow> (string \<Rightarrow> bool) \<Rightarrow> config_generator \<Rightarrow> bool \<times> config_generator" where
  "onExternalViewChange = generateShardConfig"

definition onCallback :: "helix_admin \<Rightarrow> (json \<Rightarrow> string) \<Rightarrow> (string \<Rightarrow> bool) \<Rightarrow> change_type \<Rightarrow> config_generator \<Rightarrow> bool \<times> config_generator" where
  "onCallback admin print post change cg =
    (case change of
       EXTERNAL_VIEW \<Rightarrow> generateShardConfig admin print post cg
     | INSTANCE_CONFIG \<Rightarrow> onConfigChange admin print post cg
     | OTHER_CHANGE \<Rightarrow> (False, cg))"

section \<open>Entries of the map\<close>

lemma show_padded_nonneg:
  assumes "0 \<le> i"
  shows "show_padded w i \<noteq> []" "list_all is_digit (show_padded w i)" "digits_value (show_padded w i) = nat i"
  using assms show_nat_digits [of "nat i"]
  by (auto simp: show_padded_def Let_def digits_value_zeros digits_value_show_nat list_all_iff is_digit_def)

lemma digit_not_special: "is_digit c \<Longrightarrow> \<not> is_space c \<and> c \<noteq> CHR 0x00 \<and> c \<noteq> CHR '':'' \<and> c \<noteq> CHR ''-'' \<and> c \<noteq> CHR ''+''"
  by (auto simp: is_digit_def is_space_def)

lemma atoi_digits:
  assumes "s \<noteq> []" "list_all is_digit s" "digits_value s < 2 ^ 31"
  shows "atoi s = int (digits_value s)"
proof -
  have special: "\<not> is_space c \<and> c \<noteq> CHR 0x00 \<and> c \<noteq> CHR ''-'' \<and> c \<noteq> CHR ''+''" if "c \<in> set s" for c
    using assms(2) that digit_not_special by (auto simp: list_all_iff)
  have 1: "takeWhile (\<lambda>c. c \<noteq> CHR 0x00) s = s" using special by (auto simp: takeWhile_eq_all_conv)
  have 2: "takeWhile is_digit s = s" using assms(2) by (auto simp: takeWhile_eq_all_conv list_all_iff)
  obtain c cs where s: "s = c # cs" using assms(1) by (cases s) auto
  have 3: "dropWhile is_space s = s" using special [of c] s by simp
  have "int (digits_value s) < 2 ^ 31" using assms(3) by simp
  then have "signed_take_bit 31 (int (digits_value s)) = int (digits_value s)" by (intro signed_take_bit_int_eq_self) auto
  moreover have "(case s of [] \<Rightarrow> (False, []) | c # cs \<Rightarrow> if c = CHR ''-'' then (True, cs) else if c = CHR ''+'' then (False, cs) else (False, s)) = (False, s)"
    using special [of c] s by simp
  ultimately show ?thesis using assms(3) by (simp add: atoi_def 1 2 3 Let_def)
qed

lemma split_at_none: "c \<notin> set xs \<Longrightarrow> split_at c xs = [xs]"
  by (induction xs) auto

lemma split_at_one: "c \<notin> set xs \<Longrightarrow> split_at c (xs @ c # ys) = xs # split_at c ys"
  by (induction xs) auto

definition role_of :: "string \<Rightarrow> router_role" where
  "role_of state = (if equalsIgnoreCase state ''SLAVE'' then R_SLAVE else R_MASTER)"

lemma parseShard_entry:
  assumes "0 \<le> n" "n < 2 ^ 31"
  shows "parseShard (partition_entry (show_padded 5 n) state) = Some (role_of state, word_of_int n)"
proof -
  note digits = show_padded_nonneg [OF assms(1), of 5]
  have "CHR '':'' \<notin> set (show_padded 5 n)" using digits(2) digit_not_special by (fastforce simp: list_all_iff)
  moreover have "atoi (show_padded 5 n) = n" using atoi_digits [OF digits(1,2)] digits(3) assms by (simp add: nat_less_iff)
  ultimately show ?thesis
    by (simp add: parseShard_def partition_entry_def role_of_def split_at_none split_at_one Let_def)
qed

section \<open>What the loops build\<close>

definition entries :: "host_lists \<Rightarrow> string \<Rightarrow> string list" where
  "entries hostLists k = (case map_of hostLists k of None \<Rightarrow> [] | Some l \<Rightarrow> l)"

definition cache_ok :: "helix_admin \<Rightarrow> (string \<times> string) list \<Rightarrow> bool" where
  "cache_ok admin cache \<longleftrightarrow> (\<forall>host d. map_of cache host = Some d \<longrightarrow> host_with_domain admin host = Some d)"

definition shown :: "string list \<Rightarrow> string \<times> string \<Rightarrow> bool" where
  "shown disabled hs \<longleftrightarrow> fst hs \<notin> set disabled \<and> serving (snd hs)"

definition places :: "helix_admin \<Rightarrow> string list \<Rightarrow> string \<Rightarrow> (string \<times> string) list \<Rightarrow> (string \<times> string) list" where
  "places admin disabled partitionNumber hostToState =
    map (\<lambda>(host, state). (the (host_with_domain admin host), partition_entry partitionNumber state)) (filter (shown disabled) hostToState)"

lemma places_simps [simp]:
  "places admin disabled pn [] = []"
  "places admin disabled pn ((host, state) # hostToState) =
    (if shown disabled (host, state) then [(the (host_with_domain admin host), partition_entry pn state)] else []) @ places admin disabled pn hostToState"
  by (simp_all add: places_def)

lemma getHostWithDomain_ok:
  assumes "cache_ok admin cache" "host_with_domain admin host = Some d"
  shows "\<exists>cache'. getHostWithDomain admin host cache = Some (d, cache') \<and> cache_ok admin cache'"
proof (cases "map_of cache host")
  case None
  with assms show ?thesis by (auto simp: getHostWithDomain_def cache_ok_def AList.update_conv')
next
  case (Some d')
  with assms show ?thesis by (auto simp: getHostWithDomain_def cache_ok_def)
qed

lemma place_hosts_spec:
  assumes "cache_ok admin cache" "distinct (map fst hostLists)"
    "list_all (\<lambda>hs. shown disabled hs \<longrightarrow> host_with_domain admin (fst hs) \<noteq> None) hostToState"
  shows "\<exists>existing' hostLists' cache'. place_hosts admin disabled pn hostToState existing hostLists cache = Inr (existing', hostLists', cache') \<and>
    cache_ok admin cache' \<and> distinct (map fst hostLists') \<and>
    fst ` set hostLists' = fst ` set hostLists \<union> fst ` set (places admin disabled pn hostToState) \<and>
    (\<forall>k. entries hostLists' k = entries hostLists k @ map snd (filter (\<lambda>x. fst x = k) (places admin disabled pn hostToState)))"
  using assms
proof (induction hostToState arbitrary: existing hostLists cache)
  case (Cons hs hostToState)
  obtain host state where hs: "hs = (host, state)" by (cases hs)
  show ?case
  proof (cases "shown disabled hs")
    case False
    then have "place_hosts admin disabled pn (hs # hostToState) existing hostLists cache =
        place_hosts admin disabled pn hostToState (List.insert host existing) hostLists cache" by (auto simp: hs shown_def)
    with Cons.IH [OF Cons.prems(1,2), of "List.insert host existing"] Cons.prems(3) False hs show ?thesis by simp
  next
    case True
    with Cons.prems(3) hs obtain d where d: "host_with_domain admin host = Some d" by auto
    from getHostWithDomain_ok [OF Cons.prems(1) d] obtain cache1 where
      c1: "getHostWithDomain admin host cache = Some (d, cache1)" "cache_ok admin cache1" by blast
    let ?l1 = "AList.update d (entries hostLists d @ [partition_entry pn state]) hostLists"
    have l1: "distinct (map fst ?l1)" "fst ` set ?l1 = insert d (fst ` set hostLists)"
      "entries ?l1 k = (if k = d then entries hostLists d @ [partition_entry pn state] else entries hostLists k)" for k
      using Cons.prems(2) by (auto simp: distinct_update dom_update update_conv' entries_def)
    have step: "place_hosts admin disabled pn (hs # hostToState) existing hostLists cache =
        place_hosts admin disabled pn hostToState (List.insert host existing) ?l1 cache1"
      using True c1(1) by (simp add: hs shown_def entries_def Let_def)
    from Cons.IH [OF c1(2) l1(1), of "List.insert host existing"] Cons.prems(3) True hs d show ?thesis
      unfolding step by (auto simp: l1)
  qed
qed auto

definition all_places :: "helix_admin \<Rightarrow> string list \<Rightarrow> (string \<times> (string \<times> string) list) list \<Rightarrow> (string \<times> string) list" where
  "all_places admin disabled partitions =
    concat (map (\<lambda>(part, hostToState). places admin disabled (show_padded 5 (the (partition_number part))) hostToState) partitions)"

text \<open>
  The views the generator can read: partitions are numbered below the number of partitions, and every instance that is
  shown has a name that the parser of the routers accepts, with the address \<open>addr\<close>.
\<close>

definition host_ok :: "helix_admin \<Rightarrow> (string \<Rightarrow> u16 \<Rightarrow> 'a option) \<Rightarrow> (string \<Rightarrow> 'a) \<Rightarrow> string \<Rightarrow> bool" where
  "host_ok admin setFromIpPort addr host \<longleftrightarrow>
    (case host_with_domain admin host of None \<Rightarrow> False | Some key \<Rightarrow> host_address setFromIpPort key = Some (addr host))"

definition partition_ok ::
  "helix_admin \<Rightarrow> (string \<Rightarrow> u16 \<Rightarrow> 'a option) \<Rightarrow> (string \<Rightarrow> 'a) \<Rightarrow> string list \<Rightarrow> int \<Rightarrow> string \<times> (string \<times> string) list \<Rightarrow> bool" where
  "partition_ok admin setFromIpPort addr disabled n ph \<longleftrightarrow>
    (case partition_number (fst ph) of None \<Rightarrow> False | Some k \<Rightarrow> 0 \<le> k \<and> k < n) \<and>
    list_all (\<lambda>hs. shown disabled hs \<longrightarrow> host_ok admin setFromIpPort addr (fst hs)) (snd ph)"

definition num_shards_of :: "external_view \<Rightarrow> int option" where
  "num_shards_of view = (case ev_num_partitions view of None \<Rightarrow> None | Some s \<Rightarrow> parseInt s)"

definition resource_ok :: "helix_admin \<Rightarrow> (string \<Rightarrow> u16 \<Rightarrow> 'a option) \<Rightarrow> (string \<Rightarrow> 'a) \<Rightarrow> string list \<Rightarrow> string \<Rightarrow> bool" where
  "resource_ok admin setFromIpPort addr disabled resource \<longleftrightarrow>
    (case ha_view admin resource of
       None \<Rightarrow> False
     | Some view \<Rightarrow> (case num_shards_of view of
         None \<Rightarrow> False
       | Some n \<Rightarrow> 0 \<le> n \<and> list_all (partition_ok admin setFromIpPort addr disabled n) (ev_partitions view)))"

lemma all_places_simps [simp]:
  "all_places admin disabled [] = []"
  "all_places admin disabled ((part, hostToState) # partitions) =
    places admin disabled (show_padded 5 (the (partition_number part))) hostToState @ all_places admin disabled partitions"
  by (simp_all add: all_places_def)

lemma place_partitions_spec:
  assumes "cache_ok admin cache" "distinct (map fst hostLists)" "list_all (partition_ok admin setFromIpPort addr disabled n) partitions"
  shows "\<exists>existing' hostLists' cache'. place_partitions admin disabled partitions existing hostLists cache = Inr (existing', hostLists', cache') \<and>
    cache_ok admin cache' \<and> distinct (map fst hostLists') \<and>
    fst ` set hostLists' = fst ` set hostLists \<union> fst ` set (all_places admin disabled partitions) \<and>
    (\<forall>k. entries hostLists' k = entries hostLists k @ map snd (filter (\<lambda>x. fst x = k) (all_places admin disabled partitions)))"
  using assms
proof (induction partitions arbitrary: existing hostLists cache)
  case (Cons ph partitions)
  obtain part hostToState where ph: "ph = (part, hostToState)" by (cases ph)
  with Cons.prems(3) obtain k where k: "partition_number part = Some k" by (auto simp: partition_ok_def split: option.splits)
  have "list_all (\<lambda>hs. shown disabled hs \<longrightarrow> host_with_domain admin (fst hs) \<noteq> None) hostToState"
    using Cons.prems(3) ph by (auto simp: partition_ok_def host_ok_def list_all_iff split: option.splits)
  from place_hosts_spec [OF Cons.prems(1,2) this, where pn = "show_padded 5 k" and existing = existing]
  obtain existing1 hostLists1 cache1 where
    h: "place_hosts admin disabled (show_padded 5 k) hostToState existing hostLists cache = Inr (existing1, hostLists1, cache1)"
      "cache_ok admin cache1" "distinct (map fst hostLists1)"
      "fst ` set hostLists1 = fst ` set hostLists \<union> fst ` set (places admin disabled (show_padded 5 k) hostToState)"
      "\<forall>key. entries hostLists1 key = entries hostLists key @ map snd (filter (\<lambda>x. fst x = key) (places admin disabled (show_padded 5 k) hostToState))"
    by (elim exE conjE) (rule that)
  from Cons.IH [OF h(2,3), of existing1] Cons.prems(3) show ?case
    by (simp add: ph k h(1,4,5) image_Un Un_assoc)
qed auto

definition built :: "helix_admin \<Rightarrow> string list \<Rightarrow> string \<Rightarrow> json \<Rightarrow> bool" where
  "built admin disabled resource v \<longleftrightarrow> (\<exists>view n hostLists. ha_view admin resource = Some view \<and> num_shards_of view = Some n \<and>
     v = resource_config n hostLists \<and> distinct (map fst hostLists) \<and> fst ` set hostLists = fst ` set (all_places admin disabled (ev_partitions view)) \<and>
     (\<forall>k. entries hostLists k = map snd (filter (\<lambda>x. fst x = k) (all_places admin disabled (ev_partitions view)))))"

lemma place_resources_spec:
  assumes "cache_ok admin cache" "distinct (map fst config)" "\<And>r v. map_of config r = Some v \<Longrightarrow> built admin disabled r v"
    "\<And>r. r \<in> set resources \<Longrightarrow> \<not> is_participant_leader r \<Longrightarrow> resource_ok admin setFromIpPort addr disabled r"
  shows "\<exists>existing' config' cache'. place_resources admin disabled resources existing config cache = Inr (existing', config', cache') \<and>
    distinct (map fst config') \<and> (\<forall>r v. map_of config' r = Some v \<longrightarrow> built admin disabled r v) \<and>
    fst ` set config' = fst ` set config \<union> {r \<in> set resources. \<not> is_participant_leader r}"
  using assms
proof (induction resources arbitrary: existing config cache)
  case (Cons r resources)
  show ?case
  proof (cases "is_participant_leader r")
    case True
    then have "{r' \<in> set (r # resources). \<not> is_participant_leader r'} = {r' \<in> set resources. \<not> is_participant_leader r'}" by auto
    with Cons.IH [OF Cons.prems(1,2,3), of existing] Cons.prems(4) True show ?thesis by simp
  next
    case False
    with Cons.prems(4) [of r] obtain view n where v: "ha_view admin r = Some view" "num_shards_of view = Some n"
      "list_all (partition_ok admin setFromIpPort addr disabled n) (ev_partitions view)"
      by (auto simp: resource_ok_def split: option.splits)
    from place_partitions_spec [OF Cons.prems(1) _ v(3), of "[]" existing] obtain existing1 hostLists cache1 where
      h: "place_partitions admin disabled (ev_partitions view) existing [] cache = Inr (existing1, hostLists, cache1)" "cache_ok admin cache1"
        "distinct (map fst hostLists)" "fst ` set hostLists = fst ` set (all_places admin disabled (ev_partitions view))"
        "\<forall>k. entries hostLists k = map snd (filter (\<lambda>x. fst x = k) (all_places admin disabled (ev_partitions view)))"
      by (auto simp: entries_def)
    let ?config = "AList.update r (resource_config n hostLists) config"
    have "built admin disabled r (resource_config n hostLists)" using v h unfolding built_def by blast
    with Cons.prems(3) have "built admin disabled r' v" if "map_of ?config r' = Some v" for r' v
      using that by (auto simp: update_conv' split: if_splits)
    moreover have "distinct (map fst ?config)" "fst ` set ?config = insert r (fst ` set config)"
      using Cons.prems(2) by (auto simp: distinct_update dom_update)
    moreover have "place_resources admin disabled (r # resources) existing config cache = place_resources admin disabled resources existing1 ?config cache1"
      using False v(1,2) h(1) by (simp add: num_shards_of_def)
    moreover have "{r' \<in> set (r # resources). \<not> is_participant_leader r'} = insert r {r' \<in> set resources. \<not> is_participant_leader r'}"
      using False by auto
    ultimately show ?thesis using Cons.IH [OF h(2), of ?config existing1] Cons.prems(4) by simp
  qed
qed auto

section \<open>What the routers read\<close>

text \<open>The instances that a view shows for a shard.\<close>

definition served :: "string list \<Rightarrow> (string \<Rightarrow> 'a) \<Rightarrow> external_view \<Rightarrow> nat \<Rightarrow> ('a \<times> router_role) set" where
  "served disabled addr view i =
    {(addr host, role_of state) | part hostToState host state. (part, hostToState) \<in> set (ev_partitions view) \<and>
       partition_number part = Some (int i) \<and> (host, state) \<in> set hostToState \<and> shown disabled (host, state)}"

lemma parseInt_bound: "parseInt s = Some n \<Longrightarrow> n < 2 ^ 31"
  by (auto simp: parseInt_def Let_def split: list.splits if_splits)

lemma host_with_domain_colon: "host_with_domain admin host = Some key \<Longrightarrow> CHR '':'' \<in> set key"
  by (auto simp: host_with_domain_def Let_def split: option.splits)

lemma in_all_places:
  "(k, e) \<in> set (all_places admin disabled partitions) \<longleftrightarrow>
    (\<exists>part hostToState host state. (part, hostToState) \<in> set partitions \<and> (host, state) \<in> set hostToState \<and> shown disabled (host, state) \<and>
       k = the (host_with_domain admin host) \<and> e = partition_entry (show_padded 5 (the (partition_number part))) state)"
  by (fastforce simp: all_places_def places_def)

text \<open>The entries of the map, one for each instance that is shown.\<close>

lemma place_entry:
  assumes "(k, e) \<in> set (all_places admin disabled partitions)" "list_all (partition_ok admin setFromIpPort addr disabled n) partitions" "n < 2 ^ 31"
  obtains part hostToState host state j where "(part, hostToState) \<in> set partitions" "(host, state) \<in> set hostToState" "shown disabled (host, state)"
    "partition_number part = Some j" "0 \<le> j" "j < n" "parseShard e = Some (role_of state, word_of_int j)"
    "host_address setFromIpPort k = Some (addr host)" "CHR '':'' \<in> set k"
proof -
  from assms(1) obtain part hostToState host state where p: "(part, hostToState) \<in> set partitions" "(host, state) \<in> set hostToState"
    "shown disabled (host, state)" "k = the (host_with_domain admin host)" "e = partition_entry (show_padded 5 (the (partition_number part))) state"
    unfolding in_all_places by blast
  with assms(2) have "partition_ok admin setFromIpPort addr disabled n (part, hostToState)" by (auto simp: list_all_iff)
  then obtain j where j: "partition_number part = Some j" "0 \<le> j" "j < n"
    and host: "list_all (\<lambda>hs. shown disabled hs \<longrightarrow> host_ok admin setFromIpPort addr (fst hs)) hostToState"
    by (auto simp: partition_ok_def split: option.splits)
  from host p(2,3) have "host_ok admin setFromIpPort addr host" by (fastforce simp: list_all_iff)
  then obtain key where "host_with_domain admin host = Some key" "host_address setFromIpPort key = Some (addr host)"
    by (auto simp: host_ok_def split: option.splits)
  with p j parseShard_entry [of j state] assms(3) host_with_domain_colon show thesis by (intro that [of part hostToState host state j]) auto
qed

lemma place_exists:
  assumes "(part, hostToState) \<in> set partitions" "(host, state) \<in> set hostToState" "shown disabled (host, state)"
    "partition_number part = Some j" "list_all (partition_ok admin setFromIpPort addr disabled n) partitions" "n < 2 ^ 31"
  obtains k e where "(k, e) \<in> set (all_places admin disabled partitions)" "host_address setFromIpPort k = Some (addr host)"
    "parseShard e = Some (role_of state, word_of_int j)"
proof -
  from assms(1,5) have ok: "partition_ok admin setFromIpPort addr disabled n (part, hostToState)" by (auto simp: list_all_iff)
  with assms(2,3) have "host_ok admin setFromIpPort addr host" by (fastforce simp: list_all_iff partition_ok_def)
  then have "host_address setFromIpPort (the (host_with_domain admin host)) = Some (addr host)" by (auto simp: host_ok_def split: option.splits)
  moreover have "parseShard (partition_entry (show_padded 5 j) state) = Some (role_of state, word_of_int j)"
    using ok assms(4,6) by (intro parseShard_entry) (auto simp: partition_ok_def)
  moreover have "(the (host_with_domain admin host), partition_entry (show_padded 5 j) state) \<in> set (all_places admin disabled partitions)"
    unfolding in_all_places using assms(1-4) by force
  ultimately show thesis by (intro that)
qed

lemma unat_small: "0 \<le> n \<Longrightarrow> n < 2 ^ 31 \<Longrightarrow> unat (word_of_int n :: u32) = nat n"
  by (simp add: unsigned_of_int take_bit_int_eq_self)

lemma listed_roles_iff: "role \<in> set (listed_roles (map JString l) i) \<longleftrightarrow> (\<exists>e \<in> set l. \<exists>w. parseShard e = Some (role, w) \<and> unat w = i)"
  by (force simp: listed_roles_def List.map_filter_def shard_entry_def)

lemma host_entries:
  assumes "distinct (map fst hostLists)" "fst ` set hostLists = fst ` set places'" "\<forall>k. entries hostLists k = map snd (filter (\<lambda>x. fst x = k) places')"
  shows "(k, l) \<in> set hostLists \<longleftrightarrow> k \<in> fst ` set places' \<and> l = map snd (filter (\<lambda>x. fst x = k) places')"
proof -
  have found: "l' = entries hostLists k" if "(k, l') \<in> set hostLists" for l' using assms(1) that by (simp add: entries_def)
  show ?thesis
  proof
    assume "(k, l) \<in> set hostLists"
    moreover from this have "k \<in> fst ` set places'" unfolding assms(2) [symmetric] by (rule image_eqI [rotated]) simp
    ultimately show "k \<in> fst ` set places' \<and> l = map snd (filter (\<lambda>x. fst x = k) places')" using found assms(3) by simp
  next
    assume "k \<in> fst ` set places' \<and> l = map snd (filter (\<lambda>x. fst x = k) places')"
    moreover from this obtain l' where "(k, l') \<in> set hostLists" unfolding assms(2) [symmetric] by auto
    ultimately show "(k, l) \<in> set hostLists" using found assms(3) by simp
  qed
qed

text \<open>The pairs the parser reads from the lists of a resource, and those the view shows, are the entries of \<open>all_places\<close>.\<close>

lemma listed_iff: "(a, role) \<in> set (listed setFromIpPort ms i) \<longleftrightarrow>
    (\<exists>k v. (k, v) \<in> set ms \<and> \<not> is_shard_number_key k \<and> a = the (host_address setFromIpPort k) \<and> role \<in> set (listed_roles (array_of v) i))"
  by (induction ms) (auto simp: listed_def)

lemma read_places:
  assumes "\<And>k l. (k, l) \<in> set hostLists \<longleftrightarrow> k \<in> fst ` set places' \<and> l = map snd (filter (\<lambda>x. fst x = k) places')"
    "\<And>k e. (k, e) \<in> set places' \<Longrightarrow> \<not> is_shard_number_key k"
    "set ms = insert (''num_shards'', v) ((\<lambda>(host, l). (host, JArray (map JString l))) ` set hostLists)"
  shows "(a, role) \<in> set (listed setFromIpPort ms i) \<longleftrightarrow>
    (\<exists>k e w. (k, e) \<in> set places' \<and> a = the (host_address setFromIpPort k) \<and> parseShard e = Some (role, w) \<and> unat w = i)"
proof -
  have number: "is_shard_number_key ''num_shards''" by (simp add: is_shard_number_key_def)
  have members: "(k, v') \<in> set ms \<longleftrightarrow> k = ''num_shards'' \<and> v' = v \<or> (\<exists>l. (k, l) \<in> set hostLists \<and> v' = JArray (map JString l))" for k v'
    unfolding assms(3) by auto
  have no_number: "\<not> is_shard_number_key k" if "k \<in> fst ` set places'" for k using that assms(2) by auto
  have array: "array_of (JArray xs) = xs" for xs by (simp add: array_of_def)
  have "(a, role) \<in> set (listed setFromIpPort ms i) \<longleftrightarrow>
    (\<exists>k l. (k, l) \<in> set hostLists \<and> \<not> is_shard_number_key k \<and> a = the (host_address setFromIpPort k) \<and> role \<in> set (listed_roles (map JString l) i))"
    unfolding listed_iff members using number array by metis
  also have "\<dots> \<longleftrightarrow> (\<exists>k. k \<in> fst ` set places' \<and> a = the (host_address setFromIpPort k) \<and>
      role \<in> set (listed_roles (map JString (map snd (filter (\<lambda>x. fst x = k) places'))) i))"
    unfolding assms(1) using no_number by blast
  also have "\<dots> \<longleftrightarrow> (\<exists>k e w. (k, e) \<in> set places' \<and> a = the (host_address setFromIpPort k) \<and> parseShard e = Some (role, w) \<and> unat w = i)"
    unfolding listed_roles_iff by fastforce
  finally show ?thesis .
qed

lemma served_places:
  assumes "list_all (partition_ok admin setFromIpPort addr disabled n) (ev_partitions view)" "n < 2 ^ 31" "i < nat n"
  shows "(a, role) \<in> served disabled addr view i \<longleftrightarrow>
    (\<exists>k e w. (k, e) \<in> set (all_places admin disabled (ev_partitions view)) \<and> a = the (host_address setFromIpPort k) \<and>
       parseShard e = Some (role, w) \<and> unat w = i)" (is "?l \<longleftrightarrow> ?r")
proof
  assume ?l
  then obtain part hostToState host state where p: "(part, hostToState) \<in> set (ev_partitions view)" "(host, state) \<in> set hostToState"
    "shown disabled (host, state)" "partition_number part = Some (int i)" and a: "a = addr host" "role = role_of state"
    by (auto simp: served_def)
  have "unat (word_of_int (int i) :: u32) = i" using unat_small [of "int i"] assms(2,3) by simp
  moreover obtain k e where "(k, e) \<in> set (all_places admin disabled (ev_partitions view))"
    "host_address setFromIpPort k = Some (addr host)" "parseShard e = Some (role_of state, word_of_int (int i))"
    by (rule place_exists [OF p assms(1,2)])
  ultimately show ?r unfolding a by (intro exI [of _ k] exI [of _ e] exI [of _ "word_of_int (int i)"]) simp
next
  assume ?r
  then obtain k e w where e: "(k, e) \<in> set (all_places admin disabled (ev_partitions view))" "a = the (host_address setFromIpPort k)"
    "parseShard e = Some (role, w)" "unat w = i" by blast
  show ?l
  proof (rule place_entry [OF e(1) assms(1,2)])
    fix part hostToState host state j
    assume p: "(part, hostToState) \<in> set (ev_partitions view)" "(host, state) \<in> set hostToState" "shown disabled (host, state)"
      "partition_number part = Some j" "0 \<le> j" "j < n" "parseShard e = Some (role_of state, word_of_int j)"
      "host_address setFromIpPort k = Some (addr host)"
    then have "j = int i" using e(3,4) unat_small [of j] assms(2) by auto
    with p e show ?l unfolding served_def by fastforce
  qed
qed

lemma built_segment:
  assumes "built admin disabled r (JObject ms)" "resource_ok admin setFromIpPort addr disabled r" "mset ms' = mset ms" "ha_view admin r = Some view"
    "num_shards_of view = Some n"
  shows "segment_ok setFromIpPort (JObject ms') \<and> shard_number_of ms' = Some (word_of_int n) \<and> unat (word_of_int n :: u32) = nat n \<and>
    (\<forall>i < nat n. set (listed setFromIpPort ms' i) = served disabled addr view i)"
proof -
  let ?ps = "all_places admin disabled (ev_partitions view)"
  from assms(1,4,5) obtain hostLists where b: "ms = (''num_shards'', JInt n) # map (\<lambda>(host, l). (host, JArray (map JString l))) hostLists"
    "distinct (map fst hostLists)" "fst ` set hostLists = fst ` set ?ps" "\<forall>k. entries hostLists k = map snd (filter (\<lambda>x. fst x = k) ?ps)"
    by (auto simp: built_def resource_config_def)
  have n: "0 \<le> n" "n < 2 ^ 31" and parts: "list_all (partition_ok admin setFromIpPort addr disabled n) (ev_partitions view)"
    using assms(2,4,5) parseInt_bound by (auto simp: resource_ok_def num_shards_of_def split: option.splits)
  have host: "(k, l) \<in> set hostLists \<longleftrightarrow> k \<in> fst ` set ?ps \<and> l = map snd (filter (\<lambda>x. fst x = k) ?ps)" for k l
    by (rule host_entries [OF b(2,3,4)])
  have key: "host_address setFromIpPort k \<noteq> None \<and> \<not> is_shard_number_key k \<and> k \<noteq> ''num_leaf_segments''" if "(k, e) \<in> set ?ps" for k e
    using place_entry [OF that parts n(2)] by (fastforce simp: is_shard_number_key_def)
  have entry: "\<exists>role w. parseShard e = Some (role, w) \<and> w < word_of_int n" if "(k, e) \<in> set ?ps" for k e
  proof (rule place_entry [OF that parts n(2)])
    fix state j assume j: "0 \<le> j" "j < n" "parseShard e = Some (role_of state, word_of_int j)"
    then have "(word_of_int j :: u32) < word_of_int n" using n by (simp add: word_less_nat_alt unat_small)
    with j show ?thesis by blast
  qed
  have no_number: "k \<noteq> ''num_leaf_segments'' \<and> k \<noteq> ''num_shards''" if "(k, l) \<in> set hostLists" for k l
    using that key by (fastforce simp: host is_shard_number_key_def)
  have "distinct (map fst ms)" using b(2) by (auto simp: b(1) comp_def case_prod_beta' dest: no_number)
  then have keys: "distinct (map fst ms')" "set ms' = set ms" using assms(3) by (metis mset_eq_imp_distinct_iff mset_map, metis set_mset_mset)
  have number: "map_of ms' ''num_leaf_segments'' = None" "map_of ms' ''num_shards'' = Some (JInt n)"
    using keys by (auto simp: map_of_eq_None_iff b(1) dest: no_number)
  have members: "set ms' = insert (''num_shards'', JInt n) ((\<lambda>(host, l). (host, JArray (map JString l))) ` set hostLists)"
    by (simp add: keys b(1))
  have "list_all (\<lambda>j. case shard_entry j of None \<Rightarrow> False | Some (_, shard) \<Rightarrow> shard < word_of_int n) (map JString l)"
    if "(k, l) \<in> set hostLists" for k l
    using that entry by (fastforce simp: host list_all_iff shard_entry_def)
  moreover have "host_address setFromIpPort k \<noteq> None" if "(k, l) \<in> set hostLists" for k l using that key by (auto simp: host)
  ultimately have "list_all (member_ok setFromIpPort (word_of_int n)) ms'"
    by (fastforce simp: list_all_iff members member_ok_def is_shard_number_key_def array_of_def Option.is_none_def split: option.splits)
  moreover have "set (listed setFromIpPort ms' i) = served disabled addr view i" if "i < nat n" for i
  proof -
    have "\<not> is_shard_number_key k" if "(k, e) \<in> set ?ps" for k e using key [OF that] by simp
    from read_places [OF host this members] served_places [OF parts n(2) that]
    have "ar \<in> set (listed setFromIpPort ms' i) \<longleftrightarrow> ar \<in> served disabled addr view i" for ar by (cases ar) (simp only:)
    then show ?thesis by blast
  qed
  ultimately show ?thesis using number unat_small [OF n] by (simp add: segment_ok_def shard_number_of_def)
qed

text \<open>The resources that are published, and the map that is printed for them.\<close>

definition published :: "helix_admin \<Rightarrow> string list" where
  "published admin = filter (\<lambda>r. \<not> is_participant_leader r) (filterOutTaskResources admin (ha_resources admin))"

definition shard_map :: "helix_admin \<Rightarrow> config_generator \<Rightarrow> (string \<times> json) list" where
  "shard_map admin cg =
    (case place_resources admin (disabledHosts cg) (filterOutTaskResources admin (ha_resources admin)) [] [] (hostToHostWithDomain cg) of
       Inl _ \<Rightarrow> [] | Inr (_, config, _) \<Rightarrow> config)"

text \<open>An object of objects may be printed, and read again, with the members in another order.\<close>

definition reordered :: "(string \<times> json) list \<Rightarrow> (string \<times> json) list \<Rightarrow> bool" where
  "reordered config root \<longleftrightarrow> distinct (map fst root) \<and> set (map fst root) = set (map fst config) \<and>
    list_all (\<lambda>(r, v). case (v, map_of config r) of (JObject ms, Some (JObject ms0)) \<Rightarrow> mset ms = mset ms0 | _ \<Rightarrow> False) root"

lemma generate_published:
  assumes "cache_ok admin (hostToHostWithDomain cg)" "list_all (resource_ok admin setFromIpPort addr (disabledHosts cg)) (published admin)"
    "generateShardConfig admin print (\<lambda>_. True) cg = (thrown, cg')"
  shows "\<not> thrown" "lastPostedContent cg' = Some (print (JObject (shard_map admin cg)))" "distinct (map fst (shard_map admin cg))"
    "fst ` set (shard_map admin cg) = set (published admin)"
    "map_of (shard_map admin cg) r = Some v \<Longrightarrow> built admin (disabledHosts cg) r v"
proof -
  let ?rs = "filterOutTaskResources admin (ha_resources admin)"
  have "resource_ok admin setFromIpPort addr (disabledHosts cg) r" if "r \<in> set ?rs" "\<not> is_participant_leader r" for r
    using assms(2) that by (simp add: published_def list_all_iff)
  from place_resources_spec [OF assms(1), of "[]" "disabledHosts cg" ?rs setFromIpPort addr "[]"] this
  obtain existing config cache where
    c: "place_resources admin (disabledHosts cg) ?rs [] [] (hostToHostWithDomain cg) = Inr (existing, config, cache)" "distinct (map fst config)"
      "\<forall>r v. map_of config r = Some v \<longrightarrow> built admin (disabledHosts cg) r v" "fst ` set config = {r \<in> set ?rs. \<not> is_participant_leader r}"
    by auto
  have m: "shard_map admin cg = config" by (simp add: shard_map_def c(1))
  show "\<not> thrown" "lastPostedContent cg' = Some (print (JObject (shard_map admin cg)))"
    using assms(3) by (auto simp: generateShardConfig_def c(1) m Let_def split: if_splits)
  show "distinct (map fst (shard_map admin cg))" "fst ` set (shard_map admin cg) = set (published admin)"
    "map_of (shard_map admin cg) r = Some v \<Longrightarrow> built admin (disabledHosts cg) r v"
    using c(2-4) by (auto simp: m published_def)
qed

lemma list_all2_map_of:
  assumes "list_all2 P xs ys" "\<And>x y. P x y \<Longrightarrow> fst y = fst x" "map_of xs k = Some v"
  shows "\<exists>w. map_of ys k = Some w \<and> P (k, v) (k, w)"
  using assms(1,3)
proof (induction rule: list_all2_induct)
  case (Cons x xs y ys)
  with assms(2) [OF Cons.hyps(1)] show ?case by (cases x; cases y) (auto split: if_splits)
qed simp

lemma reordered_built:
  assumes "reordered config root" "map_of root r = Some v"
  obtains ms ms0 where "v = JObject ms" "map_of config r = Some (JObject ms0)" "mset ms = mset ms0"
proof -
  from assms(2) have "(r, v) \<in> set root" by (rule map_of_SomeD)
  from assms(1) [unfolded reordered_def list_all_iff, THEN conjunct2, THEN conjunct2, THEN bspec, OF this]
  have "case (v, map_of config r) of (JObject ms, Some (JObject ms0)) \<Rightarrow> mset ms = mset ms0 | _ \<Rightarrow> False" by (simp only: prod.case)
  then show thesis using that by (simp split: json.splits option.splits)
qed

lemma read_resource:
  assumes "cache_ok admin (hostToHostWithDomain cg)" "list_all (resource_ok admin setFromIpPort addr (disabledHosts cg)) (published admin)"
    "generateShardConfig admin print (\<lambda>_. True) cg = (thrown, cg')" "reordered (shard_map admin cg) root" "map_of root r = Some v"
  shows "\<exists>ms view n. v = JObject ms \<and> ha_view admin r = Some view \<and> num_shards_of view = Some n \<and> segment_ok setFromIpPort v \<and>
    shard_number_of ms = Some (word_of_int n) \<and> unat (word_of_int n :: u32) = nat n \<and>
    (\<forall>i < nat n. set (listed setFromIpPort ms i) = served (disabledHosts cg) addr view i)"
proof (rule reordered_built [OF assms(4,5)])
  note gen = generate_published [OF assms(1-3)]
  fix ms ms0 assume m: "v = JObject ms" "map_of (shard_map admin cg) r = Some (JObject ms0)" "mset ms = mset ms0"
  then have "r \<in> set (published admin)" using gen(4) by (metis domI dom_map_of_conv_image_fst)
  with assms(2) have ok: "resource_ok admin setFromIpPort addr (disabledHosts cg) r" by (simp add: list_all_iff)
  then obtain view n where "ha_view admin r = Some view" "num_shards_of view = Some n" by (auto simp: resource_ok_def split: option.splits)
  with built_segment [OF gen(5) [OF m(2)] ok m(3)] m(1) show ?thesis by blast
qed

section \<open>The cache of host names\<close>

text \<open>What the loops do to the cache and to the hosts seen, whether they end with an exception or not.\<close>

definition names_ok :: "helix_admin \<Rightarrow> (string \<times> string) list \<Rightarrow> bool" where
  "names_ok admin cache \<longleftrightarrow> distinct (map fst cache) \<and> cache_ok admin cache"

lemma getHostWithDomain_names:
  assumes "names_ok admin cache" "getHostWithDomain admin host cache = Some (name, cache')"
  shows "names_ok admin cache'"
  using assms
  by (auto simp: getHostWithDomain_def names_ok_def cache_ok_def distinct_update update_conv' split: option.splits if_splits)

definition loop_ok :: "helix_admin \<Rightarrow> string set \<Rightarrow> (string \<times> string) list + string list \<times> 'b \<times> (string \<times> string) list \<Rightarrow> bool" where
  "loop_ok admin hosts r \<longleftrightarrow> (case r of Inl cache \<Rightarrow> names_ok admin cache | Inr (existing, _, cache) \<Rightarrow> names_ok admin cache \<and> set existing = hosts)"

lemma place_hosts_loop:
  "names_ok admin cache \<Longrightarrow>
    loop_ok admin (set existing \<union> fst ` set hostToState) (place_hosts admin disabled pn hostToState existing hostLists cache)"
proof (induction hostToState arbitrary: existing hostLists cache)
  case (Cons hs hostToState)
  obtain host state where hs: "hs = (host, state)" by (cases hs)
  from Cons.IH [of _ "List.insert host existing"] Cons.prems getHostWithDomain_names [OF Cons.prems] show ?case
    by (auto simp: hs Let_def loop_ok_def [of _ _ "Inl _"] Un_insert_right Un_insert_left split: option.split)
qed (simp add: loop_ok_def)

lemma place_partitions_loop:
  "names_ok admin cache \<Longrightarrow>
    loop_ok admin (set existing \<union> (\<Union>(_, hostToState) \<in> set partitions. fst ` set hostToState))
      (place_partitions admin disabled partitions existing hostLists cache)"
proof (induction partitions arbitrary: existing hostLists cache)
  case (Cons ph partitions)
  obtain part hostToState where ph: "ph = (part, hostToState)" by (cases ph)
  show ?case
  proof (cases "partition_number part")
    case None
    then show ?thesis using Cons.prems by (simp add: ph loop_ok_def)
  next
    case (Some n)
    have h: "loop_ok admin (set existing \<union> fst ` set hostToState) (place_hosts admin disabled (show_padded 5 n) hostToState existing hostLists cache)"
      by (rule place_hosts_loop [OF Cons.prems])
    show ?thesis
    proof (cases "place_hosts admin disabled (show_padded 5 n) hostToState existing hostLists cache")
      case (Inl c)
      with h Some show ?thesis by (simp add: ph loop_ok_def)
    next
      case (Inr r)
      then obtain e l c where r: "r = (e, l, c)" by (cases r)
      with h Inr have "names_ok admin c" "set e = set existing \<union> fst ` set hostToState" by (simp_all add: loop_ok_def)
      with Cons.IH [of c e l] Inr Some r show ?thesis by (simp add: ph Un_assoc)
    qed
  qed
qed (simp add: loop_ok_def)

definition seen_hosts :: "helix_admin \<Rightarrow> string list \<Rightarrow> string set" where
  "seen_hosts admin resources = (\<Union>r \<in> set resources. case ha_view admin r of None \<Rightarrow> {}
     | Some view \<Rightarrow> \<Union>(_, hostToState) \<in> set (ev_partitions view). fst ` set hostToState)"

lemma place_resources_loop:
  "names_ok admin cache \<Longrightarrow>
    loop_ok admin (set existing \<union> seen_hosts admin (filter (\<lambda>r. \<not> is_participant_leader r) resources))
      (place_resources admin disabled resources existing config cache)"
proof (induction resources arbitrary: existing config cache)
  case (Cons r resources)
  show ?case
  proof (cases "\<not> is_participant_leader r \<and> (\<exists>view n. ha_view admin r = Some view \<and> num_shards_of view = Some n)")
    case False
    with Cons show ?thesis by (auto simp: loop_ok_def [of _ _ "Inl _"] num_shards_of_def split: option.splits)
  next
    case True
    then obtain view n where v: "\<not> is_participant_leader r" "ha_view admin r = Some view" "num_shards_of view = Some n" by blast
    note h = place_partitions_loop [OF Cons.prems, of existing "ev_partitions view" disabled "[]"]
    show ?thesis
    proof (cases "place_partitions admin disabled (ev_partitions view) existing [] cache")
      case (Inl c)
      with h v show ?thesis by (simp add: loop_ok_def num_shards_of_def)
    next
      case (Inr x)
      then obtain e l c where x: "x = (e, l, c)" by (cases x)
      with h Inr have "names_ok admin c" "set e = set existing \<union> (\<Union>(_, hs) \<in> set (ev_partitions view). fst ` set hs)"
        by (simp_all add: loop_ok_def)
      with Cons.IH [of c e] Inr v x show ?thesis by (simp add: seen_hosts_def num_shards_of_def Un_assoc)
    qed
  qed
qed (simp add: loop_ok_def seen_hosts_def)

lemma names_ok_filter: "names_ok admin cache \<Longrightarrow> names_ok admin (filter (\<lambda>(host, _). P host) cache)"
  by (auto simp: names_ok_def cache_ok_def distinct_map_filter map_of_eq_Some_iff)

lemma generateShardConfig_keeps:
  assumes "names_ok admin (hostToHostWithDomain cg)" "generateShardConfig admin print post cg = (thrown, cg')"
  shows "names_ok admin (hostToHostWithDomain cg')" "\<not> thrown \<Longrightarrow> fst ` set (hostToHostWithDomain cg') \<subseteq> seen_hosts admin (published admin)"
    "lastPostedContent cg' = lastPostedContent cg \<or> \<not> thrown \<and> (\<exists>content. lastPostedContent cg' = Some content \<and> post content)"
    "disabledHosts cg' = disabledHosts cg"
proof -
  let ?r = "place_resources admin (disabledHosts cg) (filterOutTaskResources admin (ha_resources admin)) [] [] (hostToHostWithDomain cg)"
  have l: "loop_ok admin (seen_hosts admin (published admin)) ?r"
    using place_resources_loop [OF assms(1), of "[]"] by (simp add: published_def)
  have "names_ok admin (hostToHostWithDomain cg') \<and> (\<not> thrown \<longrightarrow> fst ` set (hostToHostWithDomain cg') \<subseteq> seen_hosts admin (published admin)) \<and>
    (lastPostedContent cg' = lastPostedContent cg \<or> \<not> thrown \<and> (\<exists>content. lastPostedContent cg' = Some content \<and> post content)) \<and>
    disabledHosts cg' = disabledHosts cg"
  proof (cases ?r)
    case (Inl cache)
    with assms(2) l show ?thesis by (auto simp: generateShardConfig_def loop_ok_def)
  next
    case (Inr x)
    then obtain existing config cache where x: "?r = Inr (existing, config, cache)" by (cases x) simp
    let ?cache = "filter (\<lambda>(host, _). host \<in> set existing) cache"
    from l x have "names_ok admin cache" and seen: "set existing = seen_hosts admin (published admin)" by (simp_all add: loop_ok_def)
    from this(1) have "names_ok admin ?cache" by (rule names_ok_filter)
    moreover have "fst ` set ?cache \<subseteq> seen_hosts admin (published admin)" unfolding seen [symmetric] by auto
    moreover have "hostToHostWithDomain cg' = ?cache" "disabledHosts cg' = disabledHosts cg"
      "lastPostedContent cg' = lastPostedContent cg \<or> \<not> thrown \<and> (\<exists>content. lastPostedContent cg' = Some content \<and> post content)"
      using assms(2) unfolding generateShardConfig_def x sum.case prod.case Let_def by (auto split: if_splits)
    ultimately show ?thesis by (simp only: simp_thms)
  qed
  then show "names_ok admin (hostToHostWithDomain cg')" "\<not> thrown \<Longrightarrow> fst ` set (hostToHostWithDomain cg') \<subseteq> seen_hosts admin (published admin)"
    "lastPostedContent cg' = lastPostedContent cg \<or> \<not> thrown \<and> (\<exists>content. lastPostedContent cg' = Some content \<and> post content)"
    "disabledHosts cg' = disabledHosts cg" by simp_all
qed

text \<open>A single resource that Helix has no external view of yet keeps the whole map from being generated.\<close>

lemma place_resources_no_view:
  "r \<in> set resources \<Longrightarrow> \<not> is_participant_leader r \<Longrightarrow> ha_view admin r = None \<Longrightarrow>
    \<exists>cache'. place_resources admin disabled resources existing config cache = Inl cache'"
  by (induction resources arbitrary: existing config cache) (auto split: option.split sum.split)

lemma no_view_no_map:
  assumes "r \<in> set (published admin)" "ha_view admin r = None"
  shows "\<exists>cache. generateShardConfig admin print post cg = (True, cg\<lparr>hostToHostWithDomain := cache\<rparr>)"
  using assms place_resources_no_view
    [of r "filterOutTaskResources admin (ha_resources admin)" admin "disabledHosts cg" "[]" "[]" "hostToHostWithDomain cg"]
  by (auto simp: published_def generateShardConfig_def)

section \<open>Properties\<close>

text \<open>
  (C34) What the generator remembers stays well formed. Whatever callback it gets, and whether or not the generation ends with
  an exception, its cache has each host once, with the name that Helix gives it; after a generation that was completed it has only hosts
  of the published resources; and the content it takes for posted is the one it had or one that was accepted, and is not
  changed by a generation that fails.
\<close>

theorem onCallback_keeps_names:
  assumes "names_ok admin (hostToHostWithDomain cg)" "onCallback admin print post change cg = (thrown, cg')"
  shows "names_ok admin (hostToHostWithDomain cg') \<and>
    (change = EXTERNAL_VIEW \<and> \<not> thrown \<longrightarrow> fst ` set (hostToHostWithDomain cg') \<subseteq> seen_hosts admin (published admin)) \<and>
    (lastPostedContent cg' = lastPostedContent cg \<or> \<not> thrown \<and> (\<exists>content. lastPostedContent cg' = Some content \<and> post content))"
proof (cases change)
  case EXTERNAL_VIEW
  with assms(2) have "generateShardConfig admin print post cg = (thrown, cg')" by (simp add: onCallback_def)
  from generateShardConfig_keeps [OF assms(1) this] show ?thesis by blast
next
  case INSTANCE_CONFIG
  show ?thesis
  proof (cases "set (disabledHosts cg) = set (ha_disabled admin)")
    case True
    with assms INSTANCE_CONFIG show ?thesis by (simp add: onCallback_def onConfigChange_def updateDisabledHosts_def)
  next
    case False
    let ?cg = "cg\<lparr>disabledHosts := ha_disabled admin\<rparr>"
    have "generateShardConfig admin print post ?cg = (thrown, cg')"
      using assms(2) INSTANCE_CONFIG False by (simp add: onCallback_def onConfigChange_def updateDisabledHosts_def)
    with generateShardConfig_keeps [of admin ?cg print post thrown cg'] assms(1) INSTANCE_CONFIG show ?thesis by simp
  qed
next
  case OTHER_CHANGE
  with assms show ?thesis by (simp add: onCallback_def)
qed


text \<open>A cluster with two instances and one published resource; the library prints the members of an object in alphabetical order.\<close>

definition ex_view :: external_view where
  "ex_view = \<lparr>ev_num_partitions = Some ''2'',
     ev_partitions = [(''seg_0'', [(''h_1'', ''MASTER''), (''g_1'', ''SLAVE'')]), (''seg_1'', [(''h_1'', ''OFFLINE''), (''g_1'', ''MASTER'')])]\<rparr>"

definition ex_helix :: helix_admin where
  "ex_helix = \<lparr>ha_resources = [''seg'', ''PARTICIPANT_LEADER_1'', ''job''],
     ha_stateModel = (\<lambda>r. Some (if r = ''job'' then Some ''Task'' else None)),
     ha_view = (\<lambda>r. if r = ''seg'' then Some ex_view else None), ha_domain = (\<lambda>_. Some ''az=a,pg=b''), ha_disabled = []\<rparr>"

definition ex_instance :: "string \<Rightarrow> string \<times> u16" where
  "ex_instance host = (take 1 host, 1)"

definition ex_root :: "(string \<times> json) list" where
  "ex_root = [(''seg'', JObject [(''g:1:a_b'', JArray [JString ''00000:S'', JString ''00001:M'']), (''h:1:a_b'', JArray [JString ''00000:M'']),
     (''num_shards'', JInt 2)])]"

lemma ex_shard_map: "shard_map ex_helix ConfigGenerator_ctor =
    [(''seg'', JObject [(''num_shards'', JInt 2), (''h:1:a_b'', JArray [JString ''00000:M'']),
       (''g:1:a_b'', JArray [JString ''00000:S'', JString ''00001:M''])])]"
  by code_simp

lemma ex_published: "published ex_helix = [''seg'']"
  by code_simp

lemma ex_resource_ok: "resource_ok ex_helix ex_address ex_instance [] ''seg''"
  by code_simp

lemma ex_names_ok: "names_ok ex_helix (hostToHostWithDomain ConfigGenerator_ctor)"
  by (simp add: names_ok_def cache_ok_def ConfigGenerator_ctor_def)

theorem onCallback_keeps_names_witness:
  "names_ok ex_helix (hostToHostWithDomain (snd (onCallback ex_helix (\<lambda>_. ''x'') (\<lambda>_. True) EXTERNAL_VIEW ConfigGenerator_ctor)))"
  using onCallback_keeps_names [OF ex_names_ok prod.collapse [symmetric]] by blast


end
