(* ===== verification/Spec2Isabelle.thy ===== *)
theory Spec2Isabelle
  imports Replication Admin_Boot Object_Lock Thrift_Router Hot_Key Stats Kafka_Consumer State_Models Shard_Map
begin

text \<open>
  A verification development for rocksplicator: real-time replication of RocksDB databases between the processes of a
  service, the administration service that opens, moves, backs up and loads these databases, the C++ libraries both
  are built on, and the cluster management in Java that assigns the databases to processes. All paths are below \<open>src/\<close>.

  \<^bold>\<open>The parts and how they interact.\<close> A process has one \<open>RocksDBReplicator\<close>, a map from names to \<open>ReplicatedDB\<close>s. A master's
  \<open>ReplicatedDB\<close> writes to RocksDB and serves the requests of its slaves from RocksDB's log; a slave's pulls from its upstream and
  writes what it gets. Requests that find no updates are parked on a \<open>NonBlockingConditionVariable\<close>; writers that have to
  wait for an acknowledgement wait on a \<open>MaxNumberBox\<close>. On top, \<open>ApplicationDBManager\<close> owns the databases of the service, and
  \<open>AdminHandler\<close> serves the administration requests with it, among them the ingestion of Kafka messages by a \<open>KafkaWatcher\<close>, which
  uses a \<open>KafkaConsumer\<close>. Clients find the databases through a \<open>ThriftRouter\<close>, which parses shard maps and takes connections from a
  \<open>ThriftClientPool\<close>. Helix decides which process serves a database in which role; the state models of \<open>cluster_management/\<close>
  carry its decisions out by calls of the admin services, and \<open>ConfigGenerator\<close> publishes the outcome as the shard map that the routers
  parse. \<open>Stats\<close>, \<open>HotKeyDetector\<close> and \<open>ObjectLock\<close> are libraries of their own.

  \<^bold>\<open>The theories.\<close> Every class is a record with its members, every method a definition with the method's name on such a
  record, in the order of the code. Sequences of critical sections of concurrent classes are step relations.
  \<^item> \<open>Prelude\<close>: machine integers, reachable states, the contract \<open>invariant_system\<close> of a step relation with an invariant,
    decimal numbers and splitting of strings.
  \<^item> \<open>Rocksdb_Api\<close>: RocksDB as a parameter, and \<open>rocksdb_spec\<close>, what the replicator relies on.
  \<^item> \<open>Max_Number_Box\<close>, \<open>Non_Blocking_CV\<close>, \<open>Fast_Read_Map\<close>: the files of \<open>rocksdb_replicator/\<close> of these names. No notification is
    missed, no task runs twice, a destructor runs what is parked, readers see one published version.
  \<^item> \<open>Replicated_Db\<close>, \<open>Replicator\<close>: \<open>rocksdb_replicator/replicated_db.cpp\<close>, \<open>rocksdb_replicator.cpp\<close>, \<open>replicator_handler.cpp\<close>,
    \<open>cached_iter_cleaner.cpp\<close>. Return codes and effects of writes, progress of a request, no failed \<open>CHECK\<close>.
  \<^item> \<open>Replication\<close>: any number of databases that replicate from each other over a network that loses and delays calls.
    The log of a slave is always a prefix of its upstream's; an acknowledged write is in the log of a slave.
  \<^item> \<open>Admin_Utils\<close>, \<open>Application_Db\<close>: \<open>rocksdb_admin/utils.cpp\<close>, \<open>application_db.{h,cpp}\<close>, \<open>application_db_manager.cpp\<close>.
  \<^item> \<open>Kafka_Watcher\<close>, \<open>Kafka_Consumer\<close>: \<open>common/kafka/\<close>. The first consumption hands over everything up to its start; after a
    seek nothing is lost, whatever errors occur and however often the client is created again.
  \<^item> \<open>Admin_State\<close>, \<open>Admin_Handler\<close>: the state and all handlers of \<open>rocksdb_admin/admin_handler.cpp\<close>; \<open>Admin_Safety\<close>, \<open>Admin_Properties\<close>
    and \<open>Admin_Requests\<close>: their invariant, the reachable states of the service, and what single requests do, errors
    included. \<open>Admin_Boot\<close>: the start of a service from a shard map.
  \<^item> \<open>Cluster_Layout\<close>, \<open>Thrift_Client_Pool\<close>, \<open>Thrift_Router\<close>: \<open>common/thrift_router.{h,cpp}\<close>, \<open>thrift_client_pool.h\<close>. The parser
    accepts the well-formed maps and yields what they say; the router returns the clients that its rules select.
  \<^item> \<open>Object_Lock\<close>, \<open>Hot_Key\<close>, \<open>Stats\<close>: \<open>common/object_lock.h\<close>, \<open>hot_key_detector.h\<close>, \<open>stats/stats.cpp\<close>. Mutual exclusion; a
    key reported hot is hot; every recorded value is counted exactly once.
  \<^item> \<open>Helix_Utils\<close>, \<open>State_Models\<close>: \<open>Utils.java\<close>, the four state models and the two tasks of \<open>cluster_management/\<close>, as functions that
    throw or return and that leave a trace of the calls to admin services; \<open>runs\<close> is the logic for such functions. A replica is promoted
    only with the highest sequence number of the replicas asked; a new slave follows a live replica.
  \<^item> \<open>Shard_Map\<close>: \<open>ConfigGenerator.java\<close>. What a router parses from a published map is what the external views of Helix show.

  \<^bold>\<open>Conventions.\<close> Unsigned integers are words where they can wrap around; \<open>int64_t\<close> values that are only compared are
  integers. A failed \<open>CHECK\<close>, an abort and a dereferenced null pointer are \<open>None\<close>, errors are values. The clock, random
  numbers, reference counts and what other threads do between two critical sections are arguments, so the theorems
  hold for all of them. Libraries that are not part of the repository are records of functions (\<open>rocksdb_api\<close>, \<open>admin_env\<close>,
  \<open>folly_stats\<close>, \<open>rdkafka\<close>), and what is assumed of them is a predicate of its own (\<open>rocksdb_spec\<close>, \<open>folly_spec\<close>, \<open>rd_spec\<close>), for which
  a concrete instance is given.

  \<^bold>\<open>Bounds and fuel.\<close> Loops over data are structural. The loops of \<open>KafkaWatcher\<close> take one event per round, and end with the
  events or earlier; \<open>resetInstance\<close> may repeat forever and is a partial function, whose result \<open>None\<close> is exactly that; the loops
  around the operations of the consumer end because the poller can set the flag only as often as the list of its
  actions says. The loop of a replica that becomes a slave may wait forever; it takes the number of its rounds as an argument, and
  its theorem holds for every number. No other definition needs fuel.

  \<^bold>\<open>Not modelled.\<close>
  \<^item> Transport and processes: thrift servers and sockets, \<open>safe_future_client.h\<close>, thread pools, TLS contexts, signal handlers,
    \<open>helix_client.cpp\<close> (calls into a Java virtual machine), \<open>performance.cpp\<close>, the main programs of \<open>examples/\<close>.
  \<^item> \<open>s3util.{h,cpp}\<close>, \<open>rocksdb_env_s3.{h,cpp}\<close>: calls of the AWS library and of the file system; the admin service sees them as part
    of \<open>admin_env\<close>.
  \<^item> The watchers of files (\<open>file_watcher.cpp\<close>, \<open>FilePoller.cpp\<close>, \<open>MultiFilePoller.cpp\<close>): what they deliver is an argument of
    the components that use them.
  \<^item> Logging, and the text of log and error messages that no program reads.
  \<^item> The rate limiters (\<open>concurrent_rate_limiter.cpp\<close>, \<open>aws_s3_rate_limiter.cpp\<close>): their budget is a floating-point number.
  \<^item> The main programs of \<open>cluster_management/\<close> (\<open>Participant.java\<close>, \<open>Spectator.java\<close>) and the factories of its tasks, which read the
    configuration and register the modelled classes; \<open>rocksdb_admin/tool/\<close> (Python); the packet sniffer \<open>tgrep/\<close>.
\<close>

end
